(* ===== verification/Prelude.thy ===== *)
theory Prelude
  imports Main "HOL-Library.Word"
begin

unbundle bit_operations_syntax

text \<open>
  What every component of the kernel shares: the machine integers of the i686 target, the
  little-endian byte memory in which the kernel's heap, page tables and task structures live,
  the bit macros of \<^verbatim>\<open>include/kernel/common/common_macros.h\<close>, the page arithmetic of
  \<^verbatim>\<open>include/kernel/memory/pmm.h\<close> and \<^verbatim>\<open>memory.h\<close>, and the outcome of a routine that may
  never return to its caller.
\<close>

section \<open>Machine integers\<close>

type_synonym u8 = "8 word"
type_synonym u16 = "16 word"
type_synonym u32 = "32 word"

text \<open>The memory the kernel sees through its virtual addresses: one byte per address.\<close>

type_synonym bytes = "u32 \<Rightarrow> u8"

named_theorems mem_simps \<open>reading the byte memory after a write\<close>
named_theorems frame_simps \<open>state components an operation leaves alone\<close>

section \<open>Routines that may not return\<close>

text \<open>
  A routine ends in one of three ways: it returns a value and a new state; it stops the kernel
  (\<^verbatim>\<open>panic\<close> prints and loops with interrupts off, other code loops forever); or it does
  something to which the C standard and the object layout give no meaning (reads an
  uninitialised variable, indexes past an array whose neighbour is unknown).
\<close>

datatype stop =
    Panic "u8 list"
  | Spin
  | Undefined

type_synonym ('s, 'a) result = "(stop \<times> 's) + ('a \<times> 's)"

definition bindR :: "('s, 'a) result \<Rightarrow> ('a \<Rightarrow> 's \<Rightarrow> ('s, 'b) result) \<Rightarrow> ('s, 'b) result" where
  "bindR m f = (case m of Inl e \<Rightarrow> Inl e | Inr (x, s) \<Rightarrow> f x s)"

section \<open>The bit macros\<close>

definition CHECK_BIT_SET :: "u32 \<Rightarrow> nat \<Rightarrow> bool" where
  "CHECK_BIT_SET num index \<longleftrightarrow> num AND push_bit index 1 \<noteq> 0"

definition SET_BIT :: "u32 \<Rightarrow> nat \<Rightarrow> u32" where
  "SET_BIT num index = num OR push_bit index 1"

definition CLEAR_BIT :: "u32 \<Rightarrow> nat \<Rightarrow> u32" where
  "CLEAR_BIT num index = num AND NOT (push_bit index 1)"

section \<open>Pages and the higher half\<close>

definition PAGE_SIZE :: u32 where
  "PAGE_SIZE = 4096"

definition PAGE_ALIGN :: "u32 \<Rightarrow> u32" where
  "PAGE_ALIGN x = x AND 0xFFFFF000"

definition PAGE_INCREMENT :: "u32 \<Rightarrow> u32" where
  "PAGE_INCREMENT x = x + PAGE_SIZE"

definition PAGE_DECREMENT :: "u32 \<Rightarrow> u32" where
  "PAGE_DECREMENT x = x - PAGE_SIZE"

definition KERNEL_VIRT_BASE :: u32 where
  "KERNEL_VIRT_BASE = 0xC0000000"

definition P2V_ADDR :: "u32 \<Rightarrow> u32" where
  "P2V_ADDR x = x + KERNEL_VIRT_BASE"

definition V2P_ADDR :: "u32 \<Rightarrow> u32" where
  "V2P_ADDR x = x - KERNEL_VIRT_BASE"

section \<open>Little-endian words in the byte memory\<close>

definition load32 :: "bytes \<Rightarrow> u32 \<Rightarrow> u32" where
  "load32 m a = ucast (m a) OR push_bit 8 (ucast (m (a + 1)))
     OR push_bit 16 (ucast (m (a + 2))) OR push_bit 24 (ucast (m (a + 3)))"

definition store32 :: "bytes \<Rightarrow> u32 \<Rightarrow> u32 \<Rightarrow> bytes" where
  "store32 m a v = m(a := ucast v, a + 1 := ucast (drop_bit 8 v),
     a + 2 := ucast (drop_bit 16 v), a + 3 := ucast (drop_bit 24 v))"

text \<open>Two word-sized cells that share no byte.\<close>

definition apart32 :: "u32 \<Rightarrow> u32 \<Rightarrow> bool" where
  "apart32 a b \<longleftrightarrow> 4 \<le> b - a \<and> 4 \<le> a - b"

text \<open>A word-aligned address.\<close>

definition aligned4 :: "u32 \<Rightarrow> bool" where
  "aligned4 a \<longleftrightarrow> unat a mod 4 = 0"

section \<open>Lemmas on results\<close>

lemma bindR_Inr [simp]: "bindR (Inr (x, s)) f = f x s"
  by (simp add: bindR_def)

lemma bindR_Inl [simp]: "bindR (Inl e) f = Inl e"
  by (simp add: bindR_def)

lemma bindR_eq_Inr:
  "bindR m f = Inr r \<longleftrightarrow> (\<exists>x s. m = Inr (x, s) \<and> f x s = Inr r)"
  by (cases m) (auto simp: bindR_def split: prod.splits)

lemma bindR_assoc: "bindR (bindR m f) g = bindR m (\<lambda>x s. bindR (f x s) g)"
  by (cases m) (auto simp: bindR_def split: prod.splits)

section \<open>Lemmas on words and bits\<close>

lemma CHECK_BIT_SET_bit: "CHECK_BIT_SET w i \<longleftrightarrow> bit w i"
proof -
  have "CHECK_BIT_SET w i \<longleftrightarrow> (\<exists>n<32. bit (w AND push_bit i 1) n)"
    by (simp add: CHECK_BIT_SET_def bit_eq_iff)
  then show ?thesis
    using bit_imp_le_length [of w i] by (auto simp: bit_simps)
qed

lemma bit_SET_BIT: "bit (SET_BIT w i) j \<longleftrightarrow> bit w j \<or> (j = i \<and> i < 32)"
  by (auto simp: SET_BIT_def bit_simps)

lemma bit_CLEAR_BIT: "bit (CLEAR_BIT w i) j \<longleftrightarrow> bit w j \<and> j \<noteq> i"
  using bit_imp_le_length [of w j] by (auto simp: CLEAR_BIT_def bit_simps)

lemma all_ones_mask: "(0xFFFFFFFF :: u32) = mask 32"
  by (simp add: mask_eq_exp_minus_1)

lemma all_ones_iff: "(w :: u32) = 0xFFFFFFFF \<longleftrightarrow> (\<forall>i<32. bit w i)"
  unfolding all_ones_mask by (auto simp: bit_eq_iff bit_simps)

lemma unat_less_u32: "unat (w :: u32) < 4294967296"
  using unsigned_less [of w] by simp

lemma P2V_V2P [simp]: "P2V_ADDR (V2P_ADDR x) = x"
  by (simp add: P2V_ADDR_def V2P_ADDR_def)

lemma V2P_P2V [simp]: "V2P_ADDR (P2V_ADDR x) = x"
  by (simp add: P2V_ADDR_def V2P_ADDR_def)

lemma PAGE_ALIGN_mask: "PAGE_ALIGN x = x AND NOT (mask 12)"
proof -
  have "NOT (mask 12) = (0xFFFFF000 :: u32)"
    by (simp add: mask_eq_exp_minus_1 not_eq_complement)
  then show ?thesis
    by (simp only: PAGE_ALIGN_def)
qed

lemma bit_PAGE_ALIGN: "bit (PAGE_ALIGN x) i \<longleftrightarrow> bit x i \<and> 12 \<le> i"
  unfolding PAGE_ALIGN_mask using bit_imp_le_length [of x i] by (auto simp: bit_simps)

lemma unat_PAGE_ALIGN: "unat (PAGE_ALIGN x) = unat x - unat x mod 4096"
proof -
  have *: "unat x - unat x mod 4096 = push_bit 12 (drop_bit 12 (unat x))"
    by (simp add: push_bit_eq_mult drop_bit_eq_div minus_mod_eq_mult_div)
  show ?thesis
    unfolding *
    by (rule bit_eqI) (auto simp: bit_PAGE_ALIGN bit_simps)
qed

section \<open>Lemmas on the byte memory\<close>

lemma load32_store32_same [mem_simps, simp]: "load32 (store32 m a v) a = v"
proof (rule bit_word_eqI)
  fix n assume n: "n < LENGTH(32)"
  then consider "n < 8" | "8 \<le> n" "n < 16" | "16 \<le> n" "n < 24" | "24 \<le> n" "n < 32"
    by force
  then show "bit (load32 (store32 m a v) a) n = bit v n"
    by cases (auto simp: load32_def store32_def bit_simps)
qed

lemma apart32_sym: "apart32 a b \<longleftrightarrow> apart32 b a"
  by (auto simp: apart32_def)

lemma apart32_offsets:
  assumes "apart32 a b" "i < 4" "j < 4"
  shows "b + of_nat j \<noteq> a + of_nat i"
proof
  assume eq: "b + of_nat j = a + of_nat i"
  show False
  proof (cases "i \<le> j")
    case True
    with eq have "a - b = of_nat (j - i)" by (simp add: algebra_simps)
    then have "unat (a - b) = j - i"
      using assms by (simp add: unat_of_nat del: of_nat_diff)
    with assms show False by (auto simp: apart32_def word_le_nat_alt)
  next
    case False
    with eq have "b - a = of_nat (i - j)" by (simp add: algebra_simps)
    then have "unat (b - a) = i - j"
      using assms by (simp add: unat_of_nat del: of_nat_diff)
    with assms show False by (auto simp: apart32_def word_le_nat_alt)
  qed
qed

lemma store32_apart_byte:
  assumes "4 \<le> b - a"
  shows "store32 m a v b = m b"
proof -
  have "b \<noteq> a + of_nat i" if "i < 4" for i
  proof
    assume "b = a + of_nat i"
    then have "unat (b - a) = i" using that by (simp add: unat_of_nat)
    with assms that show False by (simp add: word_le_nat_alt)
  qed
  from this [of 0] this [of 1] this [of 2] this [of 3] show ?thesis
    by (simp add: store32_def)
qed

lemma load32_cong:
  assumes "\<And>i. i < 4 \<Longrightarrow> m (a + of_nat i) = m' (a + of_nat i)"
  shows "load32 m a = load32 m' a"
  using assms [of 0] assms [of 1] assms [of 2] assms [of 3] by (simp add: load32_def)

lemma load32_store32_apart [mem_simps]:
  assumes "apart32 a b"
  shows "load32 (store32 m a v) b = load32 m b"
proof (rule load32_cong)
  fix j :: nat assume j: "j < 4"
  have "b + of_nat j \<noteq> a + of_nat i" if "i < 4" for i
    using apart32_offsets [OF assms that j] .
  from this [of 0] this [of 1] this [of 2] this [of 3]
  show "store32 m a v (b + of_nat j) = m (b + of_nat j)"
    by (simp add: store32_def)
qed

lemma apart32_unatI:
  assumes "unat a + 4 \<le> unat b" "unat b \<le> 2 ^ 32 - 4"
  shows "apart32 a b"
proof -
  from assms have "unat (b - a) = unat b - unat a" "unat (a - b) = unat a + 2 ^ 32 - unat b"
    by (simp_all add: unat_sub_if')
  with assms show ?thesis
    by (auto simp: apart32_def word_le_nat_alt)
qed

lemma aligned4_apart32:
  assumes "aligned4 a" "aligned4 b" "a \<noteq> b"
  shows "apart32 a b"
proof -
  have le: "unat c + 4 \<le> unat d \<and> unat d \<le> 2 ^ 32 - 4"
    if "aligned4 c" "aligned4 d" "unat c < unat d" for c d
  proof -
    have "unat d < 2 ^ 32" using unsigned_less [of d] by simp
    with that show ?thesis by (simp add: aligned4_def) (presburger)
  qed
  from assms(3) have "unat a \<noteq> unat b" by (simp add: word_unat_eq_iff)
  then consider "unat a < unat b" | "unat b < unat a" by linarith
  then show ?thesis
  proof cases
    case 1
    with le [OF assms(1,2)] show ?thesis by (blast intro: apart32_unatI)
  next
    case 2
    with le [OF assms(2,1)] have "apart32 b a" by (blast intro: apart32_unatI)
    then show ?thesis by (simp add: apart32_sym)
  qed
qed

lemma aligned4_add:
  assumes "aligned4 a" "aligned4 b"
  shows "aligned4 (a + b)"
proof -
  have "unat (a + b) mod 4 = (unat a + unat b) mod 4"
    by (simp add: unat_word_ariths mod_mod_cancel)
  then show ?thesis
    using assms by (simp add: aligned4_def) presburger
qed

section \<open>Step relations\<close>

text \<open>A property that every step keeps holds in every state reachable from one that has it.\<close>

locale invariant_system =
  fixes step :: "'c \<Rightarrow> 'c \<Rightarrow> bool" and inv :: "'c \<Rightarrow> bool"
  assumes step_inv: "inv c \<Longrightarrow> step c d \<Longrightarrow> inv d"
begin

lemma reachable_inv:
  assumes "step\<^sup>*\<^sup>* c d" "inv c"
  shows "inv d"
  using assms by (induction rule: rtranclp_induct) (auto intro: step_inv)

end

end
