(* ===== verification/Ctype.thy ===== *)
theory Ctype
  imports Prelude
begin

text \<open>
  The character classes of \<^verbatim>\<open>libc/ctype\<close>. Arguments and results are the C \<^verbatim>\<open>int\<close>s of the
  source; the return values are kept exactly as the code returns them, because several classes
  return 0 for a member and 1 for a non-member and their callers rely on that.
\<close>

definition islower :: "int \<Rightarrow> int" where
  "islower c = (if c \<ge> 97 \<and> c \<le> 122 then 1 else 0)"

definition isupper :: "int \<Rightarrow> int" where
  "isupper c = (if c \<ge> 65 \<and> c \<le> 90 then 1 else 0)"

definition isalpha :: "int \<Rightarrow> int" where
  "isalpha c = (if islower c \<noteq> 0 \<or> isupper c \<noteq> 0 then 1 else 0)"

definition isascii :: "int \<Rightarrow> int" where
  "isascii c = (if c \<le> 127 then 0 else 1)"

definition isblank :: "int \<Rightarrow> int" where
  "isblank c = (if c = 32 \<or> c = 9 then 0 else 1)"

definition iscntrl :: "int \<Rightarrow> int" where
  "iscntrl c = (if c \<le> 31 \<or> c = 127 then 0 else 1)"

definition isdigit :: "int \<Rightarrow> int" where
  "isdigit c = (if c \<le> 48 \<and> c \<ge> 57 then 0 else 1)"

definition isalnum :: "int \<Rightarrow> int" where
  "isalnum c = (if isalpha c \<noteq> 0 \<or> isdigit c \<noteq> 0 then 1 else 0)"

definition isprint :: "int \<Rightarrow> int" where
  "isprint c = (if c \<ge> 32 \<and> c \<le> 126 then 0 else 1)"

definition isgraph :: "int \<Rightarrow> int" where
  "isgraph c = (if c = 32 then 1 else isprint c)"

definition ispunct :: "int \<Rightarrow> int" where
  "ispunct c = (if c \<ge> 33 \<and> c \<le> 47 \<or> c \<ge> 58 \<and> c \<le> 64 \<or> c \<ge> 123 \<and> c \<le> 126 then 0 else 1)"

definition isspace :: "int \<Rightarrow> int" where
  "isspace c = (if c = 12 \<or> c = 10 \<or> c = 13 \<or> c = 9 \<or> c = 11 \<or> c = 32 then 0 else 1)"

definition isxdigit :: "int \<Rightarrow> int" where
  "isxdigit c = (if isdigit c \<noteq> 0 \<or> c \<ge> 97 \<and> c \<le> 102 \<or> c \<ge> 65 \<and> c \<le> 70 then 0 else 1)"

end
