(* ===== verification/Machine.thy ===== *)
theory Machine
  imports Prelude
begin

text \<open>
  The hardware the kernel drives, as far as its C code touches it: the byte memory, the port
  space behind \<^verbatim>\<open>kernel/common/ports.c\<close>, the interrupt flag of \<^verbatim>\<open>kernel/common/cpu.c\<close> and the
  control registers that \<^verbatim>\<open>kernel/memory/paging.c\<close> loads. Every later component extends this
  record with its own static variables, so that an operation of one component applies to the
  state of the whole kernel and visibly leaves the rest of it alone.
\<close>

record machine =
  mem :: bytes
  port_out :: "(u16 \<times> u8) list"
  port_in :: "u16 \<Rightarrow> u8"
  port_in16 :: "u16 \<Rightarrow> u16"
  int_flag :: bool
  cr0 :: u32
  cr2 :: u32
  cr3 :: u32

text \<open>
  \<^const>\<open>port_out\<close> is the trace of the bytes sent to the devices, the most recent one first;
  \<^const>\<open>port_in\<close> is what each device presents to the next read of its port.
\<close>

definition outb :: "u16 \<Rightarrow> u8 \<Rightarrow> 'a machine_scheme \<Rightarrow> 'a machine_scheme" where
  "outb port val s = s\<lparr>port_out := (port, val) # port_out s\<rparr>"

definition inb :: "u16 \<Rightarrow> 'a machine_scheme \<Rightarrow> u8" where
  "inb port s = port_in s port"

definition inw :: "u16 \<Rightarrow> 'a machine_scheme \<Rightarrow> u16" where
  "inw port s = port_in16 s port"

definition cli :: "'a machine_scheme \<Rightarrow> 'a machine_scheme" where
  "cli s = s\<lparr>int_flag := False\<rparr>"

definition sti :: "'a machine_scheme \<Rightarrow> 'a machine_scheme" where
  "sti s = s\<lparr>int_flag := True\<rparr>"

text \<open>\<^verbatim>\<open>hlt\<close> only waits: the state it returns with is the one it was entered with.\<close>

definition halt :: "'a machine_scheme \<Rightarrow> 'a machine_scheme" where
  "halt s = s"

text \<open>Loads and stores of a 32-bit object through a pointer.\<close>

definition rd :: "u32 \<Rightarrow> 'a machine_scheme \<Rightarrow> u32" where
  "rd a s = load32 (mem s) a"

definition wr :: "u32 \<Rightarrow> u32 \<Rightarrow> 'a machine_scheme \<Rightarrow> 'a machine_scheme" where
  "wr a v s = s\<lparr>mem := store32 (mem s) a v\<rparr>"

lemma rd_wr_same [simp]: "rd a (wr a v s) = v"
  by (simp add: rd_def wr_def)

lemma rd_wr_apart: "apart32 a b \<Longrightarrow> rd b (wr a v s) = rd b s"
  by (simp add: rd_def wr_def load32_store32_apart)

lemma rd_wr_aligned:
  "aligned4 a \<Longrightarrow> aligned4 b \<Longrightarrow> rd b (wr a v s) = (if a = b then v else rd b s)"
  by (simp add: rd_wr_apart aligned4_apart32)

lemma outb_frame [frame_simps]:
  "mem (outb p v s) = mem s" "int_flag (outb p v s) = int_flag s"
  "cr0 (outb p v s) = cr0 s" "cr3 (outb p v s) = cr3 s" "port_in (outb p v s) = port_in s"
  "machine.more (outb p v s) = machine.more s"
  by (simp_all add: outb_def)

lemma wr_frame [frame_simps]:
  "port_out (wr a v s) = port_out s" "port_in (wr a v s) = port_in s"
  "int_flag (wr a v s) = int_flag s" "cr0 (wr a v s) = cr0 s" "cr3 (wr a v s) = cr3 s"
  "machine.more (wr a v s) = machine.more s"
  by (simp_all add: wr_def)

end
