(* ===== verification/Tty.thy ===== *)
theory Tty
  imports Machine
begin

text \<open>
  The terminal: \<^verbatim>\<open>kernel/terminal/vga.c\<close> and \<^verbatim>\<open>kernel/terminal/tty.c\<close>. The text-mode frame
  buffer is device memory, kept apart from the byte memory: \<open>vga_mem\<close> maps the address of a
  16-bit cell to its contents, and \<open>tty_buffer[i]\<close> is the cell at \<open>tty_buffer + 2 * i\<close>.
  Positions are \<^verbatim>\<open>size_t\<close>, 32-bit words. A C string is the list of its bytes with the closing
  NUL byte included.
\<close>

record tty = machine +
  tty_ypos :: u32
  tty_xpos :: u32
  tty_color :: u8
  tty_buffer :: u32
  vga_mem :: "u32 \<Rightarrow> u16"

definition SCREEN_WIDTH :: nat where
  "SCREEN_WIDTH = 80"

definition SCREEN_HEIGHT :: nat where
  "SCREEN_HEIGHT = 25"

text \<open>The enumeration of the text mode colors, with its values.\<close>

datatype vga_color =
    VGA_COLOR_BLACK
  | VGA_COLOR_BLUE
  | VGA_COLOR_GREEN
  | VGA_COLOR_CYAN
  | VGA_COLOR_RED
  | VGA_COLOR_MAGENTA
  | VGA_COLOR_BROWN
  | VGA_COLOR_LIGHT_GREY
  | VGA_COLOR_DARK_GREY
  | VGA_COLOR_LIGHT_BLUE
  | VGA_COLOR_LIGHT_GREEN
  | VGA_COLOR_LIGHT_CYAN
  | VGA_COLOR_LIGHT_RED
  | VGA_COLOR_LIGHT_MAGENTA
  | VGA_COLOR_LIGHT_BROWN
  | VGA_COLOR_WHITE

primrec vga_color_value :: "vga_color \<Rightarrow> u32" where
    "vga_color_value VGA_COLOR_BLACK = 0"
  | "vga_color_value VGA_COLOR_BLUE = 1"
  | "vga_color_value VGA_COLOR_GREEN = 2"
  | "vga_color_value VGA_COLOR_CYAN = 3"
  | "vga_color_value VGA_COLOR_RED = 4"
  | "vga_color_value VGA_COLOR_MAGENTA = 5"
  | "vga_color_value VGA_COLOR_BROWN = 6"
  | "vga_color_value VGA_COLOR_LIGHT_GREY = 7"
  | "vga_color_value VGA_COLOR_DARK_GREY = 8"
  | "vga_color_value VGA_COLOR_LIGHT_BLUE = 9"
  | "vga_color_value VGA_COLOR_LIGHT_GREEN = 10"
  | "vga_color_value VGA_COLOR_LIGHT_CYAN = 11"
  | "vga_color_value VGA_COLOR_LIGHT_RED = 12"
  | "vga_color_value VGA_COLOR_LIGHT_MAGENTA = 13"
  | "vga_color_value VGA_COLOR_LIGHT_BROWN = 14"
  | "vga_color_value VGA_COLOR_WHITE = 15"

definition vga_color_entry :: "vga_color \<Rightarrow> vga_color \<Rightarrow> u8" where
  "vga_color_entry fg bg = ucast (vga_color_value fg OR push_bit 4 (vga_color_value bg))"

definition vga_entry :: "u8 \<Rightarrow> u8 \<Rightarrow> u16" where
  "vga_entry uc color = ucast uc OR push_bit 8 (ucast color)"

text \<open>Reading and writing \<^verbatim>\<open>tty_buffer[index]\<close>.\<close>

definition get_cell :: "u32 \<Rightarrow> 'a tty_scheme \<Rightarrow> u16" where
  "get_cell index s = vga_mem s (tty_buffer s + 2 * index)"

definition put_cell :: "u32 \<Rightarrow> u16 \<Rightarrow> 'a tty_scheme \<Rightarrow> 'a tty_scheme" where
  "put_cell index v s = s\<lparr>vga_mem := (vga_mem s)(tty_buffer s + 2 * index := v)\<rparr>"

definition update_cursor :: "u32 \<Rightarrow> u32 \<Rightarrow> 'a tty_scheme \<Rightarrow> 'a tty_scheme" where
  "update_cursor x y s =
     (let s = s\<lparr>tty_xpos := x, tty_ypos := y\<rparr>;
          pos = ucast (y * of_nat SCREEN_WIDTH + x) :: u16;
          s = outb 0x3D4 0x0F s;
          s = outb 0x3D5 (ucast (pos AND 0xFF)) s;
          s = outb 0x3D4 0x0E s
      in outb 0x3D5 (ucast (drop_bit 8 pos AND 0xFF)) s)"

definition tty_clear :: "'a tty_scheme \<Rightarrow> 'a tty_scheme" where
  "tty_clear s =
     (let s = s\<lparr>tty_buffer := 0xC00B8000\<rparr>;
          s = s\<lparr>tty_color := vga_color_entry VGA_COLOR_WHITE VGA_COLOR_BLACK\<rparr>;
          s = fold (\<lambda>y. fold (\<lambda>x s.
                put_cell (of_nat (y * SCREEN_WIDTH + x)) (vga_entry 32 (tty_color s)) s)
                [0..<SCREEN_WIDTH]) [0..<SCREEN_HEIGHT] s;
          s = s\<lparr>tty_xpos := 0, tty_ypos := 0\<rparr>
      in update_cursor 0 0 s)"

definition initialize_terminal :: "'a tty_scheme \<Rightarrow> 'a tty_scheme" where
  "initialize_terminal s =
     (let s = tty_clear s;
          s = outb 0x3D4 0x0A s;
          s = outb 0x3D5 ((inb 0x3D5 s AND 0xC0) OR 0) s;
          s = outb 0x3D4 0x0B s;
          s = outb 0x3D5 ((inb 0x3D5 s AND 0xE0) OR 15) s;
          s = s\<lparr>tty_xpos := 0, tty_ypos := 0\<rparr>
      in update_cursor 0 0 s)"

definition tty_scroll :: "'a tty_scheme \<Rightarrow> 'a tty_scheme" where
  "tty_scroll s =
     (let s = fold (\<lambda>y. fold (\<lambda>x s.
                put_cell (of_nat (y * SCREEN_WIDTH + x))
                  (get_cell (of_nat ((y + 1) * SCREEN_WIDTH + x)) s) s)
                [0..<SCREEN_WIDTH]) [0..<SCREEN_HEIGHT - 1] s;
          s = fold (\<lambda>x s. put_cell (of_nat ((SCREEN_HEIGHT - 1) * SCREEN_WIDTH + x)) 32 s)
                [0..<SCREEN_WIDTH] s
      in s\<lparr>tty_ypos := tty_ypos s - 1\<rparr>)"

definition tty_putentryat :: "u8 \<Rightarrow> u8 \<Rightarrow> u32 \<Rightarrow> u32 \<Rightarrow> 'a tty_scheme \<Rightarrow> 'a tty_scheme" where
  "tty_putentryat c color x y s = put_cell (y * of_nat SCREEN_WIDTH + x) (vga_entry c color) s"

function tty_putc :: "u8 \<Rightarrow> 'a tty_scheme \<Rightarrow> 'a tty_scheme" where
  "tty_putc c s =
     (if c = 10 then
        (let s = s\<lparr>tty_xpos := 0, tty_ypos := tty_ypos s + 1\<rparr>;
             s = (if tty_ypos s = of_nat SCREEN_HEIGHT then tty_scroll s else s)
         in update_cursor (tty_xpos s) (tty_ypos s) s)
      else if c = 9 then
        ((\<lambda>s. tty_putc 32 s) ^^ unat (8 - tty_xpos s mod 8)) s
      else
        (let s = tty_putentryat c (tty_color s) (tty_xpos s) (tty_ypos s) s;
             s = s\<lparr>tty_xpos := tty_xpos s + 1\<rparr>;
             s = (if tty_xpos s = of_nat SCREEN_WIDTH then
                    (let s = s\<lparr>tty_xpos := 0, tty_ypos := tty_ypos s + 1\<rparr>
                     in if tty_ypos s = of_nat SCREEN_HEIGHT then tty_scroll s else s)
                  else s)
         in update_cursor (tty_xpos s) (tty_ypos s) s))"
  by pat_completeness auto
termination
  by (relation "measure (\<lambda>(c, s). if c = 9 then 1 else 0)") auto

declare tty_putc.simps [simp del]

definition tty_deleteprev :: "'a tty_scheme \<Rightarrow> 'a tty_scheme" where
  "tty_deleteprev s =
     (if tty_xpos s = 0 \<and> tty_ypos s = 0 then s
      else
        (let s = (if tty_xpos s = 0
                  then s\<lparr>tty_xpos := of_nat SCREEN_WIDTH - 1, tty_ypos := tty_ypos s - 1\<rparr>
                  else s\<lparr>tty_xpos := tty_xpos s - 1\<rparr>);
             s = tty_putentryat 32 (tty_color s) (tty_xpos s) (tty_ypos s) s
         in update_cursor (tty_xpos s) (tty_ypos s) s))"

definition tty_write :: "u8 list \<Rightarrow> nat \<Rightarrow> 'a tty_scheme \<Rightarrow> 'a tty_scheme" where
  "tty_write str len s = fold (\<lambda>i. tty_putc (str ! i)) [0..<len] s"

fun tty_printstr :: "u8 list \<Rightarrow> 'a tty_scheme \<Rightarrow> 'a tty_scheme" where
  "tty_printstr [] s = s"
| "tty_printstr (c # cs) s = (if c = 0 then s else tty_printstr cs (tty_putc c s))"

text \<open>The digits the first loop of \<^verbatim>\<open>tty_printint\<close> stores in \<^verbatim>\<open>s[0], s[1], ...\<close>.\<close>

function int_digits :: "u32 \<Rightarrow> u8 list" where
  "int_digits num = (if num > 0 then ucast (num mod 10) # int_digits (num div 10) else [])"
  by pat_completeness auto
termination
proof (relation "measure unat")
  fix num :: u32 assume "0 < num"
  then have "0 < unat num" by (simp add: word_less_nat_alt)
  then show "(num div 10, num) \<in> measure unat"
    by (simp add: unat_div)
qed simp

declare int_digits.simps [simp del]

definition tty_printint :: "u32 \<Rightarrow> 'a tty_scheme \<Rightarrow> 'a tty_scheme" where
  "tty_printint num s =
     (if num = 0 then tty_putc 48 s
      else fold (\<lambda>d. tty_putc (48 + d)) (rev (int_digits num)) s)"

definition hex_digit :: "u32 \<Rightarrow> u8" where
  "hex_digit c = [48, 49, 50, 51, 52, 53, 54, 55, 56, 57, 97, 98, 99, 100, 101, 102] ! unat c"

primrec tty_printhex_loop :: "nat \<Rightarrow> u32 \<Rightarrow> 'a tty_scheme \<Rightarrow> 'a tty_scheme" where
  "tty_printhex_loop 0 num s = s"
| "tty_printhex_loop (Suc k) num s =
     (let c = drop_bit 28 (num AND 0xF0000000) AND 0x0F
      in tty_printhex_loop k (push_bit 4 num) (tty_putc (hex_digit c) s))"

definition tty_printhex :: "u32 \<Rightarrow> 'a tty_scheme \<Rightarrow> 'a tty_scheme" where
  "tty_printhex num s = (if num = 0 then tty_putc 48 s else tty_printhex_loop 8 num s)"

text \<open>
  The variable arguments of \<^verbatim>\<open>kprintf\<close>: an integer or a string. \<^verbatim>\<open>va_arg\<close> past the last argument,
  or at another type, has no meaning in C.
\<close>

datatype varg = VInt u32 | VStr "u8 list"

fun kprintf_loop :: "u8 list \<Rightarrow> bool \<Rightarrow> u32 \<Rightarrow> u32 \<Rightarrow> varg list \<Rightarrow> 'a tty_scheme
    \<Rightarrow> ('a tty_scheme, u32) result" where
  "kprintf_loop [] fmt_flag printed i args s = Inl (Undefined, s)"
| "kprintf_loop (c # cs) fmt_flag printed i args s =
     (if c = 0 then Inr (printed + i, s)
      else if fmt_flag then
        (if c = 37 then kprintf_loop cs False (printed + 1) (i + 1) args (tty_putc 37 s)
         else if c = 100 \<or> c = 117 \<or> c = 105 then
           (case args of VInt n # rest \<Rightarrow> kprintf_loop cs False printed (i + 1) rest (tty_printint n s)
            | _ \<Rightarrow> Inl (Undefined, s))
         else if c = 120 \<or> c = 88 then
           (case args of VInt n # rest \<Rightarrow> kprintf_loop cs False printed (i + 1) rest (tty_printhex n s)
            | _ \<Rightarrow> Inl (Undefined, s))
         else if c = 115 then
           (case args of VStr str # rest \<Rightarrow> kprintf_loop cs False printed (i + 1) rest (tty_printstr str s)
            | _ \<Rightarrow> Inl (Undefined, s))
         else kprintf_loop cs False printed (i + 1) args s)
      else if c = 37 then kprintf_loop cs True printed (i + 1) args s
      else kprintf_loop cs False printed (i + 1) args (tty_putc c s))"

definition kprintf :: "u8 list \<Rightarrow> varg list \<Rightarrow> 'a tty_scheme \<Rightarrow> ('a tty_scheme, u32) result" where
  "kprintf format args s = kprintf_loop format False 0 0 args s"

text \<open>
  A string literal of the source: its characters and the closing NUL byte; \<open>litn\<close> for a literal
  that ends in a newline.
\<close>

definition lit :: "string \<Rightarrow> u8 list" where
  "lit cs = map of_char cs @ [0]"

definition litn :: "string \<Rightarrow> u8 list" where
  "litn cs = map of_char cs @ [10, 0]"

text \<open>
  \<^verbatim>\<open>panic\<close> of \<^verbatim>\<open>kernel/kernel.c\<close>: it prints the message and loops with interrupts disabled, so it
  never returns.
\<close>

definition panic :: "u8 list option \<Rightarrow> 'a tty_scheme \<Rightarrow> ('a tty_scheme, 'b) result" where
  "panic msg s =
     bindR (case msg of
              None \<Rightarrow> kprintf (litn ''KERNEL PANIC!!'') [] s
            | Some str \<Rightarrow> kprintf (litn ''KERNEL PANIC: %s'') [VStr str] s)
       (\<lambda>_ s. Inl (Panic (case msg of None \<Rightarrow> [] | Some str \<Rightarrow> str), cli s))"

text \<open>The cursor is on the screen.\<close>

definition tty_wf :: "'a tty_scheme \<Rightarrow> bool" where
  "tty_wf s \<longleftrightarrow> unat (tty_xpos s) < SCREEN_WIDTH \<and> unat (tty_ypos s) < SCREEN_HEIGHT"

text \<open>Everything but the terminal and the port trace is as it was.\<close>

definition same_kernel :: "'a tty_scheme \<Rightarrow> 'a tty_scheme \<Rightarrow> bool" where
  "same_kernel s t \<longleftrightarrow> mem t = mem s \<and> port_in t = port_in s \<and> port_in16 t = port_in16 s \<and>
     int_flag t = int_flag s \<and> cr0 t = cr0 s \<and> cr2 t = cr2 s \<and> cr3 t = cr3 s \<and> tty.more t = tty.more s"

text \<open>What the printing routines send to the screen, as one list of characters.\<close>

definition until_nul :: "u8 list \<Rightarrow> u8 list" where
  "until_nul cs = takeWhile (\<lambda>c. c \<noteq> 0) cs"

definition int_chars :: "u32 \<Rightarrow> u8 list" where
  "int_chars num = (if num = 0 then [48] else map (\<lambda>d. 48 + d) (rev (int_digits num)))"

primrec hex_chars_from :: "nat \<Rightarrow> u32 \<Rightarrow> u8 list" where
  "hex_chars_from 0 num = []"
| "hex_chars_from (Suc k) num =
     hex_digit (drop_bit 28 (num AND 0xF0000000) AND 0x0F) # hex_chars_from k (push_bit 4 num)"

definition hex_chars :: "u32 \<Rightarrow> u8 list" where
  "hex_chars num = (if num = 0 then [48] else hex_chars_from 8 num)"

text \<open>State \<open>t\<close> is reached from \<open>s\<close> by printing.\<close>

definition prints :: "'a tty_scheme \<Rightarrow> 'a tty_scheme \<Rightarrow> bool" where
  "prints s t \<longleftrightarrow> (\<exists>cs. t = fold tty_putc cs s)"

text \<open>
  The specification of the terminal: a list of 2000 cells and a linear cursor, on which a glyph is
  written at the cursor, a newline moves to the next row, a tab writes spaces to the next multiple of
  eight, and stepping past the last cell drops the first row.
\<close>

type_synonym screen = "u16 list \<times> nat"

definition screen_of :: "'a tty_scheme \<Rightarrow> screen" where
  "screen_of s = (map (\<lambda>i. get_cell (of_nat i) s) [0..<2000],
     unat (tty_ypos s) * 80 + unat (tty_xpos s))"

definition screen_wrap :: "screen \<Rightarrow> screen" where
  "screen_wrap = (\<lambda>(cells, p). if p = 2000 then (drop 80 cells @ replicate 80 32, 1920) else (cells, p))"

definition screen_glyph :: "u8 \<Rightarrow> u8 \<Rightarrow> screen \<Rightarrow> screen" where
  "screen_glyph c color = (\<lambda>(cells, p). screen_wrap (cells[p := vga_entry c color], p + 1))"

definition screen_putc :: "u8 \<Rightarrow> u8 \<Rightarrow> screen \<Rightarrow> screen" where
  "screen_putc c color = (\<lambda>(cells, p).
     if c = 10 then screen_wrap (cells, (p div 80 + 1) * 80)
     else if c = 9 then (screen_glyph 32 color ^^ (8 - p mod 8)) (cells, p)
     else screen_glyph c color (cells, p))"

text \<open>The CRT controller was last told the position the software keeps.\<close>

definition cursor_synced :: "'a tty_scheme \<Rightarrow> bool" where
  "cursor_synced s \<longleftrightarrow> (\<exists>hi lo rest.
     port_out s = (0x3D5, hi) # (0x3D4, 0x0E) # (0x3D5, lo) # (0x3D4, 0x0F) # rest \<and>
     unat hi * 256 + unat lo = unat (tty_ypos s) * 80 + unat (tty_xpos s))"

definition dec_value :: "u8 list \<Rightarrow> nat" where
  "dec_value cs = foldl (\<lambda>v c. 10 * v + (unat c - 48)) 0 cs"

section \<open>Every printing routine is a sequence of characters put\<close>

lemma tty_write_fold: "len \<le> length str \<Longrightarrow> tty_write str len s = fold tty_putc (take len str) s"
  unfolding tty_write_def
proof (induction len)
  case 0
  then show ?case by simp
next
  case (Suc len)
  then show ?case by (simp add: take_Suc_conv_app_nth)
qed

lemma tty_printstr_fold: "tty_printstr cs s = fold tty_putc (until_nul cs) s"
  by (induction cs arbitrary: s) (simp_all add: until_nul_def)

lemma tty_printint_fold: "tty_printint num s = fold tty_putc (int_chars num) s"
  by (simp add: tty_printint_def int_chars_def fold_map comp_def)

lemma tty_printhex_loop_fold: "tty_printhex_loop k num s = fold tty_putc (hex_chars_from k num) s"
  by (induction k arbitrary: num s) (simp_all add: Let_def)

lemma tty_printhex_fold: "tty_printhex num s = fold tty_putc (hex_chars num) s"
  by (simp add: tty_printhex_def hex_chars_def tty_printhex_loop_fold)

lemmas printing_folds = tty_printstr_fold tty_printint_fold tty_printhex_fold

lemma prints_refl: "prints s s"
  unfolding prints_def by (rule exI [of _ "[]"]) simp

lemma prints_trans: "prints s t \<Longrightarrow> prints t u \<Longrightarrow> prints s u"
  unfolding prints_def by (metis comp_apply fold_append)

lemma prints_putc: "prints s (tty_putc c s)"
  unfolding prints_def by (rule exI [of _ "[c]"]) simp

lemma prints_printstr: "prints s (tty_printstr cs s)"
  and prints_printint: "prints s (tty_printint num s)"
  and prints_printhex: "prints s (tty_printhex num s)"
  unfolding prints_def printing_folds by blast+

lemmas prints_intros = prints_putc prints_printstr prints_printint prints_printhex

lemma kprintf_loop_prints:
  "kprintf_loop fmt flag printed i args s = Inr (n, t) \<Longrightarrow> prints s t"
proof (induction fmt arbitrary: flag printed i args s)
  case Nil
  then show ?case by simp
next
  case (Cons c fmt)
  note IH = Cons.IH prints_trans [OF prints_putc Cons.IH] prints_trans [OF prints_printint Cons.IH]
    prints_trans [OF prints_printhex Cons.IH] prints_trans [OF prints_printstr Cons.IH]
  from Cons.prems show ?case
    by (auto simp: prints_refl split: if_splits list.splits varg.splits intro: IH)
qed

lemma kprintf_prints: "kprintf fmt args s = Inr (n, t) \<Longrightarrow> prints s t"
  unfolding kprintf_def by (rule kprintf_loop_prints)

section \<open>The interface: a device that takes one character at a time\<close>

text \<open>
  A condition that a single character put keeps is kept by all the output of the kernel.
\<close>

locale char_device =
  fixes putc :: "u8 \<Rightarrow> 's \<Rightarrow> 's" and inv :: "'s \<Rightarrow> bool"
  assumes putc_inv: "inv s \<Longrightarrow> inv (putc c s)"
begin

lemma puts_inv: "inv s \<Longrightarrow> inv (fold putc cs s)"
  by (induction cs arbitrary: s) (simp_all add: putc_inv)

end

section \<open>The frame buffer\<close>

lemma cell_addr_eq_iff:
  fixes b :: u32
  assumes "i < 2 ^ 31" "j < 2 ^ 31"
  shows "b + 2 * of_nat i = b + 2 * of_nat j \<longleftrightarrow> i = j"
proof -
  have "unat (2 * of_nat k :: u32) = 2 * k" if "k < 2 ^ 31" for k
    using that by (simp add: unat_word_ariths unat_of_nat)
  from this [OF assms(1)] this [OF assms(2)] show ?thesis
    by (metis add_left_cancel mult_cancel1 zero_neq_numeral)
qed

lemma get_put_cell:
  assumes "i < 2 ^ 31" "j < 2 ^ 31"
  shows "get_cell (of_nat i) (put_cell (of_nat j) v s) = (if i = j then v else get_cell (of_nat i) s)"
  using cell_addr_eq_iff [OF assms] by (simp add: get_cell_def put_cell_def)

lemma put_cell_frame [frame_simps]:
  "tty_xpos (put_cell i v s) = tty_xpos s" "tty_ypos (put_cell i v s) = tty_ypos s"
  "tty_color (put_cell i v s) = tty_color s" "tty_buffer (put_cell i v s) = tty_buffer s"
  "same_kernel r (put_cell i v s) \<longleftrightarrow> same_kernel r s"
  by (simp_all add: put_cell_def same_kernel_def)

lemma fold_rows:
  "fold (\<lambda>y. fold (\<lambda>x. f (y * w + x)) [0..<w]) [0..<n] s = fold f [0..<n * w] s"
proof (induction n)
  case 0
  then show ?case by simp
next
  case (Suc n)
  have "fold (\<lambda>x. f (n * w + x)) [0..<w] = fold f (map (\<lambda>x. n * w + x) [0..<w])"
    by (simp add: fold_map comp_def)
  also have "map (\<lambda>x. n * w + x) [0..<w] = [n * w..<Suc n * w]"
    by (simp add: map_add_upt add.commute)
  finally have "fold (\<lambda>x. f (n * w + x)) [0..<w] = fold f [n * w..<Suc n * w]" .
  moreover have "[0..<Suc n * w] = [0..<n * w] @ [n * w..<Suc n * w]"
    using upt_add_eq_append [of 0 "n * w" w] by (simp add: add.commute)
  ultimately show ?case using Suc by simp
qed

lemma shift_cells:
  assumes "n \<le> 1920" "j < 2000"
  shows "get_cell (of_nat j) (fold (\<lambda>i s. put_cell (of_nat i) (get_cell (of_nat (i + 80)) s) s) [0..<n] s)
    = (if j < n then get_cell (of_nat (j + 80)) s else get_cell (of_nat j) s)"
  using assms
proof (induction n arbitrary: j)
  case 0
  then show ?case by simp
next
  case (Suc n)
  then show ?case
    by (simp add: get_put_cell del: of_nat_add)
qed

lemma blank_cells:
  assumes "n \<le> 80" "j < 2000"
  shows "get_cell (of_nat j) (fold (\<lambda>x s. put_cell (of_nat (1920 + x)) v s) [0..<n] s)
    = (if 1920 \<le> j \<and> j < 1920 + n then v else get_cell (of_nat j) s)"
  using assms
proof (induction n)
  case 0
  then show ?case by auto
next
  case (Suc n)
  then show ?case
    by (auto simp: get_put_cell simp del: of_nat_add)
qed

lemma fold_put_cell_upd:
  "\<exists>M. fold (\<lambda>x s. put_cell (f x) (g x s) s) xs s = s\<lparr>vga_mem := M\<rparr>"
proof (induction xs arbitrary: s)
  case Nil
  have "s = s\<lparr>vga_mem := vga_mem s\<rparr>" by simp
  then show ?case by (metis fold_simps(1))
next
  case (Cons x xs)
  obtain M where "fold (\<lambda>x s. put_cell (f x) (g x s) s) xs (put_cell (f x) (g x s) s)
      = (put_cell (f x) (g x s) s)\<lparr>vga_mem := M\<rparr>"
    using Cons.IH by blast
  then show ?case by (auto simp: put_cell_def)
qed

lemma tty_scroll_eq:
  "tty_scroll s =
     (let s' = fold (\<lambda>x s. put_cell (of_nat (1920 + x)) 32 s) [0..<80]
          (fold (\<lambda>i s. put_cell (of_nat i) (get_cell (of_nat (i + 80)) s) s) [0..<1920] s)
      in s'\<lparr>tty_ypos := tty_ypos s' - 1\<rparr>)"
  using fold_rows [of "\<lambda>i s. put_cell (of_nat i) (get_cell (of_nat (i + 80)) s) s" 80 24 s]
  by (simp add: tty_scroll_def SCREEN_WIDTH_def SCREEN_HEIGHT_def Let_def algebra_simps)

lemma get_cell_ypos [simp]: "get_cell i (s\<lparr>tty_ypos := y\<rparr>) = get_cell i s"
  by (simp add: get_cell_def)

lemma tty_scroll_cell:
  assumes "j < 2000"
  shows "get_cell (of_nat j) (tty_scroll s)
     = (if j < 1920 then get_cell (of_nat (j + 80)) s else 32)"
  unfolding tty_scroll_eq Let_def get_cell_ypos
  using assms by (simp add: blank_cells shift_cells del: of_nat_add)

lemma tty_scroll_upd: "\<exists>M. tty_scroll s = s\<lparr>vga_mem := M, tty_ypos := tty_ypos s - 1\<rparr>"
proof -
  have "\<exists>M. fold (\<lambda>i s. put_cell (of_nat i) (get_cell (of_nat (i + 80)) s) s) [0..<1920] s
      = s\<lparr>vga_mem := M\<rparr>"
    by (rule fold_put_cell_upd)
  then obtain M where
    M: "fold (\<lambda>i s. put_cell (of_nat i) (get_cell (of_nat (i + 80)) s) s) [0..<1920] s
      = s\<lparr>vga_mem := M\<rparr>" ..
  have "\<exists>M'. fold (\<lambda>x s. put_cell (of_nat (1920 + x)) 32 s) [0..<80] (s\<lparr>vga_mem := M\<rparr>)
      = (s\<lparr>vga_mem := M\<rparr>)\<lparr>vga_mem := M'\<rparr>"
    by (rule fold_put_cell_upd)
  then obtain M' where
    "fold (\<lambda>x s. put_cell (of_nat (1920 + x)) 32 s) [0..<80] (s\<lparr>vga_mem := M\<rparr>)
      = (s\<lparr>vga_mem := M\<rparr>)\<lparr>vga_mem := M'\<rparr>" ..
  with M show ?thesis
    unfolding tty_scroll_eq Let_def by (simp del: of_nat_add) blast
qed

lemma tty_clear_upd:
  "\<exists>M ps. tty_clear s = s\<lparr>tty_buffer := 0xC00B8000,
     tty_color := vga_color_entry VGA_COLOR_WHITE VGA_COLOR_BLACK, vga_mem := M,
     tty_xpos := 0, tty_ypos := 0, port_out := ps\<rparr>"
proof -
  let ?s = "s\<lparr>tty_buffer := 0xC00B8000, tty_color := vga_color_entry VGA_COLOR_WHITE VGA_COLOR_BLACK\<rparr>"
  have "\<exists>M. fold (\<lambda>i s. put_cell (of_nat i) (vga_entry 32 (tty_color s)) s) [0..<25 * 80] ?s
      = ?s\<lparr>vga_mem := M\<rparr>"
    by (rule fold_put_cell_upd)
  then obtain M where
    "fold (\<lambda>i s. put_cell (of_nat i) (vga_entry 32 (tty_color s)) s) [0..<25 * 80] ?s
      = ?s\<lparr>vga_mem := M\<rparr>" ..
  then show ?thesis
    using fold_rows [of "\<lambda>i s. put_cell (of_nat i) (vga_entry 32 (tty_color s)) s" 80 25 ?s]
    by (auto simp: tty_clear_def SCREEN_WIDTH_def SCREEN_HEIGHT_def Let_def update_cursor_def outb_def)
qed

section \<open>One character\<close>

lemma tty_putc_invI:
  assumes "\<And>c s. c \<noteq> 9 \<Longrightarrow> P s \<Longrightarrow> P (tty_putc c s)" "P s"
  shows "P (tty_putc c s)"
proof (cases "c = 9")
  case True
  have "P (((\<lambda>s. tty_putc 32 s) ^^ n) s)" for n
    using assms by (induction n) simp_all
  with True show ?thesis by (subst tty_putc.simps) simp
next
  case False
  with assms show ?thesis by blast
qed

lemma update_cursor_frame [frame_simps]:
  "tty_xpos (update_cursor x y s) = x" "tty_ypos (update_cursor x y s) = y"
  "tty_color (update_cursor x y s) = tty_color s" "tty_buffer (update_cursor x y s) = tty_buffer s"
  "vga_mem (update_cursor x y s) = vga_mem s" "get_cell i (update_cursor x y s) = get_cell i s"
  "same_kernel r (update_cursor x y s) \<longleftrightarrow> same_kernel r s"
  by (simp_all add: update_cursor_def Let_def outb_def same_kernel_def get_cell_def)

lemma tty_scroll_frame [frame_simps]:
  "tty_xpos (tty_scroll s) = tty_xpos s" "tty_ypos (tty_scroll s) = tty_ypos s - 1"
  "tty_color (tty_scroll s) = tty_color s" "tty_buffer (tty_scroll s) = tty_buffer s"
  "port_out (tty_scroll s) = port_out s"
  "same_kernel r (tty_scroll s) \<longleftrightarrow> same_kernel r s"
  using tty_scroll_upd [of s] by (auto simp: same_kernel_def)

lemma tty_clear_frame [frame_simps]:
  "tty_xpos (tty_clear s) = 0" "tty_ypos (tty_clear s) = 0"
  "tty_buffer (tty_clear s) = 0xC00B8000" "same_kernel r (tty_clear s) \<longleftrightarrow> same_kernel r s"
  using tty_clear_upd [of s] by (auto simp: same_kernel_def)

lemma tty_putentryat_frame [frame_simps]:
  "tty_xpos (tty_putentryat c k x y s) = tty_xpos s" "tty_ypos (tty_putentryat c k x y s) = tty_ypos s"
  "tty_color (tty_putentryat c k x y s) = tty_color s"
  "tty_buffer (tty_putentryat c k x y s) = tty_buffer s"
  "same_kernel r (tty_putentryat c k x y s) \<longleftrightarrow> same_kernel r s"
  by (simp_all add: tty_putentryat_def frame_simps)

lemma next_pos:
  fixes x :: u32
  assumes "unat x < n" "n < 2 ^ 32"
  shows "x + 1 = of_nat n \<and> Suc (unat x) = n \<or> x + 1 \<noteq> of_nat n \<and> Suc (unat x) < n \<and> unat (x + 1) = Suc (unat x)"
proof -
  have u: "unat (x + 1) = Suc (unat x)"
    using assms by (simp add: unat_word_ariths)
  then have "x + 1 = of_nat n \<longleftrightarrow> Suc (unat x) = n"
    using assms by (simp add: word_unat_eq_iff unat_of_nat)
  with u assms show ?thesis by auto
qed

lemma tty_putc_wf_plain:
  assumes "c \<noteq> 9" "tty_wf s"
  shows "tty_wf (tty_putc c s)"
proof -
  have x: "unat (tty_xpos s) < 80" and y: "unat (tty_ypos s) < 25"
    using assms by (simp_all add: tty_wf_def SCREEN_WIDTH_def SCREEN_HEIGHT_def)
  from next_pos [OF x] next_pos [OF y] show ?thesis
    using assms(1) x y
    by (subst tty_putc.simps)
      (auto simp: Let_def tty_wf_def SCREEN_WIDTH_def SCREEN_HEIGHT_def frame_simps)
qed

lemma tty_putc_same_plain:
  assumes "c \<noteq> 9" "same_kernel r s"
  shows "same_kernel r (tty_putc c s)"
proof -
  have pos: "same_kernel r (s\<lparr>tty_xpos := x, tty_ypos := y\<rparr>) \<longleftrightarrow> same_kernel r s" 
    "same_kernel r (s\<lparr>tty_xpos := x\<rparr>) \<longleftrightarrow> same_kernel r s" for x y and s :: "'a tty_scheme"
    by (simp_all add: same_kernel_def)
  show ?thesis
    using assms by (subst tty_putc.simps) (simp add: Let_def frame_simps pos)
qed

interpretation tty_on_screen: char_device tty_putc tty_wf
  by unfold_locales (rule tty_putc_invI [where P = tty_wf, OF tty_putc_wf_plain])

interpretation tty_frame: char_device tty_putc "same_kernel r" for r
  by unfold_locales (rule tty_putc_invI [where P = "same_kernel r", OF tty_putc_same_plain])

section \<open>The screen as the specification sees it\<close>

lemma nth_screen_cells [simp]:
  "i < 2000 \<Longrightarrow> fst (screen_of s) ! i = get_cell (of_nat i) s"
  by (simp add: screen_of_def)

lemma length_screen_cells [simp]: "length (fst (screen_of s)) = 2000"
  by (simp add: screen_of_def)

lemma screen_eqI:
  assumes "length cells = 2000" "\<And>i. i < 2000 \<Longrightarrow> get_cell (of_nat i) s = cells ! i"
    "unat (tty_ypos s) * 80 + unat (tty_xpos s) = p"
  shows "screen_of s = (cells, p)"
  using assms by (auto simp: screen_of_def intro: nth_equalityI)

lemma screen_of_update_cursor [simp]:
  "screen_of (update_cursor x y s) = (fst (screen_of s), unat y * 80 + unat x)"
  by (simp add: screen_of_def frame_simps)

lemma fst_screen_of_pos [simp]:
  "fst (screen_of (s\<lparr>tty_xpos := x\<rparr>)) = fst (screen_of s)"
  "fst (screen_of (s\<lparr>tty_ypos := y\<rparr>)) = fst (screen_of s)"
  "fst (screen_of (s\<lparr>tty_xpos := x, tty_ypos := y\<rparr>)) = fst (screen_of s)"
  by (simp_all add: screen_of_def get_cell_def)

lemma fst_screen_of_scroll:
  "fst (screen_of (tty_scroll s)) = drop 80 (fst (screen_of s)) @ replicate 80 32"
proof (rule nth_equalityI)
  fix i assume "i < length (fst (screen_of (tty_scroll s)))"
  then have i: "i < 2000" by simp
  have "fst (screen_of (tty_scroll s)) ! i = get_cell (of_nat i) (tty_scroll s)" using i by simp
  also have "\<dots> = (if i < 1920 then get_cell (of_nat (i + 80)) s else 32)"
    using i by (rule tty_scroll_cell)
  also have "\<dots> = (drop 80 (fst (screen_of s)) @ replicate 80 32) ! i"
    using i nth_screen_cells [of "i + 80" s] by (simp add: nth_append add.commute)
  finally show "fst (screen_of (tty_scroll s)) ! i = (drop 80 (fst (screen_of s)) @ replicate 80 32) ! i" .
qed simp

lemma fst_screen_of_putentry:
  assumes "unat x < 80" "unat y < 25"
  shows "fst (screen_of (tty_putentryat c k x y s))
    = (fst (screen_of s))[unat y * 80 + unat x := vga_entry c k]"
proof -
  let ?p = "unat y * 80 + unat x"
  have p: "?p < 2000" using assms by simp
  have w: "y * of_nat SCREEN_WIDTH + x = of_nat ?p"
    by (simp add: SCREEN_WIDTH_def)
  show ?thesis
  proof (rule nth_equalityI)
    fix i assume "i < length (fst (screen_of (tty_putentryat c k x y s)))"
    then have i: "i < 2000" by simp
    have "get_cell (of_nat i) (put_cell (of_nat ?p) (vga_entry c k) s)
      = (if i = ?p then vga_entry c k else get_cell (of_nat i) s)"
      using i p by (intro get_put_cell) simp_all
    with i p show "fst (screen_of (tty_putentryat c k x y s)) ! i
      = (fst (screen_of s))[?p := vga_entry c k] ! i"
      unfolding tty_putentryat_def w by (simp add: nth_list_update del: of_nat_add of_nat_mult)
  qed simp
qed

lemma screen_of_snd: "snd (screen_of s) = unat (tty_ypos s) * 80 + unat (tty_xpos s)"
  by (simp add: screen_of_def)

lemma screen_of_pair: "(fst (screen_of s), unat (tty_ypos s) * 80 + unat (tty_xpos s)) = screen_of s"
  by (simp add: screen_of_def)

lemma screen_newline:
  assumes "tty_wf s"
  shows "screen_of (tty_putc 10 s) = screen_putc 10 k (screen_of s)"
proof -
  have x: "unat (tty_xpos s) < 80" and y: "unat (tty_ypos s) < 25"
    using assms by (simp_all add: tty_wf_def SCREEN_WIDTH_def SCREEN_HEIGHT_def)
  have row: "(unat (tty_ypos s) * 80 + unat (tty_xpos s)) div 80 = unat (tty_ypos s)"
    using x by simp
  from next_pos [OF y] show ?thesis
    using x y
    by (subst tty_putc.simps)
      (auto simp: Let_def SCREEN_HEIGHT_def screen_putc_def screen_wrap_def case_prod_beta screen_of_snd
         row fst_screen_of_scroll frame_simps)
qed

lemma screen_putc_glyph:
  assumes "tty_wf s" "c \<noteq> 9" "c \<noteq> 10"
  shows "screen_of (tty_putc c s) = screen_glyph c (tty_color s) (screen_of s)"
proof -
  have x: "unat (tty_xpos s) < 80" and y: "unat (tty_ypos s) < 25"
    using assms by (simp_all add: tty_wf_def SCREEN_WIDTH_def SCREEN_HEIGHT_def)
  from next_pos [OF x] next_pos [OF y] show ?thesis
    using x y assms(2,3)
    by (subst tty_putc.simps)
      (auto simp: Let_def SCREEN_WIDTH_def SCREEN_HEIGHT_def screen_glyph_def screen_wrap_def
         case_prod_beta screen_of_snd fst_screen_of_scroll fst_screen_of_putentry
         frame_simps)
qed

lemma tty_putc_color: "tty_color (tty_putc c s) = tty_color s"
proof (rule tty_putc_invI [where P = "\<lambda>t. tty_color t = tty_color s"])
  fix c :: u8 and t :: "'a tty_scheme"
  assume "c \<noteq> 9" "tty_color t = tty_color s"
  then show "tty_color (tty_putc c t) = tty_color s"
    by (subst tty_putc.simps) (simp add: Let_def frame_simps)
qed simp

lemma screen_spaces:
  "tty_wf s \<Longrightarrow> screen_of (((\<lambda>s. tty_putc 32 s) ^^ n) s) = (screen_glyph 32 (tty_color s) ^^ n) (screen_of s)
    \<and> tty_wf (((\<lambda>s. tty_putc 32 s) ^^ n) s) \<and> tty_color (((\<lambda>s. tty_putc 32 s) ^^ n) s) = tty_color s"
  by (induction n) (simp_all add: screen_putc_glyph tty_on_screen.putc_inv tty_putc_color)

lemma screen_tab:
  assumes "tty_wf s"
  shows "screen_of (tty_putc 9 s) = screen_putc 9 (tty_color s) (screen_of s)"
proof -
  have "unat (8 - tty_xpos s mod 8) = 8 - unat (tty_xpos s) mod 8"
    by (subst unat_sub) (simp_all add: unat_mod word_le_nat_alt order.strict_implies_order)
  moreover have "(unat (tty_ypos s) * 80 + unat (tty_xpos s)) mod 8 = unat (tty_xpos s) mod 8"
    by presburger
  ultimately show ?thesis
    using screen_spaces [OF assms]
    by (subst tty_putc.simps) (simp add: screen_putc_def case_prod_beta screen_of_snd screen_of_pair)
qed

section \<open>The hardware cursor\<close>

lemma low_byte_mask: "(0xFF :: u16) = mask 8"
  by (simp add: mask_eq_exp_minus_1)

lemma unat_low_byte: "unat (ucast (w AND 0xFF :: u16) :: u8) = unat w mod 256"
proof -
  have "(ucast (w AND 0xFF) :: u8) = ucast w"
    unfolding low_byte_mask by (rule bit_word_eqI) (auto simp: bit_simps)
  then show ?thesis
    by (simp add: unsigned_ucast_eq take_bit_eq_mod)
qed

lemma update_cursor_synced:
  assumes "unat x < 80" "unat y < 25"
  shows "cursor_synced (update_cursor x y s)"
proof -
  let ?pos = "ucast (y * 80 + x) :: u16"
  have "unat (y * 80 + x) = unat y * 80 + unat x"
    using assms by (simp add: unat_word_ariths)
  then have pos: "unat ?pos = unat y * 80 + unat x"
    using assms by (simp add: unsigned_ucast_eq take_bit_nat_eq_self)
  have lo: "unat (ucast (?pos AND 0xFF) :: u8) = unat ?pos mod 256"
    and hi: "unat (ucast (drop_bit 8 ?pos AND 0xFF) :: u8) = unat ?pos div 256 mod 256"
    by (simp_all only: unat_low_byte unat_drop_bit_eq) (simp add: drop_bit_eq_div)
  have "port_out (update_cursor x y s) = (0x3D5, ucast (drop_bit 8 ?pos AND 0xFF)) # (0x3D4, 0x0E)
      # (0x3D5, ucast (?pos AND 0xFF)) # (0x3D4, 0x0F) # port_out s"
    by (simp add: update_cursor_def Let_def outb_def SCREEN_WIDTH_def)
  moreover have "unat ?pos div 256 mod 256 * 256 + unat ?pos mod 256 = unat ?pos"
    using pos assms by (simp add: div_mult_mod_eq)
  ultimately show ?thesis
    unfolding cursor_synced_def frame_simps using lo hi pos by auto
qed

lemma tty_putc_synced:
  assumes "tty_wf s" "cursor_synced s"
  shows "cursor_synced (tty_putc c s)"
proof -
  have "tty_wf t \<and> cursor_synced t \<Longrightarrow> tty_wf (tty_putc c t) \<and> cursor_synced (tty_putc c t)"
    if "c \<noteq> 9" for c t
  proof -
    assume t: "tty_wf t \<and> cursor_synced t"
    have "tty_wf (tty_putc c t)" using t tty_on_screen.putc_inv by blast
    moreover have "\<exists>x y u. tty_putc c t = update_cursor x y u"
      using that by (subst tty_putc.simps) (auto simp: Let_def)
    then obtain x y u where u: "tty_putc c t = update_cursor x y u" by blast
    ultimately show ?thesis
      using update_cursor_synced [of x y u]
      by (simp add: u tty_wf_def frame_simps SCREEN_WIDTH_def SCREEN_HEIGHT_def)
  qed
  then show ?thesis
    using tty_putc_invI [where P = "\<lambda>t. tty_wf t \<and> cursor_synced t"] assms by blast
qed

interpretation tty_cursor: char_device tty_putc "\<lambda>s. tty_wf s \<and> cursor_synced s"
  by unfold_locales (simp add: tty_putc_synced tty_on_screen.putc_inv)

section \<open>Numbers\<close>

lemma int_digits_value:
  "foldr (\<lambda>d v. unat d + 10 * v) (int_digits num) 0 = unat num"
proof (induction num rule: int_digits.induct)
  case (1 num)
  show ?case
  proof (cases "0 < num")
    case True
    have "unat num mod 10 mod 256 = unat num mod 10"
      by (rule mod_less) (rule less_trans [of _ 10], simp_all)
    then have "unat (ucast (num mod 10) :: u8) = unat num mod 10"
      by (simp add: unsigned_ucast_eq take_bit_eq_mod unat_mod)
    with "1" True show ?thesis
      by (subst int_digits.simps) (simp add: unat_div)
  next
    case False
    then show ?thesis by (subst int_digits.simps) (simp add: word_gt_0)
  qed
qed

lemma int_digits_less: "d \<in> set (int_digits num) \<Longrightarrow> unat d < 10"
proof (induction num rule: int_digits.induct)
  case (1 num)
  have "unat num mod 10 mod 256 = unat num mod 10"
    by (rule mod_less) (rule less_trans [of _ 10], simp_all)
  then have "unat (ucast (num mod 10) :: u8) < 10"
    by (simp add: unsigned_ucast_eq take_bit_eq_mod unat_mod)
  with "1" show ?case
    by (subst (asm) int_digits.simps) (auto split: if_splits)
qed

lemma int_digits_length: "unat num < 10 ^ k \<Longrightarrow> length (int_digits num) \<le> k"
proof (induction k arbitrary: num)
  case 0
  then show ?case by (subst int_digits.simps) (simp add: word_less_nat_alt)
next
  case (Suc k)
  then have "unat (num div 10) < 10 ^ k" by (simp add: unat_div less_mult_imp_div_less mult.commute)
  with Suc.IH show ?case by (subst int_digits.simps) simp
qed

lemma int_chars_length: "length (int_chars num) \<le> 10"
  using int_digits_length [of num 10] unat_less_u32 [of num] by (simp add: int_chars_def)

lemma unat_digit_char: "unat (d :: u8) < 10 \<Longrightarrow> unat (48 + d) = 48 + unat d"
  by (simp add: unat_word_ariths)

lemma int_chars_digits: "c \<in> set (int_chars num) \<Longrightarrow> 48 \<le> unat c \<and> unat c \<le> 57"
  by (auto simp: int_chars_def unat_digit_char dest!: int_digits_less split: if_splits)

lemma foldl_dec_digits:
  "\<forall>d\<in>set (ds :: u8 list). unat d < 10 \<Longrightarrow>
    foldl (\<lambda>v c. 10 * v + (unat c - 48)) 0 (map (\<lambda>d. 48 + d) (rev ds)) = foldr (\<lambda>d v. unat d + 10 * v) ds 0"
  by (induction ds) (auto simp: unat_digit_char)

lemma int_chars_value: "dec_value (int_chars num) = unat num"
  using foldl_dec_digits [of "int_digits num"] int_digits_value [of num] int_digits_less
  by (auto simp: dec_value_def int_chars_def)

section \<open>Properties\<close>

text \<open>
  C19: the terminal refines its specification. From any state with the cursor on the screen,
  putting a character (a glyph, a newline or a tab, with the scrolling they cause) has exactly the
  effect on the 2000 cells and the cursor that the screen specification gives.
\<close>

theorem tty_putc_refines_screen:
  assumes "tty_wf s"
  shows "screen_of (tty_putc c s) = screen_putc c (tty_color s) (screen_of s)"
proof -
  consider "c = 10" | "c = 9" | "c \<noteq> 9" "c \<noteq> 10" by blast
  then show ?thesis
  proof cases
    case 1
    then show ?thesis using screen_newline [OF assms] by simp
  next
    case 2
    then show ?thesis using screen_tab [OF assms] by simp
  next
    case 3
    then show ?thesis
      using screen_putc_glyph [OF assms, of c] by (simp add: screen_putc_def case_prod_beta)
  qed
qed

theorem tty_putc_refines_screen_witness:
  "\<exists>s :: tty. tty_xpos s = 79 \<and> tty_ypos s = 24 \<and>
     screen_of (tty_putc 65 s) = screen_putc 65 (tty_color s) (screen_of s)"
proof -
  let ?s = "\<lparr>mem = \<lambda>_. 0, port_out = [], port_in = \<lambda>_. 0, port_in16 = \<lambda>_. 0, int_flag = False,
     cr0 = 0, cr2 = 0, cr3 = 0, tty_ypos = 24, tty_xpos = 79, tty_color = 15, tty_buffer = 0xC00B8000,
     vga_mem = \<lambda>_. 32\<rparr>"
  have "tty_wf ?s" by (simp add: tty_wf_def SCREEN_WIDTH_def SCREEN_HEIGHT_def)
  from tty_putc_refines_screen [OF this, of 65] show ?thesis
    by (intro exI [of _ ?s]) simp
qed

text \<open>
  C21: whatever \<^verbatim>\<open>kprintf\<close> prints, when it returns the cursor is still on the screen, the CRT
  controller holds the same position, and memory, control registers, the interrupt flag and every
  component above the terminal are untouched.
\<close>

theorem kprintf_keeps_terminal:
  assumes "kprintf fmt args s = Inr (n, t)" "tty_wf s" "cursor_synced s"
  shows "tty_wf t \<and> cursor_synced t \<and> same_kernel s t"
proof -
  from kprintf_prints [OF assms(1)] obtain cs where "t = fold tty_putc cs s"
    by (auto simp: prints_def)
  moreover have "same_kernel s s" by (simp add: same_kernel_def)
  ultimately show ?thesis
    using tty_cursor.puts_inv [of s cs] tty_frame.puts_inv [of s s cs] assms(2,3) by simp
qed

theorem kprintf_keeps_terminal_witness:
  "\<exists>(s :: tty) n t. kprintf (lit ''%%'') [] s = Inr (n, t) \<and> tty_wf t \<and> cursor_synced t \<and> same_kernel s t"
proof -
  let ?s = "update_cursor 0 0 \<lparr>mem = \<lambda>_. 0, port_out = [], port_in = \<lambda>_. 0, port_in16 = \<lambda>_. 0,
     int_flag = False, cr0 = 0, cr2 = 0, cr3 = 0, tty_ypos = 0, tty_xpos = 0, tty_color = 15,
     tty_buffer = 0xC00B8000, vga_mem = \<lambda>_. 32\<rparr>"
  have k: "kprintf (lit ''%%'') [] ?s = Inr (3, tty_putc 37 ?s)"
    by (simp add: kprintf_def lit_def)
  have "tty_wf ?s" by (simp add: tty_wf_def frame_simps SCREEN_WIDTH_def SCREEN_HEIGHT_def)
  moreover have "cursor_synced ?s" by (rule update_cursor_synced) simp_all
  ultimately show ?thesis
    using kprintf_keeps_terminal [OF k] k by blast
qed

text \<open>
  \<^verbatim>\<open>tty_printint\<close> prints the decimal representation: it puts at most ten characters, all
  of them digits (so the 32-byte buffer of the code is never overrun), and reading them back in base
  ten gives the number.
\<close>

theorem tty_printint_decimal:
  "\<exists>cs. tty_printint num s = fold tty_putc cs s \<and> length cs \<le> 10 \<and>
     list_all (\<lambda>c. 48 \<le> unat c \<and> unat c \<le> 57) cs \<and> dec_value cs = unat num"
  by (rule exI [of _ "int_chars num"])
    (simp add: tty_printint_fold int_chars_length int_chars_value int_chars_digits list_all_iff)

end
