(* ===== verification/Stdio.thy ===== *)
theory Stdio
  imports Tty
begin

text \<open>
  The standard output of \<^verbatim>\<open>libc/stdio\<close>: \<^verbatim>\<open>printf\<close> and \<^verbatim>\<open>puts\<close> are empty, and
  \<^verbatim>\<open>putchar\<close> passes the low byte of its argument on to the terminal.
\<close>

definition printf :: "u8 list \<Rightarrow> varg list \<Rightarrow> 'a tty_scheme \<Rightarrow> u32 \<times> 'a tty_scheme" where
  "printf format args s = (0, s)"

definition puts :: "u8 list \<Rightarrow> 'a tty_scheme \<Rightarrow> u32 \<times> 'a tty_scheme" where
  "puts str s = (0, s)"

definition putchar :: "u32 \<Rightarrow> 'a tty_scheme \<Rightarrow> u32 \<times> 'a tty_scheme" where
  "putchar c s = (let s = tty_putc (ucast c) s in (0, s))"

text \<open>Writing a string with \<^verbatim>\<open>putchar\<close> is writing it with \<^verbatim>\<open>tty_write\<close>; the kernel is left alone.\<close>

lemma putchar_writes: "fold (\<lambda>c s. snd (putchar (ucast c) s)) cs s = tty_write cs (length cs) s"
proof -
  have "(ucast (ucast c :: u32) :: u8) = c" for c by (simp add: ucast_down_ucast_id is_down)
  then have "fold (\<lambda>c s. snd (putchar (ucast c) s)) cs s = fold tty_putc cs s"
    by (intro fold_cong) (simp_all add: putchar_def)
  then show ?thesis by (simp add: tty_write_fold)
qed

end
