(* ===== verification/Idt.thy ===== *)
theory Idt
  imports Tty
begin

text \<open>
  The interrupt descriptor table of \<^verbatim>\<open>kernel/interrupt/interrupt.c\<close>: its descriptors, the table of
  C handlers, and \<^verbatim>\<open>interrupt_init\<close>, which fills both and programs the two interrupt controllers.
  Function pointers stored in \<^verbatim>\<open>idt_handlers\<close> are a datatype with one constructor per function the
  kernel ever stores there; what calling them does is defined where the handlers are.
\<close>

section \<open>Addresses the linker assigns\<close>

text \<open>
  Addresses of functions and objects are chosen by the linker (\<^verbatim>\<open>kernel/linker.ld\<close>), so they are
  an argument of the operations that use them.
\<close>

record symbols =
  sym_stub :: "nat \<Rightarrow> u32"
  sym_other_interrupt :: u32
  sym_idt :: u32
  sym_kernel_end_phys :: u32
  sym_kernel_start_virt :: u32
  sym_kmalloc_init_block :: u32
  sym_tss_region :: u32
  sym_gdt :: u32
  sym_gdt_descriptor :: u32
  sym_task_test :: u32
  sym_task_userspace :: u32
  sym_command_name :: "nat \<Rightarrow> u32"

text \<open>One possible assignment, for the examples.\<close>

definition example_symbols :: symbols where
  "example_symbols = \<lparr>sym_stub = (\<lambda>i. 0xC0101000 + 16 * of_nat i), sym_other_interrupt = 0xC0102000,
     sym_idt = 0xC0110000, sym_kernel_end_phys = 0x123456, sym_kernel_start_virt = 0xC0100040,
     sym_kmalloc_init_block = 0xC0112000, sym_tss_region = 0xC0113000, sym_gdt = 0xC0114000,
     sym_gdt_descriptor = 0xC0115000, sym_task_test = 0xC0103000, sym_task_userspace = 0x100020,
     sym_command_name = (\<lambda>i. 0xC0116000 + 16 * of_nat i)\<rparr>"

section \<open>State\<close>

record idt_desc =
  idt_offset_1 :: u16
  idt_selector :: u16
  idt_zero :: u8
  idt_flags :: u8
  idt_offset_2 :: u16

record idt_pointer =
  idtp_size :: u16
  idtp_ptr :: u32

datatype idt_handler =
    NULL_handler
  | Other_interrupt
  | Paging_page_fault_handler
  | Pic_callback
  | Isr_key_press

record idt_state = tty +
  idt :: "nat \<Rightarrow> idt_desc"
  idt_handlers :: "nat \<Rightarrow> idt_handler"
  idtp :: idt_pointer
  idtr :: idt_pointer
  prev_int :: u32

section \<open>Operations\<close>

definition KERNEL_CODE_SEGMENT :: u16 where
  "KERNEL_CODE_SEGMENT = 8"

definition idt_set_entry :: "u8 \<Rightarrow> u32 \<Rightarrow> u16 \<Rightarrow> u8 \<Rightarrow> 'a idt_state_scheme \<Rightarrow> 'a idt_state_scheme" where
  "idt_set_entry index handler sel flags s =
     (let d = idt s (unat index);
          d = d\<lparr>idt_offset_1 := ucast (handler AND 0xFFFF)\<rparr>;
          d = d\<lparr>idt_offset_2 := ucast (drop_bit 16 handler AND 0xFFFF)\<rparr>;
          d = d\<lparr>idt_selector := sel\<rparr>;
          d = d\<lparr>idt_flags := flags\<rparr>
      in s\<lparr>idt := (idt s)(unat index := d)\<rparr>)"

definition zero_idt_desc :: idt_desc where
  "zero_idt_desc = \<lparr>idt_offset_1 = 0, idt_selector = 0, idt_zero = 0, idt_flags = 0, idt_offset_2 = 0\<rparr>"

text \<open>The ten bytes that remap the interrupt controllers to vectors 32 to 47, in the order sent.\<close>

definition pic_remap :: "(u16 \<times> u8) list" where
  "pic_remap = [(0x20, 0x11), (0xA0, 0x11), (0x21, 0x20), (0xA1, 0x28), (0x21, 0x04),
     (0xA1, 0x02), (0x21, 0x01), (0xA1, 0x01), (0x21, 0x0), (0xA1, 0x0)]"

text \<open>\<^verbatim>\<open>idt_cfg\<close>: vector, stub address, segment selector and flags of the 48 configured vectors.\<close>

definition idt_cfg :: "symbols \<Rightarrow> (u8 \<times> u32 \<times> u16 \<times> u8) list" where
  "idt_cfg L = map (\<lambda>i. (of_nat i, sym_stub L i, KERNEL_CODE_SEGMENT, 0x8E)) [0..<48]"

definition interrupt_init :: "symbols \<Rightarrow> 'a idt_state_scheme \<Rightarrow> 'a idt_state_scheme" where
  "interrupt_init L s =
     (let s = fold (\<lambda>i s. s\<lparr>idt := (idt s)(i := zero_idt_desc),
                idt_handlers := (idt_handlers s)(i := NULL_handler)\<rparr>) [0..<256] s;
          s = s\<lparr>idtp := \<lparr>idtp_size = 8 * 256 - 1, idtp_ptr = sym_idt L\<rparr>\<rparr>;
          s = fold (\<lambda>(port, val). outb port val) pic_remap s;
          last = 47;
          s = fold (\<lambda>(index, handler, sel, flags). idt_set_entry index handler sel flags)
                (take (last + 1) (idt_cfg L)) s;
          s = fold (\<lambda>i s.
                idt_set_entry (of_nat i) (sym_other_interrupt L) 0x08 0x8E
                  (s\<lparr>idt_handlers := (idt_handlers s)(i := Other_interrupt)\<rparr>)) [last..<256] s;
          s = s\<lparr>idtr := idtp s\<rparr>
      in sti s)"

text \<open>\<^verbatim>\<open>other_interrupt\<close>, the handler of every vector that is not configured.\<close>

definition other_interrupt :: "u32 \<Rightarrow> 'a tty_scheme \<Rightarrow> 'a tty_scheme" where
  "other_interrupt int_no s = tty_printint int_no (tty_printstr (litn ''???SOMEOTHER INTERRUPT???'') s)"

text \<open>The handler address the processor assembles from a descriptor.\<close>

definition idt_offset :: "idt_desc \<Rightarrow> u32" where
  "idt_offset d = ucast (idt_offset_1 d) OR push_bit 16 (ucast (idt_offset_2 d))"

definition gate_of :: "u32 \<Rightarrow> idt_desc" where
  "gate_of handler = \<lparr>idt_offset_1 = ucast (handler AND 0xFFFF), idt_selector = KERNEL_CODE_SEGMENT,
     idt_zero = 0, idt_flags = 0x8E, idt_offset_2 = ucast (drop_bit 16 handler AND 0xFFFF)\<rparr>"

section \<open>Lemmas\<close>

lemma low_half_mask: "(0xFFFF :: u32) = mask 16"
  by (simp add: mask_eq_exp_minus_1)

lemma idt_offset_gate: "idt_offset (gate_of h) = h"
proof (rule bit_word_eqI)
  fix n assume "n < LENGTH(32)"
  then consider "n < 16" | "16 \<le> n" "n < 32" by force
  then show "bit (idt_offset (gate_of h)) n = bit h n"
    by cases (auto simp: idt_offset_def gate_of_def low_half_mask bit_simps)
qed

lemma idt_set_entry_gate:
  assumes "idt_zero (idt s (unat index)) = 0"
  shows "idt_set_entry index handler 8 0x8E s = s\<lparr>idt := (idt s)(unat index := gate_of handler)\<rparr>"
  using assms
  by (cases "idt s (unat index)")
    (simp add: idt_set_entry_def Let_def gate_of_def KERNEL_CODE_SEGMENT_def)

lemma fold_clear_tables:
  "fold (\<lambda>i s. s\<lparr>idt := (idt s)(i := z), idt_handlers := (idt_handlers s)(i := h)\<rparr>) xs s
   = s\<lparr>idt := (\<lambda>i. if i \<in> set xs then z else idt s i),
       idt_handlers := (\<lambda>i. if i \<in> set xs then h else idt_handlers s i)\<rparr>"
  by (induction xs arbitrary: s) (auto intro!: idt_state.equality)

lemma fold_outb_frame:
  "fold (\<lambda>(port, val). outb port val) xs s = s\<lparr>port_out := rev xs @ port_out s\<rparr>"
  by (induction xs arbitrary: s) (auto simp: outb_def)

lemma fold_stubs:
  assumes "\<forall>i<256. idt_zero (idt s i) = 0" "n \<le> 256"
  shows "fold (\<lambda>i. idt_set_entry (of_nat i) (f i) 8 0x8E) [0..<n] s
    = s\<lparr>idt := (\<lambda>i. if i < n then gate_of (f i) else idt s i)\<rparr>"
  using assms(2)
proof (induction n)
  case 0
  then show ?case by simp
next
  case (Suc n)
  then have u: "unat (of_nat n :: u8) = n" by (simp add: unat_of_nat)
  show ?case
    using Suc assms(1) by (simp add: idt_set_entry_gate u fun_eq_iff) 
qed

lemma fold_others:
  assumes "\<forall>i<256. idt_zero (idt s i) = 0" "m \<le> n" "n \<le> 256"
  shows "fold (\<lambda>i s. idt_set_entry (of_nat i) h 8 0x8E
            (s\<lparr>idt_handlers := (idt_handlers s)(i := Other_interrupt)\<rparr>)) [m..<n] s
    = s\<lparr>idt := (\<lambda>i. if m \<le> i \<and> i < n then gate_of h else idt s i),
        idt_handlers := (\<lambda>i. if m \<le> i \<and> i < n then Other_interrupt else idt_handlers s i)\<rparr>"
  using assms(2,3)
proof (induction n)
  case 0
  then show ?case by simp
next
  case (Suc n)
  show ?case
  proof (cases "m = Suc n")
    case True
    then show ?thesis by (auto intro!: idt_state.equality simp: fun_eq_iff)
  next
    case False
    with Suc have le: "m \<le> n" and u: "unat (of_nat n :: u8) = n" by (simp_all add: unat_of_nat)
    with Suc assms(1) show ?thesis
      by (auto simp: idt_set_entry_gate fun_eq_iff)
  qed
qed

lemma interrupt_init_eq:
  "interrupt_init L s = s\<lparr>port_out := rev pic_remap @ port_out s, int_flag := True,
     idt := (\<lambda>i. if i < 256 then gate_of (if i < 47 then sym_stub L i else sym_other_interrupt L) else idt s i),
     idt_handlers := (\<lambda>i. if i < 256 then if i < 47 then NULL_handler else Other_interrupt else idt_handlers s i),
     idtp := \<lparr>idtp_size = 2047, idtp_ptr = sym_idt L\<rparr>, idtr := \<lparr>idtp_size = 2047, idtp_ptr = sym_idt L\<rparr>\<rparr>"
proof -
  let ?s1 = "s\<lparr>idt := (\<lambda>i. if i \<in> set [0..<256] then zero_idt_desc else idt s i),
       idt_handlers := (\<lambda>i. if i \<in> set [0..<256] then NULL_handler else idt_handlers s i),
       idtp := \<lparr>idtp_size = 2047, idtp_ptr = sym_idt L\<rparr>, port_out := rev pic_remap @ port_out s\<rparr>"
  have cfg: "fold (\<lambda>(index, handler, sel, flags). idt_set_entry index handler sel flags) (take 48 (idt_cfg L)) t
      = fold (\<lambda>i. idt_set_entry (of_nat i) (sym_stub L i) 8 0x8E) [0..<48] t" for t :: "'a idt_state_scheme"
    by (simp add: idt_cfg_def fold_map comp_def KERNEL_CODE_SEGMENT_def)
  have stubs: "fold (\<lambda>i. idt_set_entry (of_nat i) (sym_stub L i) 8 0x8E) [0..<48] ?s1
      = ?s1\<lparr>idt := (\<lambda>i. if i < 48 then gate_of (sym_stub L i) else idt ?s1 i)\<rparr>" (is "_ = ?s2")
    by (rule fold_stubs) (simp_all add: zero_idt_desc_def)
  have others: "fold (\<lambda>i s. idt_set_entry (of_nat i) (sym_other_interrupt L) 8 0x8E
            (s\<lparr>idt_handlers := (idt_handlers s)(i := Other_interrupt)\<rparr>)) [47..<256] ?s2
      = ?s2\<lparr>idt := (\<lambda>i. if 47 \<le> i \<and> i < 256 then gate_of (sym_other_interrupt L) else idt ?s2 i),
        idt_handlers := (\<lambda>i. if 47 \<le> i \<and> i < 256 then Other_interrupt else idt_handlers ?s2 i)\<rparr>"
    by (rule fold_others) (simp_all add: zero_idt_desc_def gate_of_def)
  show ?thesis
    unfolding interrupt_init_def Let_def fold_clear_tables fold_outb_frame
    using stubs others
    by (simp add: cfg sti_def fun_eq_iff del: upt_rec_numeral)
qed

section \<open>Properties\<close>

text \<open>
  C31: \<^verbatim>\<open>interrupt_init\<close> installs, for each of the 256 vectors, a present ring-0 interrupt gate in
  the kernel code segment whose offset halves reassemble to the address of the vector's stub for
  vectors 0 to 46 and to \<^verbatim>\<open>other_interrupt\<close> from vector 47 on, which replaces the gate of \<^verbatim>\<open>irq15\<close> that
  \<^verbatim>\<open>idt_cfg\<close> lists for vector 47; the C handler table is empty below 47
  and holds \<^verbatim>\<open>other_interrupt\<close> from there; the loaded table covers all 256 descriptors; and the
  controllers have been sent the remapping sequence before interrupts are enabled.
\<close>

theorem interrupt_init_installs:
  assumes "i < 256"
  shows "let t = interrupt_init L s in
     idt_offset (idt t i) = (if i < 47 then sym_stub L i else sym_other_interrupt L) \<and>
     idt_selector (idt t i) = 8 \<and> idt_flags (idt t i) = 0x8E \<and> idt_zero (idt t i) = 0 \<and>
     idt_handlers t i = (if i < 47 then NULL_handler else Other_interrupt) \<and>
     idtr t = \<lparr>idtp_size = 256 * 8 - 1, idtp_ptr = sym_idt L\<rparr> \<and>
     port_out t = rev pic_remap @ port_out s \<and> int_flag t"
  unfolding Let_def interrupt_init_eq using assms
  by (simp add: idt_offset_gate) (simp add: gate_of_def KERNEL_CODE_SEGMENT_def)

theorem interrupt_init_installs_witness:
  "\<forall>(s :: idt_state) L. idt_offset (idt (interrupt_init L s) 46) = sym_stub L 46 \<and>
     idt_offset (idt (interrupt_init L s) 47) = sym_other_interrupt L"
proof (intro allI)
  fix s :: idt_state and L
  show "idt_offset (idt (interrupt_init L s) 46) = sym_stub L 46 \<and>
     idt_offset (idt (interrupt_init L s) 47) = sym_other_interrupt L"
    using interrupt_init_installs [of 46 L s] interrupt_init_installs [of 47 L s]
    by (simp add: Let_def)
qed

end
