(* ===== verification/Pmm.thy ===== *)
theory Pmm
  imports Idt
begin

text \<open>
  The physical page allocator, \<^verbatim>\<open>kernel/memory/pmm.c\<close>: a pool of page frames above the kernel
  image with one bit per frame. The interface the rest of the kernel relies on is the locale
  \<open>page_pool\<close>; the allocator is shown to provide it.
\<close>

section \<open>State\<close>

record physical_memory =
  total_memory :: u32
  total_page_memory :: u32
  starting_addr :: u32
  page_count :: u32
  bitmap :: "nat \<Rightarrow> u32"

text \<open>The bitmap has 8192 words; an access past them is undefined in the operations below.\<close>

definition PMM_BITMAP_WORDS :: nat where
  "PMM_BITMAP_WORDS = 8192"

record user_task_info =
  starting_eip :: u32
  phys_addr_start :: u32
  phys_addr_end :: u32
  uti_len :: u32

record pmm_state = idt_state +
  user_task :: user_task_info
  user_task_once :: bool
  pmm :: physical_memory

text \<open>The fields of the boot loader's \<^verbatim>\<open>struct multiboot_info\<close> that the kernel reads.\<close>

record multiboot_info =
  mbi_flags :: u32
  mods_count :: u32
  mods_addr :: u32
  mmap_length :: u32
  mmap_addr :: u32

definition MULTIBOOT_MEMORY_AVAILABLE :: u32 where
  "MULTIBOOT_MEMORY_AVAILABLE = 1"

record multiboot_mmap_entry =
  mme_size :: u32
  addr_low :: u32
  addr_high :: u32
  len_low :: u32
  len_high :: u32
  mme_type :: u32

record multiboot_mod_list =
  mod_start :: u32
  mod_end :: u32
  mod_cmdline :: u32
  mod_pad :: u32

text \<open>The structures as they lie in memory, packed.\<close>

definition mmap_entry_at :: "bytes \<Rightarrow> u32 \<Rightarrow> multiboot_mmap_entry" where
  "mmap_entry_at m a = \<lparr>mme_size = load32 m a, addr_low = load32 m (a + 4), addr_high = load32 m (a + 8),
     len_low = load32 m (a + 12), len_high = load32 m (a + 16), mme_type = load32 m (a + 20)\<rparr>"

definition mod_list_at :: "bytes \<Rightarrow> u32 \<Rightarrow> multiboot_mod_list" where
  "mod_list_at m a = \<lparr>mod_start = load32 m a, mod_end = load32 m (a + 4), mod_cmdline = load32 m (a + 8),
     mod_pad = load32 m (a + 12)\<rparr>"

definition sizeof_mmap_entry :: u32 where "sizeof_mmap_entry = 24"

section \<open>Operations\<close>

text \<open>\<^verbatim>\<open>task_init_user_task_info\<close> of \<^verbatim>\<open>kernel/task/task.c\<close>, which only the first call obeys.\<close>

definition task_init_user_task_info ::
  "user_task_info \<Rightarrow> 'a pmm_state_scheme \<Rightarrow> 'a pmm_state_scheme" where
  "task_init_user_task_info info s =
     (if user_task_once s then s\<lparr>user_task := info, user_task_once := False\<rparr> else s)"

definition pmm_init_struct :: "symbols \<Rightarrow> u32 \<Rightarrow> 'a pmm_state_scheme \<Rightarrow> 'a pmm_state_scheme" where
  "pmm_init_struct L last_mem_addr s =
     (let kernel_end = sym_kernel_end_phys L;
          first_page_addr = PAGE_ALIGN kernel_end;
          first_page_addr = (if first_page_addr < kernel_end
                             then PAGE_INCREMENT first_page_addr else first_page_addr);
          p = (pmm s)\<lparr>starting_addr := first_page_addr\<rparr>;
          last_page_addr = PAGE_ALIGN last_mem_addr;
          last_page_addr = (if PAGE_INCREMENT last_page_addr > last_mem_addr
                            then PAGE_DECREMENT last_page_addr else last_page_addr);
          p = p\<lparr>total_page_memory := PAGE_INCREMENT last_page_addr - first_page_addr\<rparr>;
          p = p\<lparr>page_count := total_page_memory p div PAGE_SIZE\<rparr>
      in s\<lparr>pmm := p\<rparr>)"

definition pmm_init_user_task :: "u32 \<Rightarrow> 'a pmm_state_scheme \<Rightarrow> ('a pmm_state_scheme, unit) result" where
  "pmm_init_user_task mod_list s =
     (let user_module = mod_list_at (mem s) mod_list;
          page = mod_start user_module - starting_addr (pmm s);
          bitmap_index = unat (drop_bit 5 page);
          bitmap_bit = NOT (push_bit (unat (page mod 32)) (0xFFFFFFFF :: u32))
      in if bitmap_index \<ge> PMM_BITMAP_WORDS \<or> bitmap_bit \<ge> 32 then Inl (Undefined, s)
         else
           (let p = (pmm s)\<lparr>bitmap := (bitmap (pmm s))
                     (bitmap_index := SET_BIT (bitmap (pmm s) bitmap_index) (unat bitmap_bit))\<rparr>;
                s = s\<lparr>pmm := p\<rparr>
            in Inr ((), task_init_user_task_info
                 \<lparr>starting_eip = 0, phys_addr_start = mod_start user_module, phys_addr_end = mod_end user_module,
                  uti_len = mod_end user_module - mod_start user_module\<rparr> s)))"

text \<open>
  The walk over the memory map: \<^verbatim>\<open>total_memory\<close> and \<^verbatim>\<open>last_mem_addr\<close> of the last available region
  seen so far; \<^verbatim>\<open>last_mem_addr\<close> is not initialised before the first one. \<^const>\<open>None\<close> when the 32-bit
  index wraps around for ever.
\<close>

partial_function (option) mmap_scan ::
  "bytes \<Rightarrow> multiboot_info \<Rightarrow> u32 \<Rightarrow> u32 \<Rightarrow> u32 option \<Rightarrow> (u32 \<times> u32 option) option" where
  "mmap_scan m mbt i tot lst =
     (if i < mmap_length mbt then
        (let entry = mmap_entry_at m (mmap_addr mbt + i)
         in if mme_type entry = MULTIBOOT_MEMORY_AVAILABLE
            then mmap_scan m mbt (i + sizeof_mmap_entry) (len_low entry) (Some (addr_low entry + len_low entry))
            else mmap_scan m mbt (i + sizeof_mmap_entry) tot lst)
      else Some (tot, lst))"

definition pmm_init :: "symbols \<Rightarrow> multiboot_info \<Rightarrow> 'a pmm_state_scheme \<Rightarrow> ('a pmm_state_scheme, unit) result" where
  "pmm_init L mbt s =
     (if drop_bit 6 (mbi_flags mbt) AND 1 = 0
      then panic (Some (lit ''invalid GRUB memory map'')) s
      else case mmap_scan (mem s) mbt 0 (total_memory (pmm s)) None of
             None \<Rightarrow> Inl (Spin, s)
           | Some (tot, None) \<Rightarrow> Inl (Undefined, s)
           | Some (tot, Some last_mem_addr) \<Rightarrow>
               (let s = s\<lparr>pmm := (pmm s)\<lparr>total_memory := tot\<rparr>\<rparr>;
                    s = pmm_init_struct L last_mem_addr s
                in pmm_init_user_task (mods_addr mbt) s))"

text \<open>The inner loop of both page searches: the first clear bit of a bitmap word.\<close>

definition first_clear_bit :: "u32 \<Rightarrow> nat option" where
  "first_clear_bit page_bitmap = List.find (\<lambda>j. \<not> CHECK_BIT_SET page_bitmap j) [0..<32]"

text \<open>The outer loop of \<^verbatim>\<open>pmm_alloc_page\<close>: word and bit of the first free page.\<close>

function pmm_find :: "physical_memory \<Rightarrow> nat \<Rightarrow> stop + (nat \<times> nat) option" where
  "pmm_find p i =
     (if i < unat (page_count p div 32) then
        if i \<ge> PMM_BITMAP_WORDS then Inl Undefined
        else if bitmap p i = 0xFFFFFFFF then pmm_find p (Suc i)
        else (case first_clear_bit (bitmap p i) of
                Some j \<Rightarrow> Inr (Some (i, j))
              | None \<Rightarrow> pmm_find p (Suc i))
      else Inr None)"
  by pat_completeness auto
termination
  by (relation "measure (\<lambda>(p, i). unat (page_count p div 32) - i)") auto

declare pmm_find.simps [simp del]

definition pmm_alloc_page :: "'a pmm_state_scheme \<Rightarrow> ('a pmm_state_scheme, u32) result" where
  "pmm_alloc_page s =
     (case pmm_find (pmm s) 0 of
        Inl e \<Rightarrow> Inl (e, s)
      | Inr found \<Rightarrow>
          (let (alloc_page_addr, s) =
             (case found of
                None \<Rightarrow> (0, s)
              | Some (i, j) \<Rightarrow>
                  (starting_addr (pmm s) + PAGE_SIZE * (32 * of_nat i) + PAGE_SIZE * of_nat j,
                   s\<lparr>pmm := (pmm s)\<lparr>bitmap := (bitmap (pmm s))
                        (i := SET_BIT (bitmap (pmm s) i) j)\<rparr>\<rparr>))
           in if alloc_page_addr = 0
              then bindR (kprintf (litn ''WARNING!!! All Physical pages are allocated'') [] s)
                     (\<lambda>_ s. Inr (alloc_page_addr, s))
              else Inr (alloc_page_addr, s)))"

definition pmm_free_page :: "u32 \<Rightarrow> 'a pmm_state_scheme \<Rightarrow> ('a pmm_state_scheme, unit) result" where
  "pmm_free_page page s =
     (let p = pmm s;
          page_to_clear = PAGE_ALIGN page;
          last_page_addr = starting_addr p * (PAGE_SIZE * (page_count p - 1))
      in if page_to_clear \<ge> starting_addr p \<and> page_to_clear \<le> last_page_addr then
           (let page_index = (page_to_clear - starting_addr p) div PAGE_SIZE;
                bitmap_index = unat (page_index div 32);
                bit_in_bitmap = unat (page_index mod 32)
            in if bitmap_index \<ge> PMM_BITMAP_WORDS then Inl (Undefined, s)
               else Inr ((), s\<lparr>pmm := p\<lparr>bitmap := (bitmap p)
                      (bitmap_index := CLEAR_BIT (bitmap p bitmap_index) bit_in_bitmap)\<rparr>\<rparr>))
         else panic (Some (lit ''page not in page pool'')) s)"

section \<open>Abstraction and invariant\<close>

text \<open>How many page frames the search ranges over, and whether frame \<open>k\<close> of the pool is free.\<close>

definition pool_size :: "physical_memory \<Rightarrow> nat" where
  "pool_size p = 32 * (unat (page_count p) div 32)"

definition page_free :: "physical_memory \<Rightarrow> nat \<Rightarrow> bool" where
  "page_free p k \<longleftrightarrow> k < pool_size p \<and> \<not> bit (bitmap p (k div 32)) (k mod 32)"

definition page_addr :: "physical_memory \<Rightarrow> nat \<Rightarrow> u32" where
  "page_addr p k = starting_addr p + PAGE_SIZE * of_nat k"

definition pmm_free_set :: "'a pmm_state_scheme \<Rightarrow> u32 set" where
  "pmm_free_set s = page_addr (pmm s) ` {k. page_free (pmm s) k}"

text \<open>The pool is described by the bitmap and lies inside the address space, above address 0.\<close>

definition pmm_wf :: "physical_memory \<Rightarrow> bool" where
  "pmm_wf p \<longleftrightarrow> pool_size p \<le> 32 * PMM_BITMAP_WORDS \<and> 0 < starting_addr p \<and>
     unat (starting_addr p) + 4096 * pool_size p \<le> 2 ^ 32"

text \<open>Frame \<open>k\<close> marked as allocated.\<close>

definition mark_page :: "nat \<Rightarrow> physical_memory \<Rightarrow> physical_memory" where
  "mark_page k p = p\<lparr>bitmap := (bitmap p)(k div 32 := SET_BIT (bitmap p (k div 32)) (k mod 32))\<rparr>"

text \<open>A pool of 64 frames above 2 MiB whose first frame is taken, for the examples.\<close>

definition example_pool :: physical_memory where
  "example_pool = \<lparr>total_memory = 0x400000, total_page_memory = 0x40000,
     starting_addr = 0x200000, page_count = 64, bitmap = (\<lambda>_. 0)(0 := 1)\<rparr>"

text \<open>Any allocation routine, called a number of times.\<close>

primrec alloc_many :: "('s \<Rightarrow> ('s, 'a) result) \<Rightarrow> nat \<Rightarrow> 's \<Rightarrow> ('s, 'a list) result" where
  "alloc_many alloc 0 s = Inr ([], s)"
| "alloc_many alloc (Suc n) s =
     bindR (alloc s) (\<lambda>x s. bindR (alloc_many alloc n s) (\<lambda>xs s. Inr (x # xs, s)))"

section \<open>The interface of a page pool\<close>

locale page_pool =
  fixes alloc :: "'s \<Rightarrow> ('s, 'a) result" and free :: "'s \<Rightarrow> 'a set" and inv :: "'s \<Rightarrow> bool"
  assumes finite_free: "inv s \<Longrightarrow> finite (free s)"
    and alloc_free: "inv s \<Longrightarrow> free s \<noteq> {} \<Longrightarrow>
      \<exists>p t. alloc s = Inr (p, t) \<and> p \<in> free s \<and> free t = free s - {p} \<and> inv t"
begin

lemma alloc_many_distinct:
  assumes "inv s" "n \<le> card (free s)"
  shows "\<exists>ps t. alloc_many alloc n s = Inr (ps, t) \<and> length ps = n \<and> distinct ps \<and>
    set ps \<subseteq> free s \<and> free t = free s - set ps \<and> inv t"
  using assms
proof (induction n arbitrary: s)
  case 0
  then show ?case by simp
next
  case (Suc n)
  from Suc.prems have "free s \<noteq> {}" by auto
  with alloc_free Suc.prems(1) obtain p t where
    a: "alloc s = Inr (p, t)" "p \<in> free s" "free t = free s - {p}" "inv t" by blast
  with Suc.prems finite_free have "n \<le> card (free t)" by simp
  from Suc.IH [OF a(4) this] obtain ps u where
    "alloc_many alloc n t = Inr (ps, u)" "length ps = n" "distinct ps" "set ps \<subseteq> free t"
    "free u = free t - set ps" "inv u" by blast
  with a show ?case by auto
qed

end

section \<open>The search\<close>

lemma first_clear_bit_Some:
  assumes "first_clear_bit w = Some j"
  shows "j < 32" "\<not> bit w j" "\<And>i. i < j \<Longrightarrow> bit w i"
  using assms by (auto simp: first_clear_bit_def find_Some_iff CHECK_BIT_SET_bit)

lemma first_clear_bit_None: "first_clear_bit w = None \<longleftrightarrow> w = 0xFFFFFFFF"
  unfolding first_clear_bit_def find_None_iff all_ones_iff by (auto simp: CHECK_BIT_SET_bit)

lemma pmm_find_step:
  assumes "i < unat (page_count p) div 32" "i < PMM_BITMAP_WORDS"
  shows "pmm_find p i = (case first_clear_bit (bitmap p i) of
           Some j \<Rightarrow> Inr (Some (i, j)) | None \<Rightarrow> pmm_find p (Suc i))"
proof -
  have "first_clear_bit 0xFFFFFFFF = None" by (simp only: first_clear_bit_None)
  with assms show ?thesis
    by (subst pmm_find.simps) (simp add: unat_div)
qed

lemma pmm_find_stop: "\<not> i < unat (page_count p) div 32 \<Longrightarrow> pmm_find p i = Inr None"
  by (subst pmm_find.simps) (simp add: unat_div)

lemma word_index_lt: "k < pool_size p \<longleftrightarrow> k div 32 < unat (page_count p) div 32"
  unfolding pool_size_def by (simp add: div_less_iff_less_mult mult.commute)

lemma pmm_find_correct:
  assumes "pool_size p \<le> 32 * PMM_BITMAP_WORDS" "\<forall>k<32 * i. \<not> page_free p k"
  shows "(\<exists>j k. pmm_find p i = Inr (Some (j, k)) \<and> k < 32 \<and> page_free p (32 * j + k) \<and>
      (\<forall>l<32 * j + k. \<not> page_free p l)) \<or>
    pmm_find p i = Inr None \<and> (\<forall>k. \<not> page_free p k)"
  using assms(2)
proof (induction "unat (page_count p) div 32 - i" arbitrary: i rule: less_induct)
  case less
  show ?case
  proof (cases "i < unat (page_count p) div 32")
    case False
    then have "\<not> page_free p k" for k
      using less.prems by (cases "k < 32 * i") (auto simp: page_free_def word_index_lt)
    with False show ?thesis by (simp add: pmm_find_stop)
  next
    case True
    then have "32 * i < 32 * PMM_BITMAP_WORDS"
      using assms(1) unfolding pool_size_def by linarith
    then have step: "pmm_find p i = (case first_clear_bit (bitmap p i) of
           Some j \<Rightarrow> Inr (Some (i, j)) | None \<Rightarrow> pmm_find p (Suc i))"
      using True by (intro pmm_find_step) simp_all
    show ?thesis
    proof (cases "first_clear_bit (bitmap p i)")
      case None
      then have full: "\<forall>b<32. bit (bitmap p i) b"
        by (simp add: first_clear_bit_None all_ones_iff)
      have "\<not> page_free p k" if "k < 32 * Suc i" for k
      proof (cases "k < 32 * i")
        case True
        with less.prems show ?thesis by simp
      next
        case False
        with that have "k div 32 = i" by (intro div_nat_eqI) simp_all
        with full show ?thesis by (simp add: page_free_def)
      qed
      with less.hyps [of "Suc i"] True None step show ?thesis by simp
    next
      case (Some j)
      note j = first_clear_bit_Some [OF Some]
      have "\<not> page_free p l" if "l < 32 * i + j" for l
      proof (cases "l < 32 * i")
        case True
        with less.prems show ?thesis by simp
      next
        case False
        with that obtain b where "l = 32 * i + b" "b < j"
          by (metis add_less_cancel_left le_iff_add not_less)
        with j(1,3) show ?thesis by (simp add: page_free_def)
      qed
      moreover have "page_free p (32 * i + j)"
        using True j(1,2) by (simp add: page_free_def word_index_lt)
      ultimately show ?thesis using step Some j(1) by auto
    qed
  qed
qed

section \<open>Allocation\<close>

lemma page_addr_inj:
  assumes "pmm_wf p" "i < pool_size p" "j < pool_size p" "page_addr p i = page_addr p j"
  shows "i = j"
proof -
  have u: "unat (page_addr p k) = unat (starting_addr p) + 4096 * k" if "k < pool_size p" for k
  proof -
    have "4096 * k < 2 ^ 32" "unat (starting_addr p) + 4096 * k < 2 ^ 32"
      using assms(1) that by (simp_all add: pmm_wf_def)
    then show ?thesis
      by (simp add: page_addr_def PAGE_SIZE_def unat_word_ariths unat_of_nat)
  qed
  from assms(4) show ?thesis by (metis u [OF assms(2)] u [OF assms(3)] add_left_cancel mult_cancel1 zero_neq_numeral)
qed

lemma page_addr_nonzero:
  assumes "pmm_wf p" "k < pool_size p"
  shows "page_addr p k \<noteq> 0"
proof -
  have "4096 * k < 2 ^ 32" "unat (starting_addr p) + 4096 * k < 2 ^ 32" "0 < unat (starting_addr p)"
    using assms by (simp_all add: pmm_wf_def word_less_nat_alt)
  then have "unat (page_addr p k) \<noteq> 0"
    by (simp add: page_addr_def PAGE_SIZE_def unat_word_ariths unat_of_nat)
  then show ?thesis by auto
qed

lemma pool_size_mark [simp]: "pool_size (mark_page k p) = pool_size p"
  by (simp add: pool_size_def mark_page_def)

lemma page_addr_mark [simp]: "page_addr (mark_page k p) = page_addr p"
  by (simp add: page_addr_def mark_page_def fun_eq_iff)

lemma pmm_wf_mark [simp]: "pmm_wf (mark_page k p) = pmm_wf p"
  by (simp add: pmm_wf_def pool_size_def mark_page_def)

lemma page_free_mark: "page_free (mark_page k p) l \<longleftrightarrow> page_free p l \<and> l \<noteq> k"
  by (auto simp: page_free_def, auto simp: mark_page_def bit_SET_BIT split: if_splits)
    (metis div_mod_decomp)+

lemma pmm_alloc_page_found:
  assumes "pmm_wf (pmm s)" "page_free (pmm s) k" "\<forall>l<k. \<not> page_free (pmm s) l"
  shows "pmm_alloc_page s = Inr (page_addr (pmm s) k, s\<lparr>pmm := mark_page k (pmm s)\<rparr>)"
proof -
  let ?p = "pmm s"
  have "pool_size ?p \<le> 32 * PMM_BITMAP_WORDS" using assms(1) by (simp add: pmm_wf_def)
  from pmm_find_correct [OF this, of 0] assms(2) obtain i j where
    f: "pmm_find ?p 0 = Inr (Some (i, j))" "j < 32" "page_free ?p (32 * i + j)"
      "\<forall>l<32 * i + j. \<not> page_free ?p l" by auto
  with assms(2,3) have k: "k = 32 * i + j" by (metis linorder_neqE_nat)
  with f(2) have ij: "k div 32 = i" "k mod 32 = j" by simp_all
  have addr: "starting_addr ?p + PAGE_SIZE * (32 * of_nat i) + PAGE_SIZE * of_nat j = page_addr ?p k"
    unfolding k by (simp add: page_addr_def algebra_simps)
  have "page_addr ?p k \<noteq> 0"
    using assms(1,2) by (intro page_addr_nonzero) (simp_all add: page_free_def)
  then show ?thesis
    by (simp add: pmm_alloc_page_def f(1) addr mark_page_def ij)
qed

lemma finite_page_free: "finite {k. page_free p k}"
  by (rule finite_subset [of _ "{..<pool_size p}"]) (auto simp: page_free_def)

lemma pmm_free_set_mark:
  assumes "pmm_wf (pmm s)" "page_free (pmm s) k"
  shows "pmm_free_set (s\<lparr>pmm := mark_page k (pmm s)\<rparr>) = pmm_free_set s - {page_addr (pmm s) k}"
proof -
  have "{l. page_free (mark_page k (pmm s)) l} = {l. page_free (pmm s) l} - {k}"
    by (auto simp: page_free_mark)
  moreover have "inj_on (page_addr (pmm s)) {l. page_free (pmm s) l}"
    using page_addr_inj [OF assms(1)] by (auto simp: inj_on_def page_free_def)
  ultimately show ?thesis
    using assms(2) by (simp add: pmm_free_set_def inj_on_image_set_diff [of _ "{l. page_free (pmm s) l}"])
qed

lemma least_free_page:
  assumes "page_free p k"
  obtains l where "page_free p l" "\<forall>i<l. \<not> page_free p i" "l \<le> k"
  using assms by (metis LeastI Least_le not_less_Least)

lemma pmm_alloc_page_pool:
  assumes "pmm_wf (pmm s)" "pmm_free_set s \<noteq> {}"
  shows "\<exists>p t. pmm_alloc_page s = Inr (p, t) \<and> p \<in> pmm_free_set s \<and>
    pmm_free_set t = pmm_free_set s - {p} \<and> pmm_wf (pmm t)"
proof -
  from assms(2) obtain k where "page_free (pmm s) k" by (auto simp: pmm_free_set_def)
  then obtain l where l: "page_free (pmm s) l" "\<forall>i<l. \<not> page_free (pmm s) i"
    by (rule least_free_page)
  from pmm_alloc_page_found [OF assms(1) l] pmm_free_set_mark [OF assms(1) l(1)] l(1) assms(1)
  show ?thesis by (auto simp: pmm_free_set_def)
qed

interpretation pmm_pool: page_pool pmm_alloc_page pmm_free_set "\<lambda>s. pmm_wf (pmm s)"
proof unfold_locales
  show "finite (pmm_free_set s)" for s :: "'a pmm_state_scheme"
    by (simp add: pmm_free_set_def finite_page_free)
qed (rule pmm_alloc_page_pool)

lemma pmm_alloc_page_exhausted:
  assumes "pool_size (pmm s) \<le> 32 * PMM_BITMAP_WORDS" "\<forall>k. \<not> page_free (pmm s) k"
  shows "\<exists>t. pmm_alloc_page s = Inr (0, t) \<and> prints s t"
proof -
  have "pmm_find (pmm s) 0 = Inr None"
    using pmm_find_correct [OF assms(1), of 0] assms(2) by auto
  moreover obtain n t where
    "kprintf (litn ''WARNING!!! All Physical pages are allocated'') [] s = Inr (n, t)"
    by (simp add: kprintf_def litn_def)
  ultimately show ?thesis
    using kprintf_prints by (fastforce simp: pmm_alloc_page_def)
qed

lemma prints_same_kernel: "prints s t \<Longrightarrow> same_kernel s t"
  using tty_frame.puts_inv by (auto simp: prints_def same_kernel_def)

lemma panic_Some: "\<exists>t. panic (Some msg) s = Inl (Panic msg, t)"
  by (simp add: panic_def kprintf_def litn_def)

section \<open>Freeing\<close>

lemma CLEAR_SET_BIT: "\<not> bit w j \<Longrightarrow> CLEAR_BIT (SET_BIT w j) j = w"
  by (rule bit_word_eqI) (auto simp: bit_CLEAR_BIT bit_SET_BIT)

lemma unat_page_addr:
  assumes "pmm_wf p" "k < pool_size p"
  shows "unat (page_addr p k) = unat (starting_addr p) + 4096 * k"
proof -
  have "4096 * k < 2 ^ 32" "unat (starting_addr p) + 4096 * k < 2 ^ 32"
    using assms by (simp_all add: pmm_wf_def)
  then show ?thesis
    by (simp add: page_addr_def PAGE_SIZE_def unat_word_ariths unat_of_nat)
qed

lemma PAGE_ALIGN_page_addr:
  assumes "pmm_wf p" "k < pool_size p" "unat (starting_addr p) mod 4096 = 0"
  shows "PAGE_ALIGN (page_addr p k) = page_addr p k"
proof -
  have "unat (page_addr p k) mod 4096 = 0"
    using assms by (simp add: unat_page_addr)
  then show ?thesis
    by (simp add: word_unat_eq_iff unat_PAGE_ALIGN)
qed

lemma pmm_free_page_pool:
  assumes "pmm_wf (pmm s)" "unat (starting_addr (pmm s)) mod 4096 = 0" "k < pool_size (pmm s)"
    "page_addr (pmm s) k \<le> starting_addr (pmm s) * (PAGE_SIZE * (page_count (pmm s) - 1))"
  shows "pmm_free_page (page_addr (pmm s) k) s = Inr ((), s\<lparr>pmm := (pmm s)\<lparr>bitmap :=
    (bitmap (pmm s))(k div 32 := CLEAR_BIT (bitmap (pmm s) (k div 32)) (k mod 32))\<rparr>\<rparr>)"
proof -
  let ?p = "pmm s" and ?a = "page_addr (pmm s) k"
  note a = unat_page_addr [OF assms(1,3)]
  have ge: "starting_addr ?p \<le> ?a" using a by (simp add: word_le_nat_alt)
  have "unat (?a - starting_addr ?p) = 4096 * k" using a by (simp add: unat_sub_if')
  then have idx: "unat ((?a - starting_addr ?p) div PAGE_SIZE) = k"
    by (simp add: unat_div PAGE_SIZE_def)
  have "k div 32 < PMM_BITMAP_WORDS"
    using assms(1,3) by (simp add: pmm_wf_def div_less_iff_less_mult mult.commute)
  then show ?thesis
    using ge assms(4) idx
    by (simp add: pmm_free_page_def Let_def PAGE_ALIGN_page_addr [OF assms(1,3,2)] unat_div unat_mod)
qed

lemma pool_end_wraps:
  assumes "2 ^ 20 dvd unat a"
  shows "a * (PAGE_SIZE * n) = 0"
proof -
  from assms obtain c where "unat a = 2 ^ 20 * c" by blast
  moreover have "a = of_nat (unat a)" by simp
  ultimately have "a = of_nat (2 ^ 20 * c)" by metis
  then have "a * (PAGE_SIZE * n) = 0x100000000 * (of_nat c * n)"
    by (simp add: PAGE_SIZE_def)
  moreover have "(0x100000000 :: u32) = 0" by simp
  ultimately show ?thesis by simp
qed

section \<open>Initialisation\<close>

lemma unat_page_up:
  assumes "unat x \<le> 2 ^ 32 - 4096"
  shows "unat (if PAGE_ALIGN x < x then PAGE_INCREMENT (PAGE_ALIGN x) else PAGE_ALIGN x)
    = (unat x + 4095) div 4096 * 4096"
proof -
  define q r where "q = unat x div 4096" and "r = unat x mod 4096"
  have x: "unat x = 4096 * q + r" "r < 4096" by (simp_all add: q_def r_def)
  have a: "unat (PAGE_ALIGN x) = 4096 * q" using x(2) by (simp add: unat_PAGE_ALIGN x(1))
  show ?thesis
  proof (cases "r = 0")
    case True
    with a x show ?thesis by (simp add: word_less_nat_alt)
  next
    case False
    with x assms have "unat (PAGE_INCREMENT (PAGE_ALIGN x)) = 4096 * q + 4096"
      by (simp add: PAGE_INCREMENT_def PAGE_SIZE_def unat_word_ariths a)
    moreover have "(4096 * q + r + 4095) div 4096 = q + 1"
      using False x(2) by (intro div_nat_eqI) simp_all
    ultimately show ?thesis
      using a x False by (simp add: word_less_nat_alt)
  qed
qed

lemma page_up_bounds: "(n :: nat) \<le> (n + 4095) div 4096 * 4096" "(n + 4095) div 4096 * 4096 < n + 4096"
  by linarith+

lemma pmm_init_struct_values:
  assumes "unat (sym_kernel_end_phys L) \<le> 2 ^ 32 - 4096" "unat last_mem_addr < 0xFFFFF000"
    "(unat (sym_kernel_end_phys L) + 4095) div 4096 * 4096 \<le> unat last_mem_addr"
  shows "unat (starting_addr (pmm (pmm_init_struct L last_mem_addr s)))
      = (unat (sym_kernel_end_phys L) + 4095) div 4096 * 4096"
    "(unat (sym_kernel_end_phys L) + 4095) div 4096 * 4096
       + 4096 * unat (page_count (pmm (pmm_init_struct L last_mem_addr s)))
     = unat last_mem_addr - unat last_mem_addr mod 4096"
proof -
  let ?k = "sym_kernel_end_phys L" and ?s = "pmm_init_struct L last_mem_addr s"
  define f where "f = (if PAGE_ALIGN ?k < ?k then PAGE_INCREMENT (PAGE_ALIGN ?k) else PAGE_ALIGN ?k)"
  have f: "unat f = (unat ?k + 4095) div 4096 * 4096"
    unfolding f_def using unat_page_up [OF assms(1)] .
  have s: "starting_addr (pmm ?s) = f"
    by (simp add: pmm_init_struct_def Let_def f_def)
  then show "unat (starting_addr (pmm ?s)) = (unat ?k + 4095) div 4096 * 4096" using f by simp
  let ?e = "PAGE_ALIGN last_mem_addr"
  define q r where "q = unat last_mem_addr div 4096" and "r = unat last_mem_addr mod 4096"
  have l: "unat last_mem_addr = 4096 * q + r" "r < 4096" by (simp_all add: q_def r_def)
  have e: "unat ?e = 4096 * q" using l(2) by (simp add: unat_PAGE_ALIGN l(1))
  have "unat (PAGE_INCREMENT ?e) = 4096 * q + 4096"
    using assms(2) l by (simp add: PAGE_INCREMENT_def PAGE_SIZE_def unat_word_ariths e)
  then have gt: "last_mem_addr < PAGE_INCREMENT ?e"
    using l by (simp add: word_less_nat_alt)
  have same: "PAGE_INCREMENT (PAGE_DECREMENT ?e) = ?e"
    by (simp add: PAGE_INCREMENT_def PAGE_DECREMENT_def)
  have pc: "page_count (pmm ?s) = (?e - f) div 4096"
    using gt same by (simp add: pmm_init_struct_def Let_def f_def PAGE_SIZE_def)
  obtain g where g: "unat f = 4096 * g" using f by (metis mult.commute)
  have fe: "4096 * g \<le> 4096 * q"
  proof -
    have "4096 * g \<le> 4096 * q + r" using assms(3) f g l(1) by simp
    then have "g \<le> q" using l(2) by linarith
    then show ?thesis by simp
  qed
  then have "unat (?e - f) = 4096 * q - 4096 * g"
    using e g by (simp add: unat_sub_if')
  then have "unat (page_count (pmm ?s)) = q - g"
    by (simp add: pc unat_div diff_mult_distrib2 [symmetric])
  then have "unat f + 4096 * unat (page_count (pmm ?s)) = 4096 * q"
    using fe g by simp
  then show "(unat ?k + 4095) div 4096 * 4096 + 4096 * unat (page_count (pmm ?s))
     = unat last_mem_addr - unat last_mem_addr mod 4096"
    using f l by simp
qed

section \<open>Properties\<close>

text \<open>
  C6: \<^verbatim>\<open>pmm_alloc_page\<close> is first fit and touches nothing else. With a well-formed pool, if frame
  \<open>k\<close> is the lowest free one the call returns its address and the new state differs only in
  the mark on frame \<open>k\<close>; if no frame is free it returns NULL and, beyond the printed warning,
  changes nothing.
\<close>

theorem pmm_alloc_page_first_fit:
  assumes "pmm_wf (pmm s)"
  shows "(page_free (pmm s) k \<and> (\<forall>l<k. \<not> page_free (pmm s) l) \<longrightarrow>
      pmm_alloc_page s = Inr (page_addr (pmm s) k, s\<lparr>pmm := mark_page k (pmm s)\<rparr>)) \<and>
    ((\<forall>l. \<not> page_free (pmm s) l) \<longrightarrow>
      (\<exists>t. pmm_alloc_page s = Inr (0, t) \<and> same_kernel s t))"
  using pmm_alloc_page_found [OF assms] pmm_alloc_page_exhausted [of s] prints_same_kernel assms
  by (fastforce simp: pmm_wf_def)

lemma example_pool_wf: "pmm_wf example_pool"
  by (simp add: pmm_wf_def pool_size_def example_pool_def PMM_BITMAP_WORDS_def)

lemma example_pool_free: "page_free example_pool 1" "\<not> page_free example_pool 0" "page_free example_pool 2"
  by (simp_all add: page_free_def pool_size_def example_pool_def bit_numeral_rec)

theorem pmm_alloc_page_first_fit_witness:
  "\<forall>s :: pmm_state. pmm_alloc_page (s\<lparr>pmm := example_pool\<rparr>)
     = Inr (0x201000, s\<lparr>pmm := mark_page 1 example_pool\<rparr>)"
proof
  fix s :: pmm_state
  have "pmm_wf (pmm (s\<lparr>pmm := example_pool\<rparr>))" by (simp add: example_pool_wf)
  from pmm_alloc_page_first_fit [OF this, of 1]
  show "pmm_alloc_page (s\<lparr>pmm := example_pool\<rparr>) = Inr (0x201000, s\<lparr>pmm := mark_page 1 example_pool\<rparr>)"
    using example_pool_free
    by (simp add: page_addr_def) (simp add: example_pool_def PAGE_SIZE_def)
qed

text \<open>
  No frame is handed out twice: any sequence of \<open>n\<close> allocations from a pool with at least
  \<open>n\<close> free frames succeeds with \<open>n\<close> different addresses of free frames of the pool, after
  which exactly those frames are no longer free.
\<close>

theorem pmm_alloc_page_distinct:
  assumes "pmm_wf (pmm s)" "n \<le> card (pmm_free_set s)"
  shows "\<exists>ps t. alloc_many pmm_alloc_page n s = Inr (ps, t) \<and> length ps = n \<and> distinct ps \<and>
    set ps \<subseteq> pmm_free_set s \<and> pmm_free_set t = pmm_free_set s - set ps"
  using pmm_pool.alloc_many_distinct [OF assms] by blast

theorem pmm_alloc_page_distinct_witness:
  "\<forall>s :: pmm_state. \<exists>ps t. alloc_many pmm_alloc_page 2 (s\<lparr>pmm := example_pool\<rparr>) = Inr (ps, t) \<and>
     length ps = 2 \<and> distinct ps"
proof
  fix s :: pmm_state
  let ?s = "s\<lparr>pmm := example_pool\<rparr>"
  have "page_addr example_pool 1 \<noteq> page_addr example_pool 2"
    by (simp add: page_addr_def PAGE_SIZE_def)
  then have "card (page_addr example_pool ` {1, 2}) = 2" by simp
  moreover have "page_addr example_pool ` {1, 2} \<subseteq> pmm_free_set ?s"
    using example_pool_free by (auto simp: pmm_free_set_def)
  ultimately have "2 \<le> card (pmm_free_set ?s)"
    by (metis card_mono finite_imageI finite_page_free pmm_free_set_def)
  moreover have "pmm_wf (pmm ?s)" by (simp add: example_pool_wf)
  ultimately show "\<exists>ps t. alloc_many pmm_alloc_page 2 ?s = Inr (ps, t) \<and> length ps = 2 \<and> distinct ps"
    using pmm_alloc_page_distinct [of ?s 2] by blast
qed

text \<open>
  The pool set up by \<^verbatim>\<open>pmm_init_struct\<close> starts at the first page boundary at or above the end
  of the kernel image and ends at the last page boundary at or below the end of memory, so no frame
  overlaps the kernel and every frame is backed by memory.
\<close>

theorem pmm_init_struct_bounds:
  assumes "unat (sym_kernel_end_phys L) \<le> 2 ^ 32 - 4096" "unat last_mem_addr < 0xFFFFF000"
    "(unat (sym_kernel_end_phys L) + 4095) div 4096 * 4096 \<le> unat last_mem_addr"
  shows "let p = pmm (pmm_init_struct L last_mem_addr s);
             first = unat (starting_addr p);
             end_addr = first + 4096 * unat (page_count p)
         in first mod 4096 = 0 \<and> unat (sym_kernel_end_phys L) \<le> first \<and>
            first < unat (sym_kernel_end_phys L) + 4096 \<and>
            end_addr mod 4096 = 0 \<and> end_addr \<le> unat last_mem_addr \<and> unat last_mem_addr < end_addr + 4096"
proof -
  have m: "(n - n mod 4096) mod 4096 = 0" "n - n mod 4096 \<le> n" "n < n - n mod 4096 + 4096" for n :: nat
    by (simp_all add: minus_mod_eq_mult_div)
  show ?thesis
    unfolding Let_def pmm_init_struct_values [OF assms]
    using page_up_bounds [of "unat (sym_kernel_end_phys L)"] m [of "unat last_mem_addr"] by simp
qed

theorem pmm_init_struct_bounds_witness:
  "\<forall>s :: pmm_state. unat (starting_addr (pmm (pmm_init_struct example_symbols 0x800000 s))) < 0x124456"
proof
  fix s :: pmm_state
  have "unat (sym_kernel_end_phys example_symbols) \<le> 2 ^ 32 - 4096"
    "unat (0x800000 :: u32) < 0xFFFFF000"
    "(unat (sym_kernel_end_phys example_symbols) + 4095) div 4096 * 4096 \<le> unat (0x800000 :: u32)"
    by (simp_all add: example_symbols_def)
  from pmm_init_struct_bounds [OF this, of s]
  show "unat (starting_addr (pmm (pmm_init_struct example_symbols 0x800000 s))) < 0x124456"
    by (simp add: Let_def) (simp add: example_symbols_def)
qed

text \<open>
  C28: \<^verbatim>\<open>pmm_free_page\<close> undoes \<^verbatim>\<open>pmm_alloc_page\<close>: when the page an allocation returned passes the
  range check of the free, freeing it restores the exact state before the allocation.
\<close>

theorem pmm_free_page_undoes_alloc:
  assumes "pmm_wf (pmm s)" "unat (starting_addr (pmm s)) mod 4096 = 0" "pmm_free_set s \<noteq> {}"
    "pmm_alloc_page s = Inr (a, t)"
    "a \<le> starting_addr (pmm s) * (PAGE_SIZE * (page_count (pmm s) - 1))"
  shows "pmm_free_page a t = Inr ((), s)"
proof -
  from assms(3) obtain k where "page_free (pmm s) k" by (auto simp: pmm_free_set_def)
  then obtain l where l: "page_free (pmm s) l" "\<forall>i<l. \<not> page_free (pmm s) i"
    by (rule least_free_page)
  from pmm_alloc_page_found [OF assms(1) l] assms(4)
  have t: "t = s\<lparr>pmm := mark_page l (pmm s)\<rparr>" and a: "a = page_addr (pmm s) l" by simp_all
  have l': "l < pool_size (pmm t)" "\<not> bit (bitmap (pmm s) (l div 32)) (l mod 32)"
    using l(1) by (simp_all add: t page_free_def)
  have "pmm_free_page (page_addr (pmm t) l) t = Inr ((), t\<lparr>pmm := (pmm t)\<lparr>bitmap :=
    (bitmap (pmm t))(l div 32 := CLEAR_BIT (bitmap (pmm t) (l div 32)) (l mod 32))\<rparr>\<rparr>)"
    using assms(1,2,5) l'(1) a by (intro pmm_free_page_pool) (simp_all add: t, simp_all add: mark_page_def)
  then show ?thesis
    using l'(2) by (simp add: t a) (simp add: mark_page_def CLEAR_SET_BIT)
qed

theorem pmm_free_page_undoes_alloc_witness:
  "\<forall>s :: pmm_state. let s' = s\<lparr>pmm := example_pool\<lparr>starting_addr := 0x123000\<rparr>\<rparr> in
     pmm_free_page 0x124000 (s'\<lparr>pmm := mark_page 1 (pmm s')\<rparr>) = Inr ((), s')"
proof
  fix s :: pmm_state
  let ?p = "example_pool\<lparr>starting_addr := 0x123000\<rparr>"
  let ?s = "s\<lparr>pmm := ?p\<rparr>"
  have wf: "pmm_wf (pmm ?s)"
    by (simp add: pmm_wf_def pool_size_def example_pool_def PMM_BITMAP_WORDS_def)
  have free: "page_free ?p 1" "\<not> page_free ?p 0"
    by (simp_all add: page_free_def pool_size_def example_pool_def bit_numeral_rec)
  then have ne: "pmm_free_set ?s \<noteq> {}" by (auto simp: pmm_free_set_def)
  have addr: "page_addr ?p 1 = 0x124000" by (simp add: page_addr_def PAGE_SIZE_def)
  have "pmm_alloc_page ?s = Inr (0x124000, ?s\<lparr>pmm := mark_page 1 (pmm ?s)\<rparr>)"
    using pmm_alloc_page_found [OF wf, of 1] free addr by simp
  from pmm_free_page_undoes_alloc [OF wf _ ne this]
  show "let s' = ?s in pmm_free_page 0x124000 (s'\<lparr>pmm := mark_page 1 (pmm s')\<rparr>) = Inr ((), s')"
    by (simp add: Let_def PAGE_SIZE_def example_pool_def)
qed

text \<open>
  C40: the upper bound that \<^verbatim>\<open>pmm_free_page\<close> checks against is a product where a sum is meant. When
  the pool starts at a multiple of 1 MiB the product is 0 in 32 bits, and every call panics with
  ``page not in page pool'', whatever page it is given.
\<close>

theorem pmm_free_page_rejects_all:
  assumes "2 ^ 20 dvd unat (starting_addr (pmm s))" "starting_addr (pmm s) \<noteq> 0"
  shows "\<exists>t. pmm_free_page page s = Inl (Panic (lit ''page not in page pool''), t)"
proof -
  have "\<not> (PAGE_ALIGN page \<ge> starting_addr (pmm s) \<and> PAGE_ALIGN page \<le> 0)"
    using assms(2) by auto
  then show ?thesis
    using pool_end_wraps [OF assms(1)] panic_Some by (simp add: pmm_free_page_def Let_def)
qed

theorem pmm_free_page_rejects_all_witness:
  "\<forall>s :: pmm_state. \<exists>t. pmm_free_page 0x201000 (s\<lparr>pmm := mark_page 1 example_pool\<rparr>)
     = Inl (Panic (lit ''page not in page pool''), t)"
proof
  fix s :: pmm_state
  let ?s = "s\<lparr>pmm := mark_page 1 example_pool\<rparr>"
  have "2 ^ 20 dvd unat (starting_addr (pmm ?s))" "starting_addr (pmm ?s) \<noteq> 0"
    by (simp_all add: mark_page_def example_pool_def)
  from pmm_free_page_rejects_all [OF this, of "0x201000"]
  show "\<exists>t. pmm_free_page 0x201000 ?s = Inl (Panic (lit ''page not in page pool''), t)" .
qed

text \<open>
  \<^verbatim>\<open>pmm_init_user_task\<close> takes a byte offset for a page number. For a boot module that starts
  \<open>k\<close> pages into the pool (\<open>0 < k < 64\<close>) it marks frame \<open>4096 * k\<close>; the frame the module
  occupies stays as free as it was.
\<close>

theorem pmm_init_user_task_misses_module:
  assumes "rd mod_list s = page_addr (pmm s) k" "0 < k" "k < 64"
  shows "\<exists>t. pmm_init_user_task mod_list s = Inr ((), t) \<and> pmm t = mark_page (4096 * k) (pmm s) \<and>
    page_free (pmm t) k = page_free (pmm s) k"
proof -
  have u: "unat (PAGE_SIZE * of_nat k) = 4096 * k"
    using assms(3) by (simp add: PAGE_SIZE_def unat_word_ariths unat_of_nat)
  have idx: "unat (drop_bit 5 (PAGE_SIZE * of_nat k)) = 128 * k"
    using u by (simp only: unat_drop_bit_eq) (simp add: drop_bit_eq_div)
  have "unat (PAGE_SIZE * of_nat k mod 32) = 0"
    using u by (simp only: unat_mod) simp
  then have bit0: "NOT (push_bit (unat (PAGE_SIZE * of_nat k mod 32)) (0xFFFFFFFF :: u32)) = 0"
    by (simp add: all_ones_mask) (simp add: mask_eq_exp_minus_1)
  have page: "rd mod_list s - starting_addr (pmm s) = PAGE_SIZE * of_nat k"
    using assms(1) by (simp add: page_addr_def)
  have mod: "mod_start (mod_list_at (mem s) mod_list) = rd mod_list s" by (simp add: mod_list_at_def rd_def)
  have div: "4096 * k div 32 = 128 * k" "4096 * k mod 32 = 0" by simp_all
  have "\<exists>t. pmm_init_user_task mod_list s = Inr ((), t) \<and> pmm t = mark_page (4096 * k) (pmm s)"
    using assms(3)
    by (simp add: pmm_init_user_task_def Let_def mod page idx bit0 PMM_BITMAP_WORDS_def
        task_init_user_task_info_def mark_page_def div)
  with assms(2) show ?thesis by (auto simp: page_free_mark)
qed

theorem pmm_init_user_task_misses_module_witness:
  "\<forall>s :: pmm_state. \<exists>t. pmm_init_user_task 0x9000
       (s\<lparr>mem := store32 (mem s) 0x9000 0x201000, pmm := example_pool\<rparr>) = Inr ((), t) \<and> page_free (pmm t) 1"
proof
  fix s :: pmm_state
  let ?s = "s\<lparr>mem := store32 (mem s) 0x9000 0x201000, pmm := example_pool\<rparr>"
  have "rd 0x9000 ?s = page_addr (pmm ?s) 1"
    by (simp add: rd_def page_addr_def) (simp add: example_pool_def PAGE_SIZE_def)
  from pmm_init_user_task_misses_module [OF this]
  show "\<exists>t. pmm_init_user_task 0x9000 ?s = Inr ((), t) \<and> page_free (pmm t) 1"
    using example_pool_free by auto
qed

end
