(* ===== verification/Cstring.thy ===== *)
theory Cstring
  imports Machine
begin

text \<open>
  The string and memory routines of \<^verbatim>\<open>libc/string\<close>, over the byte memory. A counted loop is a
  fold over its index range; a loop that runs until it meets a NUL byte is a partial function,
  \<^const>\<open>None\<close> when the loop never ends. Plain \<^verbatim>\<open>char\<close> is signed on the target, so a
  difference of characters is a difference of signed values.
\<close>

definition memset :: "bytes \<Rightarrow> u32 \<Rightarrow> u8 \<Rightarrow> u32 \<Rightarrow> bytes" where
  "memset m s c n = fold (\<lambda>i m. m(s + of_nat i := c)) [0..<unat n] m"

text \<open>The body \<^verbatim>\<open>destptr[i] = srcptr[i]\<close>, run for the indices of a list in order.\<close>

primrec copy_cells :: "bytes \<Rightarrow> u32 \<Rightarrow> u32 \<Rightarrow> nat list \<Rightarrow> bytes" where
  "copy_cells m dest src [] = m"
| "copy_cells m dest src (i # is) =
     copy_cells (m(dest + of_nat i := m (src + of_nat i))) dest src is"

definition memcpy :: "bytes \<Rightarrow> u32 \<Rightarrow> u32 \<Rightarrow> u32 \<Rightarrow> bytes" where
  "memcpy m dest src n = copy_cells m dest src [0..<unat n]"

definition memmove :: "bytes \<Rightarrow> u32 \<Rightarrow> u32 \<Rightarrow> u32 \<Rightarrow> bytes" where
  "memmove m dest src n =
     (if dest < src
      then copy_cells m dest src [0..<unat n]
      else copy_cells m dest src (rev [0..<unat n]))"

definition memcmp :: "bytes \<Rightarrow> u32 \<Rightarrow> u32 \<Rightarrow> u32 \<Rightarrow> int" where
  "memcmp m s1 s2 n =
     (case List.find (\<lambda>i. m (s1 + of_nat i) \<noteq> m (s2 + of_nat i)) [0..<unat n] of
        None \<Rightarrow> 0
      | Some i \<Rightarrow> sint (m (s1 + of_nat i)) - sint (m (s2 + of_nat i)))"

partial_function (option) strlen_from :: "bytes \<Rightarrow> u32 \<Rightarrow> u32 \<Rightarrow> u32 option" where
  "strlen_from m str len =
     (if m (str + len) = 0 then Some len else strlen_from m str (len + 1))"

definition strlen :: "bytes \<Rightarrow> u32 \<Rightarrow> u32 option" where
  "strlen m str = strlen_from m str 0"

text \<open>
  \<^verbatim>\<open>strnlen\<close> counts with the loop variable but returns another variable, \<^verbatim>\<open>len\<close>, which the loop
  body never changes; the loop carries both here.
\<close>

function strnlen_from :: "bytes \<Rightarrow> u32 \<Rightarrow> u32 \<Rightarrow> u32 \<Rightarrow> nat \<Rightarrow> u32" where
  "strnlen_from m str maxlen len i =
     (if i < unat maxlen
      then if m (str + of_nat i) = 0 then len else strnlen_from m str maxlen len (Suc i)
      else len)"
  by pat_completeness auto
termination
  by (relation "measure (\<lambda>(m, str, maxlen, len, i). unat maxlen - i)") auto

definition strnlen :: "bytes \<Rightarrow> u32 \<Rightarrow> u32 \<Rightarrow> u32" where
  "strnlen m str maxlen = strnlen_from m str maxlen 0 0"

partial_function (option) strcat_copy :: "bytes \<Rightarrow> u32 \<Rightarrow> u32 \<Rightarrow> u32 \<Rightarrow> bytes option" where
  "strcat_copy m dst src j =
     (let m' = m(dst + j := m (src + j))
      in if m' (src + j) = 0 then Some m' else strcat_copy m' dst src (j + 1))"

definition strcat :: "bytes \<Rightarrow> u32 \<Rightarrow> u32 \<Rightarrow> bytes option" where
  "strcat m dest src =
     (case strlen m dest of None \<Rightarrow> None | Some i \<Rightarrow> strcat_copy m (dest + i) src 0)"

partial_function (option) strcmp_from :: "bytes \<Rightarrow> u32 \<Rightarrow> u32 \<Rightarrow> u32 \<Rightarrow> int option" where
  "strcmp_from m s1 s2 i =
     (if m (s1 + i) \<noteq> 0 \<and> m (s2 + i) \<noteq> 0
      then if m (s1 + i) = m (s2 + i) then strcmp_from m s1 s2 (i + 1)
           else Some (sint (m (s1 + i)) - sint (m (s2 + i)))
      else Some (sint (m (s1 + i)) - sint (m (s2 + i))))"

definition strcmp :: "bytes \<Rightarrow> u32 \<Rightarrow> u32 \<Rightarrow> int option" where
  "strcmp m s1 s2 = strcmp_from m s1 s2 0"

text \<open>The NUL-terminated string \<open>xs\<close> stands at address \<open>p\<close>.\<close>

definition cstring_at :: "bytes \<Rightarrow> u32 \<Rightarrow> u8 list \<Rightarrow> bool" where
  "cstring_at m p xs \<longleftrightarrow>
     length xs < 2 ^ 32 \<and> (\<forall>i<length xs. m (p + of_nat i) = xs ! i \<and> xs ! i \<noteq> 0) \<and>
     m (p + of_nat (length xs)) = 0"

declare strnlen_from.simps [simp del]

section \<open>Filling and copying\<close>

lemma add_of_nat_eq_iff:
  fixes a :: u32
  assumes "i < 2 ^ 32" "j < 2 ^ 32"
  shows "a + of_nat i = a + of_nat j \<longleftrightarrow> i = j"
  using assms by (simp add: word_of_nat_eq_iff take_bit_nat_eq_self_iff take_bit_nat_eq_self)

lemma fold_upd_same:
  "fold (\<lambda>i m. m(f i := c)) xs m a = (if a \<in> f ` set xs then c else m a)"
  by (induction xs arbitrary: m) auto

lemma memset_apply:
  "memset m s c n a = (if a - s < n then c else m a)"
proof -
  have "a \<in> (\<lambda>i. s + of_nat i) ` {0..<unat n} \<longleftrightarrow> a - s < n"
  proof
    assume "a \<in> (\<lambda>i. s + of_nat i) ` {0..<unat n}"
    then obtain i where i: "i < unat n" "a - s = of_nat i" by auto
    then have "unat (a - s) = i"
      using unat_less_u32 [of n] by (simp add: unat_of_nat mod_less)
    with i show "a - s < n" by (simp add: word_less_nat_alt)
  next
    assume "a - s < n"
    then have "unat (a - s) < unat n" "a = s + of_nat (unat (a - s))"
      by (simp_all add: word_less_nat_alt)
    then show "a \<in> (\<lambda>i. s + of_nat i) ` {0..<unat n}" by force
  qed
  then show ?thesis
    by (simp add: memset_def fold_upd_same)
qed

text \<open>
  A copying loop that never overwrites a cell it still has to read copies every cell.
\<close>

lemma copy_cells_frame:
  "a \<notin> (\<lambda>i. dest + of_nat i) ` set is \<Longrightarrow> copy_cells m dest src is a = m a"
  by (induction "is" arbitrary: m) auto

lemma copy_cells_apply:
  assumes "sorted_wrt (\<lambda>i j. dest + of_nat i \<noteq> dest + of_nat j \<and>
      dest + of_nat i \<noteq> src + of_nat j) is" "i \<in> set is"
  shows "copy_cells m dest src is (dest + of_nat i) = m (src + of_nat i)"
  using assms
proof (induction "is" arbitrary: m)
  case Nil
  then show ?case by simp
next
  case (Cons x xs)
  show ?case
  proof (cases "i = x")
    case True
    moreover from Cons.prems have "dest + of_nat x \<notin> (\<lambda>i. dest + of_nat i) ` set xs" by auto
    ultimately show ?thesis by (simp add: copy_cells_frame)
  next
    case False
    with Cons.prems have "i \<in> set xs" "src + of_nat i \<noteq> dest + of_nat x" by auto
    with Cons show ?thesis by simp
  qed
qed

lemma sorted_wrt_upt_I:
  assumes "\<And>i j. i < j \<Longrightarrow> j < n \<Longrightarrow> P i j"
  shows "sorted_wrt P [0..<n]"
  using assms by (simp add: sorted_wrt_iff_nth_less)

lemma sorted_wrt_rev_upt_I:
  assumes "\<And>i j. i < j \<Longrightarrow> j < n \<Longrightarrow> P j i"
  shows "sorted_wrt P (rev [0..<n])"
  unfolding sorted_wrt_rev using assms by (rule sorted_wrt_upt_I)

lemma add_of_nat_less:
  fixes a :: u32
  assumes "unat a + n \<le> 2 ^ 32" "i < n"
  shows "unat (a + of_nat i) = unat a + i"
  using assms by (simp add: unat_word_ariths unat_of_nat)

lemma memmove_cell:
  assumes "unat dest + unat n \<le> 2 ^ 32" "unat src + unat n \<le> 2 ^ 32" "i < unat n"
  shows "memmove m dest src n (dest + of_nat i) = m (src + of_nat i)"
proof -
  let ?P = "\<lambda>i j. dest + of_nat i \<noteq> dest + of_nat j \<and> dest + of_nat i \<noteq> src + of_nat j"
  note u = add_of_nat_less [OF assms(1)] add_of_nat_less [OF assms(2)]
  have up: "sorted_wrt ?P [0..<unat n]" if "dest < src"
    using that by (intro sorted_wrt_upt_I) (simp add: word_unat_eq_iff u word_less_nat_alt)
  have down: "sorted_wrt ?P (rev [0..<unat n])" if "\<not> dest < src"
    using that by (intro sorted_wrt_rev_upt_I) (simp add: word_unat_eq_iff u word_less_nat_alt)
  show ?thesis
  proof (cases "dest < src")
    case True
    with copy_cells_apply [OF up] assms(3) show ?thesis by (simp add: memmove_def)
  next
    case False
    with copy_cells_apply [OF down] assms(3) show ?thesis by (simp add: memmove_def)
  qed
qed

lemma memmove_frame:
  assumes "\<not> a - dest < n"
  shows "memmove m dest src n a = m a"
proof -
  have "a \<noteq> dest + of_nat i" if "i < unat n" for i
  proof
    assume "a = dest + of_nat i"
    then have "unat (a - dest) = i"
      using that unat_less_u32 [of n] by (simp add: unat_of_nat)
    with assms that show False by (simp add: word_less_nat_alt)
  qed
  then have "a \<notin> (\<lambda>i. dest + of_nat i) ` {0..<unat n}" by force
  then show ?thesis
    by (simp add: memmove_def copy_cells_frame)
qed

section \<open>Strings\<close>

lemma strlen_from_step:
  assumes "cstring_at m p xs" "k \<le> length xs"
  shows "strlen_from m p (of_nat (length xs - k)) = Some (of_nat (length xs))"
  using assms(2)
proof (induction k)
  case 0
  with assms show ?case by (subst strlen_from.simps) (simp add: cstring_at_def)
next
  case (Suc k)
  then have lt: "length xs - Suc k < length xs" by simp
  with assms have "m (p + of_nat (length xs - Suc k)) \<noteq> 0"
    by (simp add: cstring_at_def del: of_nat_diff)
  moreover have "of_nat (length xs - Suc k) + 1 = (of_nat (length xs - k) :: u32)"
    using Suc.prems by (metis Suc_diff_Suc add.commute less_eq_Suc_le of_nat_Suc)
  ultimately show ?case
    using Suc by (subst strlen_from.simps) (simp del: of_nat_diff)
qed

lemma strlen_cstring: "cstring_at m p xs \<Longrightarrow> strlen m p = Some (of_nat (length xs))"
  using strlen_from_step [of m p xs "length xs"] by (simp add: strlen_def)

lemma strnlen_from_len: "strnlen_from m str maxlen len i = len"
  by (induction m str maxlen len i rule: strnlen_from.induct) (simp add: strnlen_from.simps)

lemma strcmp_from_eq:
  assumes "cstring_at m p xs" "cstring_at m q ys" "k \<le> length xs"
    "k \<le> length ys" "take k xs = take k ys"
  shows "\<exists>r. strcmp_from m p q (of_nat k) = Some r \<and> (r = 0 \<longleftrightarrow> drop k xs = drop k ys)"
  using assms(3-)
proof (induction "length xs - k" arbitrary: k rule: less_induct)
  case less
  have px: "m (p + of_nat k) = (if k < length xs then xs ! k else 0)" "k < length xs \<Longrightarrow> xs ! k \<noteq> 0"
    using assms(1) less.prems by (auto simp: cstring_at_def dest: le_neq_implies_less)
  have qy: "m (q + of_nat k) = (if k < length ys then ys ! k else 0)" "k < length ys \<Longrightarrow> ys ! k \<noteq> 0"
    using assms(2) less.prems by (auto simp: cstring_at_def dest: le_neq_implies_less)
  consider (both) "k < length xs" "k < length ys" "xs ! k = ys ! k"
    | (differ) "k < length xs" "k < length ys" "xs ! k \<noteq> ys ! k"
    | (tail) "k = length xs \<or> k = length ys" using less.prems by linarith
  then show ?case
  proof cases
    case both
    then have "take (Suc k) xs = take (Suc k) ys"
      using less.prems by (simp add: take_Suc_conv_app_nth)
    moreover have "length xs - Suc k < length xs - k" using both by simp
    ultimately obtain r where
      "strcmp_from m p q (of_nat k + 1) = Some r" "r = 0 \<longleftrightarrow> drop (Suc k) xs = drop (Suc k) ys"
      using both less.hyps [of "Suc k"] by (auto simp: add.commute)
    with both px qy show ?thesis
      by (subst strcmp_from.simps) (simp add: Cons_nth_drop_Suc [symmetric])
  next
    case differ
    with px qy show ?thesis
      by (subst strcmp_from.simps)
        (auto simp: Cons_nth_drop_Suc [symmetric] dest: signed_word_eqI)
  next
    case tail
    with less.prems px qy show ?thesis
      by (subst strcmp_from.simps) (auto simp: Cons_nth_drop_Suc [symmetric] not_less signed_eq_0_iff)
  qed
qed

section \<open>Properties\<close>

text \<open>
  C35: \<^verbatim>\<open>memmove\<close> copies correctly even when the two areas overlap: after the call each of the
  \<open>n\<close> destination bytes holds what the corresponding source byte held before it, and no byte
  outside the destination changes, for areas that do not run past the end of the address space.
\<close>

theorem memmove_correct:
  assumes "unat dest + unat n \<le> 2 ^ 32" "unat src + unat n \<le> 2 ^ 32"
  shows "(\<forall>i<unat n. memmove m dest src n (dest + of_nat i) = m (src + of_nat i)) \<and>
    (\<forall>a. \<not> a - dest < n \<longrightarrow> memmove m dest src n a = m a)"
  using assms memmove_cell memmove_frame by blast

theorem memmove_correct_witness:
  "memmove (\<lambda>a. ucast a) 1 0 3 (1 + of_nat 2) = (2 :: u8) \<and>
   memmove (\<lambda>a. ucast a) 1 0 3 0 = (0 :: u8)"
proof -
  have "unat (1 :: u32) + unat (3 :: u32) \<le> 2 ^ 32" "unat (0 :: u32) + unat (3 :: u32) \<le> 2 ^ 32"
    by simp_all
  note c = memmove_correct [OF this, of "\<lambda>a. ucast a"]
  from c [THEN conjunct1, rule_format, of 2] c [THEN conjunct2, rule_format, of 0]
  show ?thesis by simp
qed

text \<open>
  \<^verbatim>\<open>strcmp\<close> decides string equality: on two NUL-terminated strings it returns, and the
  value is 0 exactly when the strings are equal.
\<close>

theorem strcmp_decides_equality:
  assumes "cstring_at m p xs" "cstring_at m q ys"
  shows "\<exists>r. strcmp m p q = Some r \<and> (r = 0 \<longleftrightarrow> xs = ys)"
  using strcmp_from_eq [OF assms, of 0] by (simp add: strcmp_def)

theorem strcmp_decides_equality_witness:
  "\<exists>r. strcmp ((\<lambda>_. 0)(16 := 97, 32 := 98)) 16 32 = Some r \<and> (r = 0 \<longleftrightarrow> [97 :: u8] = [98])"
  by (rule strcmp_decides_equality) (simp_all add: cstring_at_def)

end
