(* ===== verification/Paging.thy ===== *)
theory Paging
  imports Pmm Cstring
begin

text \<open>
  Paging, \<^verbatim>\<open>kernel/memory/paging.c\<close>: the bit fields of directory and table entries, the kernel's
  initial address space, and the operations that add page tables and map pages. Tables live in the
  byte memory at the virtual addresses the kernel uses for them. The two-level walk of the processor
  is stated as a specification (\<open>mmu_translate\<close>) against which the tables are judged.
\<close>

section \<open>Entries\<close>

record page_directory_entry =
  pde_present :: bool
  pde_r_w :: bool
  pde_user :: bool
  pde_write_through :: bool
  pde_cache_disable :: bool
  pde_accessed :: bool
  pde_ignored :: bool
  pde_page_size :: bool
  pde_global_translation :: bool
  pde_ignored_2 :: "3 word"
  pde_phys_addr :: "20 word"

record page_table_entry =
  pte_present :: bool
  pte_r_w :: bool
  pte_user :: bool
  pte_write_through :: bool
  pte_cache_disable :: bool
  pte_accessed :: bool
  pte_dirty :: bool
  pte_pat_support :: bool
  pte_global_translation :: bool
  pte_ignored :: "3 word"
  pte_phys_addr :: "20 word"

definition flag :: "nat \<Rightarrow> bool \<Rightarrow> u32" where
  "flag i b = (if b then push_bit i 1 else 0)"

definition word_of_pde :: "page_directory_entry \<Rightarrow> u32" where
  "word_of_pde e = flag 0 (pde_present e) OR flag 1 (pde_r_w e) OR flag 2 (pde_user e)
     OR flag 3 (pde_write_through e) OR flag 4 (pde_cache_disable e) OR flag 5 (pde_accessed e)
     OR flag 6 (pde_ignored e) OR flag 7 (pde_page_size e) OR flag 8 (pde_global_translation e)
     OR push_bit 9 (ucast (pde_ignored_2 e)) OR push_bit 12 (ucast (pde_phys_addr e))"

definition word_of_pte :: "page_table_entry \<Rightarrow> u32" where
  "word_of_pte e = flag 0 (pte_present e) OR flag 1 (pte_r_w e) OR flag 2 (pte_user e)
     OR flag 3 (pte_write_through e) OR flag 4 (pte_cache_disable e) OR flag 5 (pte_accessed e)
     OR flag 6 (pte_dirty e) OR flag 7 (pte_pat_support e) OR flag 8 (pte_global_translation e)
     OR push_bit 9 (ucast (pte_ignored e)) OR push_bit 12 (ucast (pte_phys_addr e))"

definition pde_of_word :: "u32 \<Rightarrow> page_directory_entry" where
  "pde_of_word w = \<lparr>pde_present = bit w 0, pde_r_w = bit w 1, pde_user = bit w 2,
     pde_write_through = bit w 3, pde_cache_disable = bit w 4, pde_accessed = bit w 5,
     pde_ignored = bit w 6, pde_page_size = bit w 7, pde_global_translation = bit w 8,
     pde_ignored_2 = ucast (drop_bit 9 w), pde_phys_addr = ucast (drop_bit 12 w)\<rparr>"

definition pte_of_word :: "u32 \<Rightarrow> page_table_entry" where
  "pte_of_word w = \<lparr>pte_present = bit w 0, pte_r_w = bit w 1, pte_user = bit w 2,
     pte_write_through = bit w 3, pte_cache_disable = bit w 4, pte_accessed = bit w 5,
     pte_dirty = bit w 6, pte_pat_support = bit w 7, pte_global_translation = bit w 8,
     pte_ignored = ucast (drop_bit 9 w), pte_phys_addr = ucast (drop_bit 12 w)\<rparr>"

text \<open>The initialiser \<^verbatim>\<open>{ 0 }\<close>.\<close>

definition zero_pde :: page_directory_entry where
  "zero_pde = \<lparr>pde_present = False, pde_r_w = False, pde_user = False, pde_write_through = False,
     pde_cache_disable = False, pde_accessed = False, pde_ignored = False, pde_page_size = False,
     pde_global_translation = False, pde_ignored_2 = 0, pde_phys_addr = 0\<rparr>"

definition zero_pte :: page_table_entry where
  "zero_pte = \<lparr>pte_present = False, pte_r_w = False, pte_user = False, pte_write_through = False,
     pte_cache_disable = False, pte_accessed = False, pte_dirty = False, pte_pat_support = False,
     pte_global_translation = False, pte_ignored = 0, pte_phys_addr = 0\<rparr>"

section \<open>State and operations\<close>

record paging_state = pmm_state +
  kernel_page_directory :: u32

definition PAGE_TABLE_INDICES :: nat where
  "PAGE_TABLE_INDICES = 1024"

definition PAGE_TABLE_RANGE :: u32 where
  "PAGE_TABLE_RANGE = of_nat PAGE_TABLE_INDICES * PAGE_SIZE"

definition PAGE_DIRECTORY_INDEX :: "u32 \<Rightarrow> nat" where
  "PAGE_DIRECTORY_INDEX addr = unat (drop_bit 22 addr AND 0x3FF)"

definition PAGE_TABLE_INDEX :: "u32 \<Rightarrow> nat" where
  "PAGE_TABLE_INDEX addr = unat (drop_bit 12 addr AND 0x3FF)"

text \<open>The word \<^verbatim>\<open>entries[i]\<close> of a directory or table.\<close>

definition slot :: "u32 \<Rightarrow> nat \<Rightarrow> u32" where
  "slot table i = table + 4 * of_nat i"

definition get_pte :: "u32 \<Rightarrow> nat \<Rightarrow> 'a machine_scheme \<Rightarrow> page_table_entry" where
  "get_pte table i s = pte_of_word (rd (slot table i) s)"

definition put_pte :: "u32 \<Rightarrow> nat \<Rightarrow> page_table_entry \<Rightarrow> 'a machine_scheme \<Rightarrow> 'a machine_scheme" where
  "put_pte table i e s = wr (slot table i) (word_of_pte e) s"

definition get_pde :: "u32 \<Rightarrow> nat \<Rightarrow> 'a machine_scheme \<Rightarrow> page_directory_entry" where
  "get_pde table i s = pde_of_word (rd (slot table i) s)"

definition put_pde :: "u32 \<Rightarrow> nat \<Rightarrow> page_directory_entry \<Rightarrow> 'a machine_scheme \<Rightarrow> 'a machine_scheme" where
  "put_pde table i e s = wr (slot table i) (word_of_pde e) s"

definition paging_set_page_directory_addr :: "page_directory_entry \<Rightarrow> u32 \<Rightarrow> page_directory_entry" where
  "paging_set_page_directory_addr entry addr = entry\<lparr>pde_phys_addr := ucast (drop_bit 12 addr)\<rparr>"

definition paging_set_page_table_addr :: "page_table_entry \<Rightarrow> u32 \<Rightarrow> page_table_entry" where
  "paging_set_page_table_addr entry addr = entry\<lparr>pte_phys_addr := ucast (drop_bit 12 addr)\<rparr>"

definition paging_page_fault_handler :: "'a tty_scheme \<Rightarrow> ('a tty_scheme, unit) result" where
  "paging_page_fault_handler s =
     bindR (kprintf (litn ''page fault occurred'') [] s) (\<lambda>_ s.
     bindR (kprintf (litn ''faulting address: %x'') [VInt (cr2 s)] s) (\<lambda>_ s.
     panic (Some (litn ''page fault occurred'')) s))"

text \<open>Reloading \<^verbatim>\<open>cr3\<close> empties the translation cache, which is not part of the state.\<close>

definition paging_flush_tlb :: "'a machine_scheme \<Rightarrow> 'a machine_scheme" where
  "paging_flush_tlb s = s\<lparr>cr3 := cr3 s\<rparr>"

definition paging_change_page_directory :: "u32 \<Rightarrow> 'a machine_scheme \<Rightarrow> 'a machine_scheme" where
  "paging_change_page_directory page_directory_phys s =
     (let s = s\<lparr>cr3 := page_directory_phys\<rparr>;
          s = s\<lparr>cr0 := cr0 s OR 0x80000000\<rparr>
      in paging_flush_tlb s)"

text \<open>The memory \<^verbatim>\<open>memset(p, 0, PAGE_SIZE)\<close> leaves.\<close>

definition clear_page :: "u32 \<Rightarrow> 'a machine_scheme \<Rightarrow> 'a machine_scheme" where
  "clear_page p s = s\<lparr>mem := memset (mem s) p 0 PAGE_SIZE\<rparr>"

definition kernel_pte :: "u32 \<Rightarrow> page_table_entry" where
  "kernel_pte kernel_frame =
     (paging_set_page_table_addr zero_pte (PAGE_ALIGN kernel_frame))
       \<lparr>pte_present := True, pte_r_w := True, pte_global_translation := True\<rparr>"

definition kernel_pde :: "u32 \<Rightarrow> page_directory_entry" where
  "kernel_pde pt_phys =
     (paging_set_page_directory_addr zero_pde pt_phys)
       \<lparr>pde_present := True, pde_r_w := True, pde_global_translation := True\<rparr>"

text \<open>
  The part of \<^verbatim>\<open>paging_init\<close> after both pages are allocated and cleared: fill the page table,
  enter it into the directory, install the fault handler, switch the processor over.
\<close>

definition paging_map_kernel :: "symbols \<Rightarrow> u32 \<Rightarrow> 'a paging_state_scheme \<Rightarrow> 'a paging_state_scheme" where
  "paging_map_kernel L page_table s =
     (let s = fold (\<lambda>i s.
                let kernel_frame = of_nat i * PAGE_SIZE
                in put_pte page_table (PAGE_TABLE_INDEX kernel_frame) (kernel_pte kernel_frame) s)
                [0..<1024] s;
          s = put_pde (kernel_page_directory s) (PAGE_DIRECTORY_INDEX (sym_kernel_start_virt L))
                (kernel_pde (V2P_ADDR page_table)) s;
          s = s\<lparr>idt_handlers := (idt_handlers s)(14 := Paging_page_fault_handler)\<rparr>
      in paging_change_page_directory (V2P_ADDR (kernel_page_directory s)) s)"

definition paging_init :: "symbols \<Rightarrow> 'a paging_state_scheme \<Rightarrow> ('a paging_state_scheme, u32) result" where
  "paging_init L s =
     bindR (pmm_alloc_page s) (\<lambda>pd s.
     let s = s\<lparr>kernel_page_directory := P2V_ADDR pd\<rparr> in
     if kernel_page_directory s = 0 then panic (Some (litn ''Unable to allocate page directory'')) s
     else
       let s = clear_page (kernel_page_directory s) s in
       bindR (pmm_alloc_page s) (\<lambda>pt s.
       let page_table = P2V_ADDR pt in
       if page_table = 0 then panic (Some (litn ''Unable to allocate a kernel page table'')) s
       else Inr (page_table, paging_map_kernel L page_table (clear_page page_table s))))"

definition paging_add_page_table :: "u32 \<Rightarrow> u32 \<Rightarrow> 'a paging_state_scheme \<Rightarrow> 'a paging_state_scheme" where
  "paging_add_page_table pt_phys_addr pt_virt_addr s =
     (let pd_entry = paging_set_page_directory_addr zero_pde pt_phys_addr;
          pd_entry = pd_entry\<lparr>pde_present := True, pde_r_w := True\<rparr>;
          s = put_pde (kernel_page_directory s) (PAGE_DIRECTORY_INDEX pt_virt_addr) pd_entry s
      in paging_flush_tlb s)"

definition paging_is_virtual_page_present :: "u32 \<Rightarrow> u32 \<Rightarrow> 'a machine_scheme \<Rightarrow> bool" where
  "paging_is_virtual_page_present page_table virt_page s =
     pte_present (get_pte page_table (PAGE_TABLE_INDEX virt_page) s)"

definition paging_map_virtual_page ::
  "u32 \<Rightarrow> u32 \<Rightarrow> 'a paging_state_scheme \<Rightarrow> ('a paging_state_scheme, u32) result" where
  "paging_map_virtual_page page_table virt_page s =
     (let pt_index = PAGE_TABLE_INDEX virt_page in
      bindR (pmm_alloc_page s) (\<lambda>phys_page s.
      let e = get_pte page_table pt_index s;
          s = put_pte page_table pt_index (paging_set_page_table_addr e phys_page) s;
          e = get_pte page_table pt_index s;
          s = put_pte page_table pt_index (e\<lparr>pte_present := True, pte_r_w := True\<rparr>) s
      in Inr (phys_page, s)))"

section \<open>Specification\<close>

text \<open>
  The processor's walk for a linear address under 32-bit paging with 4 KiB pages, with the tables
  read through the kernel's window onto physical memory.
\<close>

definition frame_addr :: "20 word \<Rightarrow> u32" where
  "frame_addr f = push_bit 12 (ucast f)"

definition mmu_translate :: "'a machine_scheme \<Rightarrow> u32 \<Rightarrow> u32 option" where
  "mmu_translate s va =
     (let pde = get_pde (P2V_ADDR (cr3 s)) (PAGE_DIRECTORY_INDEX va) s in
      if \<not> pde_present pde then None
      else let pte = get_pte (P2V_ADDR (frame_addr (pde_phys_addr pde))) (PAGE_TABLE_INDEX va) s in
           if \<not> pte_present pte then None
           else Some (frame_addr (pte_phys_addr pte) OR (va AND 0xFFF)))"

definition page_aligned :: "u32 \<Rightarrow> bool" where
  "page_aligned p \<longleftrightarrow> unat p mod 4096 = 0"

section \<open>Entries as words\<close>

lemma bit_flag: "bit (flag i b) n \<longleftrightarrow> b \<and> n = i \<and> i < 32"
  by (auto simp: flag_def bit_simps)

lemma pte_of_word_of_pte [simp]: "pte_of_word (word_of_pte e) = e"
proof -
  have "(ucast (drop_bit 9 (word_of_pte e)) :: 3 word) = pte_ignored e"
    by (rule bit_word_eqI) (auto simp: word_of_pte_def bit_simps bit_flag)
  moreover have "(ucast (drop_bit 12 (word_of_pte e)) :: 20 word) = pte_phys_addr e"
    by (rule bit_word_eqI) (auto simp: word_of_pte_def bit_simps bit_flag dest: bit_imp_le_length)
  ultimately show ?thesis
    by (simp add: pte_of_word_def) (simp add: word_of_pte_def bit_simps bit_flag)
qed

lemma pde_of_word_of_pde [simp]: "pde_of_word (word_of_pde e) = e"
proof -
  have "(ucast (drop_bit 9 (word_of_pde e)) :: 3 word) = pde_ignored_2 e"
    by (rule bit_word_eqI) (auto simp: word_of_pde_def bit_simps bit_flag)
  moreover have "(ucast (drop_bit 12 (word_of_pde e)) :: 20 word) = pde_phys_addr e"
    by (rule bit_word_eqI) (auto simp: word_of_pde_def bit_simps bit_flag dest: bit_imp_le_length)
  ultimately show ?thesis
    by (simp add: pde_of_word_def) (simp add: word_of_pde_def bit_simps bit_flag)
qed

lemma pte_present_bit [simp]: "pte_present (pte_of_word w) = bit w 0"
  by (simp add: pte_of_word_def)

lemma pde_present_bit [simp]: "pde_present (pde_of_word w) = bit w 0"
  by (simp add: pde_of_word_def)

lemma frame_addr_of_aligned:
  assumes "page_aligned a"
  shows "frame_addr (ucast (drop_bit 12 a)) = a"
proof -
  have "PAGE_ALIGN a = a"
    using assms by (simp add: word_unat_eq_iff unat_PAGE_ALIGN page_aligned_def)
  then have "bit a i \<Longrightarrow> 12 \<le> i" for i by (metis bit_PAGE_ALIGN)
  then show ?thesis
    by (intro bit_word_eqI) (auto simp: frame_addr_def bit_simps)
qed

section \<open>Table slots\<close>

lemma PAGE_TABLE_INDEX_lt: "PAGE_TABLE_INDEX a < 1024"
proof -
  have "PAGE_TABLE_INDEX a = unat (take_bit 10 (drop_bit 12 a))"
    by (simp add: PAGE_TABLE_INDEX_def take_bit_eq_mask mask_eq_exp_minus_1)
  also have "\<dots> < 2 ^ 10" by (simp only: unsigned_take_bit_eq take_bit_nat_less_exp)
  finally show ?thesis by simp
qed

lemma PAGE_DIRECTORY_INDEX_lt: "PAGE_DIRECTORY_INDEX a < 1024"
proof -
  have "PAGE_DIRECTORY_INDEX a = unat (take_bit 10 (drop_bit 22 a))"
    by (simp add: PAGE_DIRECTORY_INDEX_def take_bit_eq_mask mask_eq_exp_minus_1)
  also have "\<dots> < 2 ^ 10" by (simp only: unsigned_take_bit_eq take_bit_nat_less_exp)
  finally show ?thesis by simp
qed

lemma page_aligned_le:
  assumes "page_aligned p"
  shows "unat p \<le> 2 ^ 32 - 4096"
proof -
  from assms obtain q where "unat p = 4096 * q" by (auto simp: page_aligned_def)
  with unat_less_u32 [of p] show ?thesis by simp
qed

lemma unat_slot:
  assumes "page_aligned p" "i < 1024"
  shows "unat (slot p i) = unat p + 4 * i"
  using page_aligned_le [OF assms(1)] assms(2)
  by (simp add: slot_def unat_word_ariths unat_of_nat)

lemma slot_eq_iff:
  assumes "page_aligned p" "page_aligned q" "i < 1024" "j < 1024"
  shows "slot p i = slot q j \<longleftrightarrow> p = q \<and> i = j"
proof
  assume "slot p i = slot q j"
  then have e: "unat p + 4 * i = unat q + 4 * j"
    using unat_slot assms by metis
  from assms obtain a b where ab: "unat p = 4096 * a" "unat q = 4096 * b"
    by (auto simp: page_aligned_def elim!: dvdE)
  from e ab assms(3,4) have "a = b" by linarith
  with e ab show "p = q \<and> i = j" by (simp add: word_unat_eq_iff)
qed simp

lemma aligned4_slot: "page_aligned p \<Longrightarrow> i < 1024 \<Longrightarrow> aligned4 (slot p i)"
  unfolding aligned4_def by (subst unat_slot) (auto simp: page_aligned_def)

lemma rd_slot_wr:
  assumes "page_aligned p" "page_aligned q" "i < 1024" "j < 1024"
  shows "rd (slot q j) (wr (slot p i) v s) = (if p = q \<and> i = j then v else rd (slot q j) s)"
  using assms by (auto simp: rd_wr_aligned aligned4_slot slot_eq_iff)

lemma page_offset_lt:
  assumes "page_aligned p" "page_aligned q" "d < 4096"
  shows "q + of_nat d - p < PAGE_SIZE \<longleftrightarrow> p = q"
proof
  assume "q + of_nat d - p < PAGE_SIZE"
  then have lt: "unat (q + of_nat d - p) < 4096" by (simp add: PAGE_SIZE_def word_less_nat_alt)
  from assms obtain a b where ab: "unat p = 4096 * a" "unat q = 4096 * b"
    by (auto simp: page_aligned_def elim!: dvdE)
  have qd: "unat (q + of_nat d) = 4096 * b + d"
    using page_aligned_le [OF assms(2)] assms(3) ab by (simp add: unat_word_ariths unat_of_nat)
  have "4096 * a < 2 ^ 32" using unat_less_u32 [of p] ab by simp
  with lt qd ab assms(3) have "a = b"
    by (auto simp: unat_sub_if' split: if_splits)
  with ab show "p = q" by (simp add: word_unat_eq_iff)
next
  assume "p = q"
  with assms(3) show "q + of_nat d - p < PAGE_SIZE"
    by (simp add: PAGE_SIZE_def word_less_nat_alt unat_of_nat)
qed

lemma rd_slot_clear_page:
  assumes "page_aligned p" "page_aligned q" "j < 1024"
  shows "rd (slot q j) (clear_page p s) = (if p = q then 0 else rd (slot q j) s)"
proof -
  have cell: "mem (clear_page p s) (slot q j + of_nat i) =
      (if p = q then 0 else mem s (slot q j + of_nat i))" if "i < 4" for i
  proof -
    have "slot q j + of_nat i = q + of_nat (4 * j + i)" by (simp add: slot_def)
    moreover have "4 * j + i < 4096" using assms(3) that by simp
    ultimately have "slot q j + of_nat i - p < PAGE_SIZE \<longleftrightarrow> p = q"
      using page_offset_lt [OF assms(1,2)] by metis
    then show ?thesis by (auto simp: clear_page_def memset_apply)
  qed
  show ?thesis
  proof (cases "p = q")
    case True
    with cell [of 0] cell [of 1] cell [of 2] cell [of 3] show ?thesis
      by (simp add: rd_def load32_def)
  next
    case False
    with cell show ?thesis by (simp add: rd_def cong: load32_cong) 
  qed
qed


section \<open>The kernel's first address space\<close>

lemma page_aligned_add:
  assumes "page_aligned a" "page_aligned b"
  shows "page_aligned (a + b)"
proof -
  have "unat (a + b) mod 4096 = (unat a mod 4096 + unat b mod 4096) mod 4096"
    by (simp add: unat_word_ariths mod_mod_cancel mod_add_eq)
  with assms show ?thesis by (simp only: page_aligned_def)
qed

lemma page_aligned_P2V: "page_aligned a \<Longrightarrow> page_aligned (P2V_ADDR a)"
  unfolding P2V_ADDR_def by (rule page_aligned_add) (simp_all add: page_aligned_def KERNEL_VIRT_BASE_def)

lemma page_aligned_page_addr:
  assumes "pmm_wf p" "page_aligned (starting_addr p)" "k < pool_size p"
  shows "page_aligned (page_addr p k)"
  using assms by (simp add: page_aligned_def unat_page_addr)

lemma P2V_eq_iff [simp]: "P2V_ADDR a = P2V_ADDR b \<longleftrightarrow> a = b"
  by (simp add: P2V_ADDR_def)

lemma unat_frame: "i < 1024 \<Longrightarrow> unat (of_nat i * PAGE_SIZE) = 4096 * i"
  by (simp add: PAGE_SIZE_def unat_word_ariths unat_of_nat)

lemma page_aligned_frame: "i < 1024 \<Longrightarrow> page_aligned (of_nat i * PAGE_SIZE)"
  by (simp add: page_aligned_def unat_frame)

lemma unat_PAGE_TABLE_INDEX: "PAGE_TABLE_INDEX a = unat a div 4096 mod 1024"
proof -
  have "PAGE_TABLE_INDEX a = unat (take_bit 10 (drop_bit 12 a))"
    by (simp add: PAGE_TABLE_INDEX_def take_bit_eq_mask mask_eq_exp_minus_1)
  also have "\<dots> = take_bit 10 (drop_bit 12 (unat a))"
    by (simp only: unsigned_take_bit_eq unat_drop_bit_eq)
  finally show ?thesis by (simp add: take_bit_eq_mod drop_bit_eq_div)
qed

lemma unat_PAGE_DIRECTORY_INDEX: "PAGE_DIRECTORY_INDEX a = unat a div 4194304"
proof -
  have "PAGE_DIRECTORY_INDEX a = unat (take_bit 10 (drop_bit 22 a))"
    by (simp add: PAGE_DIRECTORY_INDEX_def take_bit_eq_mask mask_eq_exp_minus_1)
  also have "\<dots> = take_bit 10 (drop_bit 22 (unat a))"
    by (simp only: unsigned_take_bit_eq unat_drop_bit_eq)
  finally show ?thesis using unat_less_u32 [of a] by (simp add: take_bit_eq_mod drop_bit_eq_div)
qed

lemma PAGE_TABLE_INDEX_frame: "i < 1024 \<Longrightarrow> PAGE_TABLE_INDEX (of_nat i * PAGE_SIZE) = i"
  by (simp add: unat_PAGE_TABLE_INDEX unat_frame)

lemma PAGE_ALIGN_aligned: "page_aligned a \<Longrightarrow> PAGE_ALIGN a = a"
  by (simp add: word_unat_eq_iff unat_PAGE_ALIGN page_aligned_def)

lemma kernel_pte_frame:
  "i < 1024 \<Longrightarrow> pte_present (kernel_pte (of_nat i * PAGE_SIZE)) \<and>
    frame_addr (pte_phys_addr (kernel_pte (of_nat i * PAGE_SIZE))) = of_nat i * PAGE_SIZE"
  by (simp add: kernel_pte_def paging_set_page_table_addr_def PAGE_ALIGN_aligned
      page_aligned_frame frame_addr_of_aligned)

lemma rd_fold_put_pte:
  assumes "page_aligned p" "page_aligned q" "j < 1024" "n \<le> 1024"
  shows "rd (slot q j) (fold (\<lambda>i s. put_pte p (PAGE_TABLE_INDEX (of_nat i * PAGE_SIZE))
      (f i) s) [0..<n] s) =
    (if p = q \<and> j < n then word_of_pte (f j) else rd (slot q j) s)"
  using assms(4)
  by (induction n) (auto simp: put_pte_def PAGE_TABLE_INDEX_frame rd_slot_wr assms(1-3))

lemma fold_put_pte_frame:
  "\<exists>m. fold (\<lambda>i s. put_pte p (g i) (f i) s) xs s = s\<lparr>mem := m\<rparr>"
proof (induction xs arbitrary: s)
  case Nil
  show ?case by (rule exI [of _ "mem s"]) simp
next
  case (Cons x xs)
  from Cons [of "put_pte p (g x) (f x) s"] show ?case by (auto simp: put_pte_def wr_def)
qed

lemma fold_put_pte_fields:
  "kernel_page_directory (fold (\<lambda>i s. put_pte p (g i) (f i) s) xs s) = kernel_page_directory s"
  "cr0 (fold (\<lambda>i s. put_pte p (g i) (f i) s) xs s) = cr0 s"
  "pmm (fold (\<lambda>i s. put_pte p (g i) (f i) s) xs s) = pmm s"
  "int_flag (fold (\<lambda>i s. put_pte p (g i) (f i) s) xs s) = int_flag s"
  using fold_put_pte_frame [of p g f xs s] by auto

lemma rd_irrelevant [simp]:
  "rd a (s\<lparr>pmm := x\<rparr>) = rd a s" "rd a (s\<lparr>kernel_page_directory := d\<rparr>) = rd a s"
  "rd a (s\<lparr>idt_handlers := h\<rparr>) = rd a s" "rd a (paging_change_page_directory c s) = rd a s"
  by (simp_all add: rd_def paging_change_page_directory_def paging_flush_tlb_def)

lemma page_offset:
  assumes "a AND 0xFFF = b" "page_aligned p"
  shows "unat (p OR b) = unat p + unat a mod 4096"
proof -
  have b: "b = take_bit 12 a"
    using assms(1) by (auto simp: take_bit_eq_mask mask_eq_exp_minus_1)
  have "bit p i \<Longrightarrow> 12 \<le> i" for i
    using bit_PAGE_ALIGN PAGE_ALIGN_aligned [OF assms(2)] by metis
  then have "p AND b = 0"
    unfolding b by (intro bit_word_eqI) (auto simp: bit_simps dest: leD)
  then have "p OR b = p + b" by (simp add: disjunctive_add_eq_or)
  moreover have "unat b = unat a mod 4096"
    unfolding b by (simp add: take_bit_eq_mod unat_mod)
  ultimately show ?thesis
    using page_aligned_le [OF assms(2)]
    by (simp add: unat_word_ariths)
qed

lemma pmm_alloc_page_takes:
  assumes "pmm_wf (pmm s)" "pmm_free_set s \<noteq> {}"
  obtains k where "page_free (pmm s) k" "\<forall>l<k. \<not> page_free (pmm s) l"
    "pmm_alloc_page s = Inr (page_addr (pmm s) k, s\<lparr>pmm := mark_page k (pmm s)\<rparr>)"
    "page_addr (pmm s) k \<in> pmm_free_set s"
    "pmm_free_set (s\<lparr>pmm := mark_page k (pmm s)\<rparr>) = pmm_free_set s - {page_addr (pmm s) k}"
proof -
  from assms(2) obtain k where "page_free (pmm s) k" by (auto simp: pmm_free_set_def)
  then obtain l where l: "page_free (pmm s) l" "\<forall>i<l. \<not> page_free (pmm s) i"
    by (rule least_free_page)
  from that [OF l pmm_alloc_page_found [OF assms(1) l]] pmm_free_set_mark [OF assms(1) l(1)] l(1)
  show ?thesis by (simp add: pmm_free_set_def)
qed

lemma P2V_nonzero:
  assumes "pmm_wf p" "page_free p k" "unat (starting_addr p) + 4096 * pool_size p \<le> 0x40000000"
  shows "P2V_ADDR (page_addr p k) \<noteq> 0"
proof -
  have "unat (page_addr p k) < 0x40000000"
    using assms unat_page_addr [of p k] by (simp add: page_free_def)
  then have "unat (P2V_ADDR (page_addr p k)) = unat (page_addr p k) + 0xC0000000"
    by (simp add: P2V_ADDR_def KERNEL_VIRT_BASE_def unat_word_ariths)
  then show ?thesis by auto
qed

lemma pmm_free_set_mem [simp]: "pmm_free_set (s\<lparr>mem := m\<rparr>) = pmm_free_set s"
  "pmm_free_set (s\<lparr>kernel_page_directory := d\<rparr>) = pmm_free_set s"
  "pmm_free_set (s\<lparr>idt_handlers := h\<rparr>) = pmm_free_set s"
  "pmm_free_set (paging_change_page_directory c s) = pmm_free_set s"
  by (simp_all add: pmm_free_set_def paging_change_page_directory_def paging_flush_tlb_def)

lemma pmm_free_set_clear_page: "pmm_free_set (clear_page p s) = pmm_free_set s"
  by (simp add: pmm_free_set_def clear_page_def)

lemma paging_map_kernel_tables:
  fixes L :: symbols
  assumes pa: "page_aligned d" "page_aligned p" "d \<noteq> p" "kernel_page_directory s = d"
    and zero: "\<And>i. i < 1024 \<Longrightarrow> rd (slot d i) s = 0"
  defines "t \<equiv> paging_map_kernel L p s"
  shows "i < 1024 \<Longrightarrow> rd (slot d i) t = (if i = PAGE_DIRECTORY_INDEX (sym_kernel_start_virt L)
      then word_of_pde (kernel_pde (V2P_ADDR p)) else 0)"
    and "i < 1024 \<Longrightarrow> rd (slot p i) t = word_of_pte (kernel_pte (of_nat i * PAGE_SIZE))"
    and "kernel_page_directory t = d" "cr3 t = V2P_ADDR d" "bit (cr0 t) 31"
    and "idt_handlers t 14 = Paging_page_fault_handler" "pmm t = pmm s"
    and "page_aligned q \<Longrightarrow> q \<noteq> d \<Longrightarrow> q \<noteq> p \<Longrightarrow> i < 1024 \<Longrightarrow> rd (slot q i) t = rd (slot q i) s"
    and "int_flag t = int_flag s"
proof -
  define u where "u = fold (\<lambda>i s. put_pte p (PAGE_TABLE_INDEX (of_nat i * PAGE_SIZE))
      (kernel_pte (of_nat i * PAGE_SIZE)) s) [0..<1024] s"
  obtain m where m: "u = s\<lparr>mem := m\<rparr>"
    unfolding u_def using fold_put_pte_frame [of p "\<lambda>i. PAGE_TABLE_INDEX (of_nat i * PAGE_SIZE)"
        "\<lambda>i. kernel_pte (of_nat i * PAGE_SIZE)" "[0..<1024]" s] by blast
  define v where "v = put_pde d (PAGE_DIRECTORY_INDEX (sym_kernel_start_virt L))
      (kernel_pde (V2P_ADDR p)) u"
  have t: "t = paging_change_page_directory (V2P_ADDR d)
      (v\<lparr>idt_handlers := (idt_handlers v)(14 := Paging_page_fault_handler)\<rparr>)"
    by (simp add: t_def paging_map_kernel_def u_def [symmetric] m pa(4) Let_def v_def put_pde_def wr_def)
  have ru: "rd (slot q i) u = (if p = q then word_of_pte (kernel_pte (of_nat i * PAGE_SIZE))
      else rd (slot q i) s)" if "page_aligned q" "i < 1024" for q i
    using rd_fold_put_pte [OF pa(2) that, of 1024 "\<lambda>i. kernel_pte (of_nat i * PAGE_SIZE)" s] that
    by (simp add: u_def)
  have rt: "rd (slot q i) t = (if q = d \<and> i = PAGE_DIRECTORY_INDEX (sym_kernel_start_virt L)
      then word_of_pde (kernel_pde (V2P_ADDR p)) else rd (slot q i) u)"
    if "page_aligned q" "i < 1024" for q i
    using that pa(1) by (auto simp: t v_def put_pde_def rd_slot_wr PAGE_DIRECTORY_INDEX_lt)
  show "i < 1024 \<Longrightarrow> rd (slot d i) t = (if i = PAGE_DIRECTORY_INDEX (sym_kernel_start_virt L)
      then word_of_pde (kernel_pde (V2P_ADDR p)) else 0)"
    using pa(1,3) by (simp add: rt ru zero)
  show "i < 1024 \<Longrightarrow> rd (slot p i) t = word_of_pte (kernel_pte (of_nat i * PAGE_SIZE))"
    using pa(2,3) by (simp add: rt ru)
  show "page_aligned q \<Longrightarrow> q \<noteq> d \<Longrightarrow> q \<noteq> p \<Longrightarrow> i < 1024 \<Longrightarrow> rd (slot q i) t = rd (slot q i) s"
    by (simp add: rt ru)
qed (simp_all add: t_def paging_map_kernel_def paging_change_page_directory_def paging_flush_tlb_def
      put_pde_def wr_def Let_def pa(4) bit_simps fold_put_pte_fields)

text \<open>The two frames \<^verbatim>\<open>paging_init\<close> takes, and the state it continues with.\<close>

lemma paging_map_kernel_more: "paging_state.more (paging_map_kernel L p s) = paging_state.more s"
proof -
  have "paging_state.more (fold (\<lambda>i s. put_pte p (f i) (g i) s) xs s) = paging_state.more s" for f g and xs :: "nat list"
    by (induction xs arbitrary: s) (simp_all add: put_pte_def wr_def)
  then show ?thesis
    by (simp add: paging_map_kernel_def Let_def put_pde_def wr_def paging_change_page_directory_def paging_flush_tlb_def)
qed

lemma paging_init_steps:
  assumes wf: "pmm_wf (pmm s)" and al: "page_aligned (starting_addr (pmm s))"
    and low: "unat (starting_addr (pmm s)) + 4096 * pool_size (pmm s) \<le> 0x40000000"
    and k: "page_free (pmm s) k" "\<forall>j<k. \<not> page_free (pmm s) j"
    and l: "page_free (mark_page k (pmm s)) l" "\<forall>j<l. \<not> page_free (mark_page k (pmm s)) j"
  defines "pd \<equiv> page_addr (pmm s) k" and "pt \<equiv> page_addr (pmm s) l"
  obtains u where "paging_init L s = Inr (P2V_ADDR pt, paging_map_kernel L (P2V_ADDR pt) u)"
    "page_aligned pd" "page_aligned pt" "pmm u = mark_page l (mark_page k (pmm s))"
    "kernel_page_directory u = P2V_ADDR pd" "int_flag u = int_flag s" "paging_state.more u = paging_state.more s"
    "\<And>i. i < 1024 \<Longrightarrow> rd (slot (P2V_ADDR pd) i) u = 0"
    "\<And>q i. page_aligned q \<Longrightarrow> i < 1024 \<Longrightarrow> q \<noteq> P2V_ADDR pd \<Longrightarrow> q \<noteq> P2V_ADDR pt \<Longrightarrow> rd (slot q i) u = rd (slot q i) s"
proof -
  define s1 where "s1 = clear_page (P2V_ADDR pd) (s\<lparr>pmm := mark_page k (pmm s), kernel_page_directory := P2V_ADDR pd\<rparr>)"
  have s1: "pmm s1 = mark_page k (pmm s)" "kernel_page_directory s1 = P2V_ADDR pd" "int_flag s1 = int_flag s"
    "paging_state.more s1 = paging_state.more s"
    by (simp_all add: s1_def clear_page_def)
  have e1: "pmm_alloc_page s = Inr (pd, s\<lparr>pmm := mark_page k (pmm s)\<rparr>)"
    unfolding pd_def by (rule pmm_alloc_page_found [OF wf k])
  have e2: "pmm_alloc_page s1 = Inr (pt, s1\<lparr>pmm := mark_page l (pmm s1)\<rparr>)"
    using pmm_alloc_page_found [of s1 l] wf l by (simp add: s1 pt_def)
  have fl: "page_free (pmm s) l" using l(1) by (simp add: page_free_mark)
  have a: "page_aligned pd" "page_aligned pt"
    using page_aligned_page_addr [OF wf al] k(1) fl by (simp_all add: page_free_def pd_def pt_def)
  have nz: "P2V_ADDR pd \<noteq> 0" "P2V_ADDR pt \<noteq> 0"
    unfolding pd_def pt_def by (rule P2V_nonzero [OF wf _ low], fact k(1) fl)+
  let ?u = "clear_page (P2V_ADDR pt) (s1\<lparr>pmm := mark_page l (pmm s1)\<rparr>)"
  show ?thesis
  proof (rule that [of ?u])
    show "paging_init L s = Inr (P2V_ADDR pt, paging_map_kernel L (P2V_ADDR pt) ?u)"
      by (simp add: paging_init_def e1 Let_def nz, unfold s1_def [symmetric], simp add: e2 nz)
    show "rd (slot (P2V_ADDR pd) i) ?u = 0" if "i < 1024" for i
      using a that by (simp add: rd_slot_clear_page page_aligned_P2V s1_def)
    show "rd (slot q i) ?u = rd (slot q i) s"
      if "page_aligned q" "i < 1024" "q \<noteq> P2V_ADDR pd" "q \<noteq> P2V_ADDR pt" for q i
      using a that by (simp add: rd_slot_clear_page page_aligned_P2V s1_def)
  qed (simp_all add: a clear_page_def s1)
qed

lemma paging_init_frames:
  assumes wf: "pmm_wf (pmm s)" and al: "page_aligned (starting_addr (pmm s))"
    and low: "unat (starting_addr (pmm s)) + 4096 * pool_size (pmm s) \<le> 0x40000000"
    and two: "2 \<le> card (pmm_free_set s)"
  obtains pd pt u where "paging_init L s = Inr (P2V_ADDR pt, paging_map_kernel L (P2V_ADDR pt) u)"
    "pd \<in> pmm_free_set s" "pt \<in> pmm_free_set s" "pd \<noteq> pt" "page_aligned pd" "page_aligned pt"
    "pmm_free_set u = pmm_free_set s - {pd, pt}" "kernel_page_directory u = P2V_ADDR pd"
    "\<And>i. i < 1024 \<Longrightarrow> rd (slot (P2V_ADDR pd) i) u = 0"
proof -
  from two have ne: "pmm_free_set s \<noteq> {}" by auto
  obtain k where k: "page_free (pmm s) k" "\<forall>j<k. \<not> page_free (pmm s) j"
    "page_addr (pmm s) k \<in> pmm_free_set s"
    "pmm_free_set (s\<lparr>pmm := mark_page k (pmm s)\<rparr>) = pmm_free_set s - {page_addr (pmm s) k}"
    by (rule pmm_alloc_page_takes [OF wf ne])
  define s1 where "s1 = s\<lparr>pmm := mark_page k (pmm s)\<rparr>"
  let ?pd = "page_addr (pmm s) k"
  have "\<not> pmm_free_set s \<subseteq> {?pd}" using two card_mono [of "{?pd}" "pmm_free_set s"] by auto
  then have ne1: "pmm_free_set s1 \<noteq> {}" unfolding s1_def k(4) by blast
  have wf1: "pmm_wf (pmm s1)" by (simp add: s1_def wf)
  obtain l where l: "page_free (pmm s1) l" "\<forall>j<l. \<not> page_free (pmm s1) j" "page_addr (pmm s1) l \<in> pmm_free_set s1"
    "pmm_free_set (s1\<lparr>pmm := mark_page l (pmm s1)\<rparr>) = pmm_free_set s1 - {page_addr (pmm s1) l}"
    by (rule pmm_alloc_page_takes [OF wf1 ne1])
  let ?pt = "page_addr (pmm s) l"
  obtain u where u: "paging_init L s = Inr (P2V_ADDR ?pt, paging_map_kernel L (P2V_ADDR ?pt) u)"
    "page_aligned ?pd" "page_aligned ?pt" "pmm u = mark_page l (mark_page k (pmm s))"
    "kernel_page_directory u = P2V_ADDR ?pd" "\<And>i. i < 1024 \<Longrightarrow> rd (slot (P2V_ADDR ?pd) i) u = 0"
    by (rule paging_init_steps [OF wf al low k(1,2) l(1,2) [unfolded s1_def, simplified]]) (rule that)
  have "?pt \<in> pmm_free_set s - {?pd}" using l(3) k(4) by (simp add: s1_def)
  moreover have "pmm_free_set u = pmm_free_set s - {?pd, ?pt}"
    using l(4) k(4) by (simp add: s1_def pmm_free_set_def u(4)) blast
  ultimately show ?thesis using u(1-3,5,6) k(3) by (intro that [where pd = ?pd and pt = ?pt and u = u]) auto
qed

lemma mmu_translate_kernel:
  assumes "page_aligned pd" "page_aligned pt" "cr3 t = pd"
    "\<And>i. i < 1024 \<Longrightarrow> rd (slot (P2V_ADDR pd) i) t =
       (if i = 0x300 then word_of_pde (kernel_pde pt) else 0)"
    "\<And>i. i < 1024 \<Longrightarrow> rd (slot (P2V_ADDR pt) i) t = word_of_pte (kernel_pte (of_nat i * PAGE_SIZE))"
  shows "mmu_translate t va = (if KERNEL_VIRT_BASE \<le> va \<and> va < KERNEL_VIRT_BASE + PAGE_TABLE_RANGE
    then Some (V2P_ADDR va) else None)"
proof -
  let ?i = "PAGE_TABLE_INDEX va"
  have range: "KERNEL_VIRT_BASE \<le> va \<and> va < KERNEL_VIRT_BASE + PAGE_TABLE_RANGE \<longleftrightarrow>
      PAGE_DIRECTORY_INDEX va = 0x300"
    by (auto simp: KERNEL_VIRT_BASE_def PAGE_TABLE_RANGE_def PAGE_TABLE_INDICES_def PAGE_SIZE_def
        word_le_nat_alt word_less_nat_alt unat_PAGE_DIRECTORY_INDEX intro: div_nat_eqI)
  have addr: "of_nat ?i * PAGE_SIZE OR (va AND 0xFFF) = V2P_ADDR va"
    if "PAGE_DIRECTORY_INDEX va = 0x300"
  proof -
    have le: "0xC0000000 \<le> unat va" using that by (simp add: unat_PAGE_DIRECTORY_INDEX)
    then have "unat (V2P_ADDR va) = unat va - 0xC0000000"
      by (simp add: V2P_ADDR_def KERNEL_VIRT_BASE_def unat_sub_if')
    moreover have "4096 * ?i + unat va mod 4096 = unat va - 0xC0000000"
      using that mod_mult2_eq [of "unat va" 4096 1024] minus_div_mult_eq_mod [of "unat va" 4194304]
      by (simp add: unat_PAGE_TABLE_INDEX unat_PAGE_DIRECTORY_INDEX)
    ultimately show ?thesis
      by (simp add: word_unat_eq_iff page_offset [OF refl page_aligned_frame] unat_frame PAGE_TABLE_INDEX_lt)
  qed
  have pde: "pde_present (kernel_pde pt)" "frame_addr (pde_phys_addr (kernel_pde pt)) = pt"
    using assms(2)
    by (simp_all add: kernel_pde_def paging_set_page_directory_addr_def frame_addr_of_aligned)
  show ?thesis
    unfolding range
    by (cases "PAGE_DIRECTORY_INDEX va = 0x300")
      (simp_all add: mmu_translate_def get_pde_def get_pte_def PAGE_DIRECTORY_INDEX_lt
        PAGE_TABLE_INDEX_lt assms(3-5) pde kernel_pte_frame addr)
qed

text \<open>
  C23: \<^verbatim>\<open>paging_init\<close> with at least two free frames takes two different frames of the pool for the
  directory and the table, loads the directory into cr3, sets the paging bit of cr0, installs the
  page fault handler, and the processor's walk through the new tables sends each address of the 4 MiB
  at 0xC0000000 to the physical address 0xC0000000 below it and faults on every other address.
\<close>

theorem paging_init_address_space:
  assumes "pmm_wf (pmm s)" "page_aligned (starting_addr (pmm s))"
    "unat (starting_addr (pmm s)) + 4096 * pool_size (pmm s) \<le> 0x40000000"
    "2 \<le> card (pmm_free_set s)" "PAGE_DIRECTORY_INDEX (sym_kernel_start_virt L) = 0x300"
  shows "\<exists>pt t. paging_init L s = Inr (pt, t) \<and>
    cr3 t \<in> pmm_free_set s \<and> V2P_ADDR pt \<in> pmm_free_set s \<and> cr3 t \<noteq> V2P_ADDR pt \<and>
    pmm_free_set t = pmm_free_set s - {cr3 t, V2P_ADDR pt} \<and>
    kernel_page_directory t = P2V_ADDR (cr3 t) \<and> bit (cr0 t) 31 \<and>
    idt_handlers t 14 = Paging_page_fault_handler \<and>
    (\<forall>va. mmu_translate t va =
       (if KERNEL_VIRT_BASE \<le> va \<and> va < KERNEL_VIRT_BASE + PAGE_TABLE_RANGE
        then Some (V2P_ADDR va) else None))"
proof -
  obtain pd pt u where u: "paging_init L s = Inr (P2V_ADDR pt, paging_map_kernel L (P2V_ADDR pt) u)"
    "pd \<in> pmm_free_set s" "pt \<in> pmm_free_set s" "pd \<noteq> pt" "page_aligned pd" "page_aligned pt"
    "pmm_free_set u = pmm_free_set s - {pd, pt}" "kernel_page_directory u = P2V_ADDR pd"
    "\<And>i. i < 1024 \<Longrightarrow> rd (slot (P2V_ADDR pd) i) u = 0"
    by (rule paging_init_frames [OF assms(1-4)]) blast
  let ?t = "paging_map_kernel L (P2V_ADDR pt) u"
  have "P2V_ADDR pd \<noteq> P2V_ADDR pt" using u(4) by simp
  note t = paging_map_kernel_tables
    [OF page_aligned_P2V [OF u(5)] page_aligned_P2V [OF u(6)] this u(8,9), where L = L]
  have "mmu_translate ?t va = (if KERNEL_VIRT_BASE \<le> va \<and> va < KERNEL_VIRT_BASE + PAGE_TABLE_RANGE
      then Some (V2P_ADDR va) else None)" for va
    using t(1,2,4) assms(5) by (intro mmu_translate_kernel [OF u(5,6)]) simp_all
  moreover have "pmm_free_set ?t = pmm_free_set s - {pd, pt}"
    using t(7) u(7) by (simp add: pmm_free_set_def)
  ultimately show ?thesis using u(1-4) t(3-6) by simp
qed

lemma example_free_pages: "2 \<le> card (pmm_free_set (s\<lparr>pmm := example_pool\<rparr>))"
proof -
  have "page_free example_pool 1" "page_free example_pool 2"
    by (simp_all add: page_free_def pool_size_def example_pool_def bit_1_iff)
  then have "page_addr example_pool 1 \<in> pmm_free_set (s\<lparr>pmm := example_pool\<rparr>)"
    "page_addr example_pool 2 \<in> pmm_free_set (s\<lparr>pmm := example_pool\<rparr>)"
    by (simp_all add: pmm_free_set_def)
  then have "{0x201000, 0x202000} \<subseteq> pmm_free_set (s\<lparr>pmm := example_pool\<rparr>)"
    by (simp add: page_addr_def PAGE_SIZE_def) (simp add: example_pool_def)
  moreover have "card {0x201000 :: u32, 0x202000} = 2" by simp
  moreover have "finite (pmm_free_set (s\<lparr>pmm := example_pool\<rparr>))"
    by (simp add: pmm_free_set_def finite_page_free)
  ultimately show ?thesis by (metis card_mono)
qed

lemma example_pool_facts: "pmm_wf example_pool" "page_aligned (starting_addr example_pool)"
  "unat (starting_addr example_pool) + 4096 * pool_size example_pool \<le> 0x40000000"
  by (simp_all add: example_pool_def pmm_wf_def pool_size_def PMM_BITMAP_WORDS_def page_aligned_def)

theorem paging_init_address_space_witness:
  "\<forall>s :: paging_state. \<exists>pt t. paging_init example_symbols (s\<lparr>pmm := example_pool\<rparr>) = Inr (pt, t) \<and>
     mmu_translate t 0xC0101234 = Some 0x00101234 \<and> mmu_translate t 0x00101234 = None"
proof
  fix s :: paging_state
  have "PAGE_DIRECTORY_INDEX (sym_kernel_start_virt example_symbols) = 0x300"
    by (simp add: unat_PAGE_DIRECTORY_INDEX example_symbols_def)
  then obtain pt t where t: "paging_init example_symbols (s\<lparr>pmm := example_pool\<rparr>) = Inr (pt, t)"
    "\<forall>va. mmu_translate t va =
       (if KERNEL_VIRT_BASE \<le> va \<and> va < KERNEL_VIRT_BASE + PAGE_TABLE_RANGE
        then Some (V2P_ADDR va) else None)"
    using paging_init_address_space [of "s\<lparr>pmm := example_pool\<rparr>" example_symbols]
      example_free_pages [of s] example_pool_facts by auto
  then show "\<exists>pt t. paging_init example_symbols (s\<lparr>pmm := example_pool\<rparr>) = Inr (pt, t) \<and>
     mmu_translate t 0xC0101234 = Some 0x00101234 \<and> mmu_translate t 0x00101234 = None"
    by (simp add: KERNEL_VIRT_BASE_def PAGE_TABLE_RANGE_def PAGE_TABLE_INDICES_def PAGE_SIZE_def
        V2P_ADDR_def)
qed

section \<open>Mapping further pages\<close>

lemma word_of_pte_of_word [simp]: "word_of_pte (pte_of_word w) = w"
proof (rule bit_word_eqI)
  fix n assume "n < LENGTH(32)"
  then consider "n = 0" | "n = 1" | "n = 2" | "n = 3" | "n = 4" | "n = 5" | "n = 6" | "n = 7" | "n = 8"
    | "9 \<le> n" "n < 12" | "12 \<le> n" "n < 32"
    by force
  then show "bit (word_of_pte (pte_of_word w)) n = bit w n"
    by cases (auto simp: word_of_pte_def pte_of_word_def bit_flag bit_simps)
qed

text \<open>One allocation, one table entry: the whole effect of \<^verbatim>\<open>paging_map_virtual_page\<close>.\<close>

lemma paging_map_virtual_page_eq:
  assumes "pmm_alloc_page s = Inr (a, t)"
  shows "paging_map_virtual_page p va s = Inr (a, put_pte p (PAGE_TABLE_INDEX va)
    ((get_pte p (PAGE_TABLE_INDEX va) t)\<lparr>pte_phys_addr := ucast (drop_bit 12 a), pte_present := True, pte_r_w := True\<rparr>) t)"
proof -
  have w: "wr x v (wr x u r) = wr x v r" for x u v and r :: "'b machine_scheme"
    by (simp add: wr_def store32_def fun_upd_def fun_eq_iff)
  show ?thesis
    by (simp add: paging_map_virtual_page_def assms Let_def get_pte_def put_pte_def
        paging_set_page_table_addr_def w)
qed

text \<open>
  C24: \<^verbatim>\<open>paging_map_virtual_page\<close> enters the lowest free frame into the slot of the virtual page in the
  given table, present and writable and with the other flag bits as they were; with the table
  reached from the directory in cr3 the processor's walk sends every address of that page into the
  frame, and all other slots of all page-aligned tables keep their contents.
\<close>

theorem paging_map_virtual_page_maps:
  assumes "pmm_wf (pmm s)" "page_aligned (starting_addr (pmm s))"
    "page_free (pmm s) k" "\<forall>l<k. \<not> page_free (pmm s) l" "page_aligned p" "page_aligned (cr3 s)"
    "pde_present (get_pde (P2V_ADDR (cr3 s)) (PAGE_DIRECTORY_INDEX va) s)"
    "p = P2V_ADDR (frame_addr (pde_phys_addr (get_pde (P2V_ADDR (cr3 s)) (PAGE_DIRECTORY_INDEX va) s)))"
    "p \<noteq> P2V_ADDR (cr3 s)"
  shows "\<exists>t. paging_map_virtual_page p va s = Inr (page_addr (pmm s) k, t) \<and>
    pmm t = mark_page k (pmm s) \<and>
    mmu_translate t va = Some (page_addr (pmm s) k OR (va AND 0xFFF)) \<and>
    (\<forall>q i. page_aligned q \<and> i < 1024 \<and> (q, i) \<noteq> (p, PAGE_TABLE_INDEX va) \<longrightarrow>
       rd (slot q i) t = rd (slot q i) s)"
proof -
  let ?a = "page_addr (pmm s) k" and ?i = "PAGE_TABLE_INDEX va" and ?s = "s\<lparr>pmm := mark_page k (pmm s)\<rparr>"
  let ?e = "(get_pte p ?i ?s)\<lparr>pte_phys_addr := ucast (drop_bit 12 ?a), pte_present := True, pte_r_w := True\<rparr>"
  define t where "t = put_pte p ?i ?e ?s"
  have r: "rd (slot q i) t = (if q = p \<and> i = ?i then word_of_pte ?e else rd (slot q i) s)"
    if "page_aligned q" "i < 1024" for q i
    using that assms(5) by (auto simp: t_def put_pte_def rd_slot_wr PAGE_TABLE_INDEX_lt)
  have "page_aligned ?a" using assms(1,2,3) by (simp add: page_aligned_page_addr page_free_def)
  then have fa: "frame_addr (ucast (drop_bit 12 ?a)) = ?a" by (rule frame_addr_of_aligned)
  have cr3: "cr3 t = cr3 s" by (simp add: t_def put_pte_def wr_def)
  have pde: "get_pde (P2V_ADDR (cr3 s)) (PAGE_DIRECTORY_INDEX va) t
      = get_pde (P2V_ADDR (cr3 s)) (PAGE_DIRECTORY_INDEX va) s"
    using assms(6,9) by (simp add: get_pde_def r page_aligned_P2V PAGE_DIRECTORY_INDEX_lt)
  have pte: "get_pte p ?i t = ?e" by (simp add: get_pte_def r assms(5) PAGE_TABLE_INDEX_lt)
  have "mmu_translate t va = Some (?a OR (va AND 0xFFF))"
    using assms(7) pte by (simp add: mmu_translate_def cr3 pde assms(8) [symmetric] fa)
  moreover have "paging_map_virtual_page p va s = Inr (?a, t)"
    using paging_map_virtual_page_eq [OF pmm_alloc_page_found [OF assms(1,3,4)]] by (simp add: t_def)
  moreover have "pmm t = mark_page k (pmm s)" by (simp add: t_def put_pte_def wr_def)
  ultimately show ?thesis using r by auto
qed

lemma example_pool_first: "page_free example_pool 1" "\<forall>l<1. \<not> page_free example_pool l"
  "page_addr example_pool 1 = 0x201000"
  by (simp_all add: page_free_def pool_size_def page_addr_def PAGE_SIZE_def example_pool_def bit_1_iff)

theorem paging_map_virtual_page_maps_witness:
  "\<forall>s :: paging_state. \<exists>t. paging_map_virtual_page 0xC0301000 0xC0005123
      (s\<lparr>pmm := example_pool, cr3 := 0x300000, mem := store32 (\<lambda>_. 0) 0xC0300C00 0x301003\<rparr>)
      = Inr (0x201000, t) \<and> mmu_translate t 0xC0005123 = Some 0x201123"
proof
  fix s :: paging_state
  let ?s = "s\<lparr>pmm := example_pool, cr3 := 0x300000, mem := store32 (\<lambda>_. 0) 0xC0300C00 0x301003\<rparr>"
  have i: "PAGE_DIRECTORY_INDEX 0xC0005123 = 0x300" by (simp add: unat_PAGE_DIRECTORY_INDEX)
  have pde: "get_pde (P2V_ADDR (cr3 ?s)) 0x300 ?s = pde_of_word 0x301003"
    by (simp add: get_pde_def rd_def slot_def P2V_ADDR_def KERNEL_VIRT_BASE_def)
  have present: "pde_present (pde_of_word 0x301003)" by (simp add: bit_0)
  have addr: "0xC0301000 = P2V_ADDR (frame_addr (pde_phys_addr (pde_of_word 0x301003)))"
    by (simp add: pde_of_word_def frame_addr_def P2V_ADDR_def KERNEL_VIRT_BASE_def)
  have "\<exists>t. paging_map_virtual_page 0xC0301000 0xC0005123 ?s = Inr (page_addr (pmm ?s) 1, t) \<and>
    pmm t = mark_page 1 (pmm ?s) \<and>
    mmu_translate t 0xC0005123 = Some (page_addr (pmm ?s) 1 OR (0xC0005123 AND 0xFFF)) \<and>
    (\<forall>q i. page_aligned q \<and> i < 1024 \<and> (q, i) \<noteq> (0xC0301000, PAGE_TABLE_INDEX 0xC0005123) \<longrightarrow>
       rd (slot q i) t = rd (slot q i) ?s)"
    by (rule paging_map_virtual_page_maps, unfold i pde)
      (simp_all add: example_pool_facts example_pool_first present addr [symmetric] del: One_nat_def,
       simp_all add: page_aligned_def P2V_ADDR_def KERNEL_VIRT_BASE_def)
  then show "\<exists>t. paging_map_virtual_page 0xC0301000 0xC0005123 ?s = Inr (0x201000, t) \<and>
      mmu_translate t 0xC0005123 = Some 0x201123"
    by (auto simp: example_pool_first simp del: One_nat_def)
qed

end
