(* ===== verification/Kmalloc.thy ===== *)
theory Kmalloc
  imports Paging
begin

text \<open>
  The kernel heap, \<^verbatim>\<open>kernel/memory/kmalloc.c\<close>: a list of free blocks threaded through the byte
  memory, as in the allocator of Kernighan and Ritchie. This theory holds the parts that do not
  need more pages: the search, the split, \<^verbatim>\<open>kfree\<close> and the coalescing. The routine \<^verbatim>\<open>kmalloc\<close>
  itself calls the virtual page allocator and is called by it; the two are in the theory \<open>Vmm\<close>.
  The abstract heap is the list of address and size of the free blocks, sorted by address.
\<close>

section \<open>State and layout\<close>

record kmalloc_state = paging_state +
  block_list_head :: u32
  block_list_tail :: u32

text \<open>
  A \<^verbatim>\<open>struct memory_block\<close> at address \<open>b\<close> has its fields \<^verbatim>\<open>size\<close>, \<^verbatim>\<open>next_block\<close> and \<^verbatim>\<open>free_memory\<close> at
  \<open>b\<close>, \<open>b + 4\<close> and \<open>b + 8\<close>. The header counts only the first two.
\<close>

definition BLOCK_HEADER_SIZE :: u32 where
  "BLOCK_HEADER_SIZE = 8"

definition SMALLEST_BLOCK_SIZE :: u32 where
  "SMALLEST_BLOCK_SIZE = 32"

section \<open>Operations\<close>

definition kmalloc_split_block :: "u32 \<Rightarrow> u32 \<Rightarrow> 'a machine_scheme \<Rightarrow> u32 \<times> 'a machine_scheme" where
  "kmalloc_split_block block alloc_size s =
     (let new_block = block + rd block s - (alloc_size + BLOCK_HEADER_SIZE);
          s = wr new_block (alloc_size + BLOCK_HEADER_SIZE) s;
          s = wr (new_block + 4) 0 s;
          s = wr (new_block + 8) (BLOCK_HEADER_SIZE + new_block) s;
          s = wr block (rd block s - rd new_block s) s
      in (rd (new_block + 8) s, s))"

text \<open>Unlinking block \<open>b\<close>, the successor of \<open>a\<close>, and adding its size to \<open>a\<close>.\<close>

definition absorb :: "u32 \<Rightarrow> u32 \<Rightarrow> 'a machine_scheme \<Rightarrow> 'a machine_scheme" where
  "absorb a b s =
     (let s = wr (a + 4) (rd (b + 4) s) s
      in wr a (rd a s + rd b s) s)"

definition kmalloc_coalesce :: "u32 \<Rightarrow> u32 \<Rightarrow> u32 \<Rightarrow> 'a kmalloc_state_scheme \<Rightarrow> 'a kmalloc_state_scheme" where
  "kmalloc_coalesce prev_block new_block next_block s =
     (let s = (if next_block \<noteq> 0 \<and> next_block = new_block + rd new_block s then
                 (let s = absorb new_block next_block s
                  in if block_list_tail s = next_block then s\<lparr>block_list_tail := new_block\<rparr> else s)
               else s)
      in if prev_block \<noteq> 0 \<and> new_block = prev_block + rd prev_block s
         then absorb prev_block new_block s
         else s)"

definition kmalloc_init :: "symbols \<Rightarrow> 'a kmalloc_state_scheme \<Rightarrow> 'a kmalloc_state_scheme" where
  "kmalloc_init L s =
     (let s = s\<lparr>block_list_head := sym_kmalloc_init_block L\<rparr>;
          s = wr (block_list_head s) 4096 s;
          s = wr (block_list_head s + 4) 0 s;
          s = wr (block_list_head s + 8) (BLOCK_HEADER_SIZE + sym_kmalloc_init_block L) s
      in s\<lparr>block_list_tail := block_list_head s\<rparr>)"

text \<open>
  The search of \<^verbatim>\<open>kmalloc\<close>: the first block of the list with enough memory, or NULL. \<^const>\<open>None\<close>
  when the list is circular and the loop never ends.
\<close>

partial_function (option) kmalloc_find :: "bytes \<Rightarrow> u32 \<Rightarrow> u32 \<Rightarrow> u32 option" where
  "kmalloc_find m alloc_size block =
     (if block = 0 then Some 0
      else if alloc_size \<le> load32 m block - BLOCK_HEADER_SIZE then Some block
      else kmalloc_find m alloc_size (load32 m (block + 4)))"

text \<open>The size a request is rounded up to.\<close>

definition kmalloc_alloc_size :: "u32 \<Rightarrow> u32" where
  "kmalloc_alloc_size sz = push_bit 3 (drop_bit 3 (sz + 7))"

text \<open>
  What \<^verbatim>\<open>kmalloc\<close> does with the free list: the pointer it takes from the block the search found, or
  NULL without one.
\<close>

definition kmalloc_take :: "u32 \<Rightarrow> 'a kmalloc_state_scheme \<Rightarrow> (u32 \<times> 'a kmalloc_state_scheme) option" where
  "kmalloc_take alloc_size s =
     (case kmalloc_find (mem s) alloc_size (block_list_head s) of
        None \<Rightarrow> None
      | Some block \<Rightarrow>
          if block = 0 then Some (0, s)
          else
            let free_mem_in_block = rd block s - BLOCK_HEADER_SIZE;
                mem_left_over = free_mem_in_block - alloc_size
            in if mem_left_over \<ge> SMALLEST_BLOCK_SIZE
               then Some (kmalloc_split_block block alloc_size s)
               else Some (rd (block + 8) s, s))"

text \<open>The new page becomes a block after the last one; NULL is returned all the same.\<close>

definition kmalloc_grow :: "u32 \<Rightarrow> 'a kmalloc_state_scheme \<Rightarrow> ('a kmalloc_state_scheme, u32) result" where
  "kmalloc_grow new_free_block s =
     (let s = wr new_free_block PAGE_SIZE s;
          s = wr (new_free_block + 8) (new_free_block + BLOCK_HEADER_SIZE) s;
          s = wr (new_free_block + 4) 0 s
      in if block_list_tail s = 0 then Inl (Undefined, s)
         else Inr (0, wr (block_list_tail s + 4) new_free_block s))"

text \<open>The search of \<^verbatim>\<open>kfree\<close>: the block after which the freed one belongs, or NULL.\<close>

partial_function (option) kfree_find :: "bytes \<Rightarrow> u32 \<Rightarrow> u32 \<Rightarrow> u32 option" where
  "kfree_find m new_block block =
     (if block = 0 then Some 0
      else if block < new_block \<and> (load32 m (block + 4) > new_block \<or> load32 m (block + 4) = 0)
      then Some block
      else kfree_find m new_block (load32 m (block + 4)))"

definition kfree :: "u32 \<Rightarrow> 'a kmalloc_state_scheme \<Rightarrow> ('a kmalloc_state_scheme, unit) result" where
  "kfree ptr s =
     (if ptr = 0 then Inr ((), s)
      else
        let new_block = ptr - BLOCK_HEADER_SIZE in
        case (if new_block < block_list_head s then Some (0, block_list_head s)
              else case kfree_find (mem s) new_block (block_list_head s) of
                     None \<Rightarrow> None
                   | Some prev \<Rightarrow> Some (prev, if prev = 0 then 0 else rd (prev + 4) s)) of
          None \<Rightarrow> Inl (Spin, s)
        | Some (prev_block, next_block) \<Rightarrow>
            (let s = (if prev_block = 0 then
                        (wr (new_block + 4) next_block s)\<lparr>block_list_head := new_block\<rparr>
                      else if next_block = 0 then
                        (wr (new_block + 4) 0 (wr (prev_block + 4) new_block s))
                          \<lparr>block_list_tail := new_block\<rparr>
                      else wr (new_block + 4) next_block (wr (prev_block + 4) new_block s))
             in Inr ((), kmalloc_coalesce prev_block new_block next_block s)))"

section \<open>The abstract heap\<close>

text \<open>The list of blocks from \<open>p\<close> to \<open>q\<close> that the memory holds, with their sizes.\<close>

fun chain :: "bytes \<Rightarrow> u32 \<Rightarrow> (u32 \<times> u32) list \<Rightarrow> u32 \<Rightarrow> bool" where
  "chain m p [] q \<longleftrightarrow> p = q"
| "chain m p ((b, sz) # bs) q \<longleftrightarrow> p = b \<and> load32 m b = sz \<and> chain m (load32 m (b + 4)) bs q"

text \<open>
  A block is 8-byte aligned, not at NULL, has room for its header and one more unit, and does not
  run over the end of the address space; the blocks are sorted and do not overlap.
\<close>

definition block_ok :: "u32 \<times> u32 \<Rightarrow> bool" where
  "block_ok x \<longleftrightarrow> (case x of (b, sz) \<Rightarrow> b \<noteq> 0 \<and> unat b mod 8 = 0 \<and> unat sz mod 8 = 0 \<and> 16 \<le> unat sz \<and>
     unat b + unat sz < 2 ^ 32)"

definition below :: "u32 \<times> u32 \<Rightarrow> u32 \<times> u32 \<Rightarrow> bool" where
  "below x y \<longleftrightarrow> unat (fst x) + unat (snd x) \<le> unat (fst y)"

definition heap_ok :: "(u32 \<times> u32) list \<Rightarrow> bool" where
  "heap_ok bs \<longleftrightarrow> (\<forall>x\<in>set bs. block_ok x) \<and> sorted_wrt below bs"

definition heap :: "(u32 \<times> u32) list \<Rightarrow> 'a kmalloc_state_scheme \<Rightarrow> bool" where
  "heap bs s \<longleftrightarrow> heap_ok bs \<and> chain (mem s) (block_list_head s) bs 0"

text \<open>Adding a block to the list and merging it with the neighbours it touches.\<close>

definition join :: "u32 \<times> u32 \<Rightarrow> (u32 \<times> u32) list \<Rightarrow> (u32 \<times> u32) list" where
  "join x ys = (case ys of
       [] \<Rightarrow> [x]
     | y # zs \<Rightarrow> if fst x + snd x = fst y then (fst x, snd x + snd y) # zs else x # ys)"

fun free_block :: "u32 \<times> u32 \<Rightarrow> (u32 \<times> u32) list \<Rightarrow> (u32 \<times> u32) list" where
  "free_block x [] = [x]"
| "free_block x (y # ys) =
     (if fst x < fst y then join x (y # ys)
      else if ys = [] \<or> fst x < fst (hd ys) then join y (join x ys)
      else y # free_block x ys)"

text \<open>The first block with enough memory, and the blocks before and after it.\<close>

definition fits :: "u32 \<Rightarrow> u32 \<times> u32 \<Rightarrow> bool" where
  "fits n x \<longleftrightarrow> n \<le> snd x - BLOCK_HEADER_SIZE"

text \<open>How many bytes the free blocks have in total.\<close>

definition free_bytes :: "(u32 \<times> u32) list \<Rightarrow> nat" where
  "free_bytes bs = sum_list (map (\<lambda>x. unat (snd x)) bs)"

section \<open>Chains\<close>

lemma chain_append: "chain m p (xs @ ys) r \<longleftrightarrow> (\<exists>q. chain m p xs q \<and> chain m q ys r)"
  by (induction m p xs r rule: chain.induct) auto

lemma aligned8_cells:
  fixes a :: u32
  assumes "unat a mod 8 = 0"
  shows "aligned4 a" "aligned4 (a + 4)"
proof -
  from assms show "aligned4 a" by (simp add: aligned4_def) presburger
  then show "aligned4 (a + 4)" by (rule aligned4_add) (simp add: aligned4_def)
qed

lemma aligned8_add4:
  fixes a :: u32
  assumes "unat a mod 8 = 0"
  shows "unat (a + 4) = unat a + 4"
proof -
  from assms obtain k where "unat a = 8 * k" by auto
  with unat_less_u32 [of a] show ?thesis by (simp add: unat_word_ariths)
qed

lemma aligned8_distinct:
  fixes a b :: u32
  assumes "unat a mod 8 = 0" "unat b mod 8 = 0"
  shows "a + 4 \<noteq> b"
proof
  assume "a + 4 = b"
  then have "unat b = unat a + 4" using aligned8_add4 [OF assms(1)] by simp
  with assms show False by presburger
qed

lemma chain_store_other:
  assumes "aligned4 x" "\<And>b sz. (b, sz) \<in> set bs \<Longrightarrow> unat b mod 8 = 0 \<and> x \<noteq> b \<and> x \<noteq> b + 4"
  shows "chain (store32 m x v) p bs q \<longleftrightarrow> chain m p bs q"
  using assms(2)
proof (induction bs arbitrary: p)
  case Nil
  then show ?case by simp
next
  case (Cons y bs)
  obtain b sz where y: "y = (b, sz)" by fastforce
  from Cons.prems [of b sz] have "unat b mod 8 = 0" "x \<noteq> b" "x \<noteq> b + 4" by (auto simp: y)
  with assms(1) have "load32 (store32 m x v) b = load32 m b"
    "load32 (store32 m x v) (b + 4) = load32 m (b + 4)"
    by (simp_all add: load32_store32_apart aligned4_apart32 aligned8_cells)
  moreover have "chain (store32 m x v) p bs q \<longleftrightarrow> chain m p bs q" for p
    using Cons by auto
  ultimately show ?case by (simp add: y)
qed

text \<open>Replacing the successor, or the size, of the last block of a chain.\<close>

lemma chain_snoc: "chain m p (xs @ [(b, sz)]) q \<longleftrightarrow>
    chain m p xs b \<and> load32 m b = sz \<and> load32 m (b + 4) = q"
  by (auto simp: chain_append)

lemma heap_ok_append: "heap_ok (xs @ ys) \<longleftrightarrow>
    heap_ok xs \<and> heap_ok ys \<and> (\<forall>x\<in>set xs. \<forall>y\<in>set ys. below x y)"
  by (auto simp: heap_ok_def sorted_wrt_append)

lemma heap_ok_Cons: "heap_ok (x # xs) \<longleftrightarrow> block_ok x \<and> heap_ok xs \<and> (\<forall>y\<in>set xs. below x y)"
  by (auto simp: heap_ok_def)

lemma heap_ok_Nil [simp]: "heap_ok []"
  by (simp add: heap_ok_def)

lemma below_neq: "block_ok x \<Longrightarrow> below x y \<Longrightarrow> fst x \<noteq> fst y"
  by (auto simp: block_ok_def below_def split: prod.splits)

lemma below_less: "block_ok x \<Longrightarrow> below x y \<Longrightarrow> fst x < fst y"
  by (auto simp: block_ok_def below_def word_less_nat_alt split: prod.splits)

lemma block_ok_aligned: "block_ok (b, sz) \<Longrightarrow> unat b mod 8 = 0"
  by (simp add: block_ok_def)

text \<open>Header cells of different blocks are different.\<close>

lemma chain_store_header:
  assumes "unat a mod 8 = 0" "x = a \<or> x = a + 4" "heap_ok bs" "a \<notin> fst ` set bs"
  shows "chain (store32 m x v) p bs q \<longleftrightarrow> chain m p bs q"
proof (rule chain_store_other)
  show "aligned4 x" using aligned8_cells [OF assms(1)] assms(2) by auto
  fix b sz assume b: "(b, sz) \<in> set bs"
  then have "unat b mod 8 = 0" using assms(3) by (auto simp: heap_ok_def dest: block_ok_aligned)
  moreover have "a \<noteq> b" using assms(4) b by force
  ultimately show "unat b mod 8 = 0 \<and> x \<noteq> b \<and> x \<noteq> b + 4"
    using assms(1,2) aligned8_distinct by (metis add_right_cancel)
qed

lemma fst_notin_above:
  assumes "block_ok x" "\<forall>y\<in>set ys. below x y"
  shows "fst x \<notin> fst ` set ys"
  using assms below_neq by fastforce

lemma fst_notin_below:
  assumes "heap_ok xs" "\<forall>y\<in>set xs. below y x"
  shows "fst x \<notin> fst ` set xs"
proof
  assume "fst x \<in> fst ` set xs"
  then obtain y where "y \<in> set xs" "fst y = fst x" by auto
  with assms show False by (metis below_neq heap_ok_def)
qed

lemma load_store_header:
  assumes "unat a mod 8 = 0" "unat b mod 8 = 0"
  shows "load32 (store32 m a v) b = (if a = b then v else load32 m b)"
    "load32 (store32 m a v) (b + 4) = load32 m (b + 4)"
    "load32 (store32 m (a + 4) v) b = load32 m b"
    "load32 (store32 m (a + 4) v) (b + 4) = (if a = b then v else load32 m (b + 4))"
proof -
  note c = aligned8_cells [OF assms(1)] aligned8_cells [OF assms(2)]
  show "load32 (store32 m a v) b = (if a = b then v else load32 m b)"
    using c by (simp add: load32_store32_apart aligned4_apart32)
  show "load32 (store32 m a v) (b + 4) = load32 m (b + 4)"
    by (intro load32_store32_apart aligned4_apart32 c not_sym [OF aligned8_distinct [OF assms(2,1)]])
  show "load32 (store32 m (a + 4) v) b = load32 m b"
    by (intro load32_store32_apart aligned4_apart32 c aligned8_distinct [OF assms])
  show "load32 (store32 m (a + 4) v) (b + 4) = (if a = b then v else load32 m (b + 4))"
    using c by (simp add: load32_store32_apart aligned4_apart32)
qed

text \<open>Resizing a block, and linking it to another successor.\<close>

lemma chain_resize:
  assumes "chain m p (xs @ (b, sz) # ys) r" "heap_ok (xs @ (b, sz) # ys)"
  shows "chain (store32 m b sz') p (xs @ (b, sz') # ys) r"
proof -
  have ok: "heap_ok xs" "heap_ok ys" "block_ok (b, sz)" "b \<notin> fst ` set xs" "b \<notin> fst ` set ys"
    using assms(2) fst_notin_above [of "(b, sz)" ys] fst_notin_below [of xs "(b, sz)"]
    by (simp_all add: heap_ok_append heap_ok_Cons)
  note b = block_ok_aligned [OF ok(3)]
  show ?thesis
    using assms(1) b by (auto simp: chain_append chain_store_header [OF b] ok load_store_header)
qed

lemma chain_relink:
  assumes "chain m p (xs @ [(b, sz)]) q" "heap_ok (xs @ [(b, sz)])"
  shows "chain (store32 m (b + 4) r) p (xs @ [(b, sz)]) r"
proof -
  have ok: "heap_ok xs" "block_ok (b, sz)" "b \<notin> fst ` set xs"
    using assms(2) fst_notin_below [of xs "(b, sz)"]
    by (simp_all add: heap_ok_append heap_ok_Cons)
  note b = block_ok_aligned [OF ok(2)]
  show ?thesis
    using assms(1) b by (auto simp: chain_snoc chain_store_header [OF b] ok load_store_header)
qed

text \<open>Merging a block with its successor in the list.\<close>

lemma chain_merge:
  assumes "chain m p (xs @ (a, as) # (b, bs) # ys) r" "heap_ok (xs @ (a, as) # (b, bs) # ys)"
  shows "chain (store32 (store32 m (a + 4) (load32 m (b + 4))) a (as + bs)) p (xs @ (a, as + bs) # ys) r"
proof -
  have ok: "heap_ok (xs @ [(a, as)])" "heap_ok ys" "block_ok (a, as)" "block_ok (b, bs)"
    "a \<notin> fst ` set ys" "heap_ok (xs @ (a, as) # ys)"
    using assms(2) fst_notin_above [of "(a, as)" ys] by (auto simp: heap_ok_append heap_ok_Cons)
  note a = block_ok_aligned [OF ok(3)]
  have "chain m p (xs @ [(a, as)]) b" "chain m (load32 m (b + 4)) ys r"
    using assms(1) by (auto simp: chain_append)
  then have "chain (store32 m (a + 4) (load32 m (b + 4))) p ((xs @ [(a, as)]) @ ys) r"
    unfolding chain_append [of _ _ "xs @ [(a, as)]"]
    using chain_relink [OF _ ok(1)] chain_store_header [OF a _ ok(2,5)] by blast
  then show ?thesis using chain_resize [OF _ ok(6)] by simp
qed

section \<open>The searches\<close>

lemma kmalloc_find_chain:
  assumes "chain m p bs 0" "\<forall>x\<in>set bs. fst x \<noteq> 0"
  shows "kmalloc_find m n p = Some (case find (fits n) bs of None \<Rightarrow> 0 | Some x \<Rightarrow> fst x)"
  using assms
proof (induction bs arbitrary: p)
  case Nil
  then show ?case by (simp add: kmalloc_find.simps)
next
  case (Cons x bs)
  obtain b sz where x: "x = (b, sz)" by fastforce
  with Cons.prems have "p = b" "b \<noteq> 0" "load32 m b = sz" "chain m (load32 m (b + 4)) bs 0" by auto
  moreover have "fits n x \<longleftrightarrow> n \<le> sz - BLOCK_HEADER_SIZE" by (simp add: x fits_def)
  ultimately show ?case
    using Cons by (subst kmalloc_find.simps) (simp add: x)
qed

lemma kfree_find_chain:
  assumes "chain m p (lo @ (a, sz) # hi) 0" "\<forall>x\<in>set (lo @ [(a, sz)]). fst x \<noteq> 0 \<and> fst x < b"
    "\<forall>x\<in>set hi. b < fst x"
  shows "kfree_find m b p = Some a"
  using assms
proof (induction lo arbitrary: p)
  case Nil
  then have "load32 m (a + 4) = 0 \<or> b < load32 m (a + 4)" by (cases hi) auto
  with Nil show ?case by (subst kfree_find.simps) auto
next
  case (Cons x lo)
  obtain c cs where x: "x = (c, cs)" by fastforce
  let ?q = "load32 m (c + 4)"
  have q: "chain m ?q (lo @ (a, sz) # hi) 0" "p = c" "c \<noteq> 0" using Cons.prems x by auto
  then have "?q \<noteq> 0 \<and> ?q < b" using Cons.prems(2) by (cases lo) auto
  with q Cons show ?case
    by (subst kfree_find.simps) auto
qed

section \<open>Freeing\<close>

lemma heap_ok_join:
  assumes "heap_ok (xs @ x # ys)"
  shows "heap_ok (xs @ join x ys)"
proof (cases ys)
  case Nil
  with assms show ?thesis by (simp add: join_def)
next
  case (Cons y zs)
  show ?thesis
  proof (cases "fst x + snd x = fst y")
    case False
    with assms Cons show ?thesis by (simp add: join_def)
  next
    case True
    have ok: "block_ok x" "block_ok y" "heap_ok xs" "heap_ok zs" "\<forall>z\<in>set zs. below y z"
      "\<forall>w\<in>set xs. below w x \<and> (\<forall>z\<in>set zs. below w z)"
      using assms Cons by (auto simp: heap_ok_append heap_ok_Cons)
    have "unat (fst y) = unat (fst x) + unat (snd x)"
      using True ok(1) by (cases x) (auto simp: block_ok_def unat_word_ariths simp flip: True)
    moreover from this have "unat (snd x + snd y) = unat (snd x) + unat (snd y)"
      using ok(2) by (cases y) (auto simp: block_ok_def unat_word_ariths)
    ultimately have "block_ok (fst x, snd x + snd y)" "\<forall>z\<in>set zs. below (fst x, snd x + snd y) z"
      using ok by (auto simp: block_ok_def below_def split: prod.splits)
    with ok True Cons show ?thesis
      by (auto simp: join_def heap_ok_append heap_ok_Cons below_def)
  qed
qed

lemma free_block_split:
  assumes "heap_ok (lo @ x # hi)"
  shows "free_block x (lo @ hi) = (if lo = [] then join x hi else butlast lo @ join (last lo) (join x hi))"
  using assms
proof (induction lo)
  case Nil
  then have "hi \<noteq> [] \<Longrightarrow> fst x < fst (hd hi)" by (cases hi) (auto simp: heap_ok_Cons below_less)
  then show ?case by (cases hi) (auto simp: join_def)
next
  case (Cons y lo)
  have y: "fst y < fst x" using Cons.prems by (simp add: heap_ok_Cons below_less)
  show ?case
  proof (cases lo)
    case Nil
    have "hi \<noteq> [] \<Longrightarrow> fst x < fst (hd hi)"
      using Cons.prems by (cases hi) (auto simp: heap_ok_Cons heap_ok_append below_less)
    with Nil y show ?thesis by (cases hi) (auto simp: not_less)
  next
    case (Cons z lo')
    have "fst z < fst x" using Cons.prems Cons by (simp add: heap_ok_Cons below_less)
    with Cons y Cons.IH Cons.prems show ?thesis by (auto simp: heap_ok_Cons)
  qed
qed

lemma kmalloc_coalesce_frame [simp]:
  "block_list_head (kmalloc_coalesce p b n s) = block_list_head s"
  by (simp add: kmalloc_coalesce_def absorb_def Let_def wr_def)

text \<open>The two halves of \<^verbatim>\<open>kmalloc_coalesce\<close> do the same thing to different neighbours.\<close>

definition try_absorb :: "u32 \<Rightarrow> u32 \<Rightarrow> 'a machine_scheme \<Rightarrow> 'a machine_scheme" where
  "try_absorb a b s = (if a \<noteq> 0 \<and> b \<noteq> 0 \<and> b = a + rd a s then absorb a b s else s)"

lemma mem_absorb:
  assumes "unat a mod 8 = 0" "unat b mod 8 = 0"
  shows "mem (absorb a b s) = store32 (store32 (mem s) (a + 4) (load32 (mem s) (b + 4))) a
    (load32 (mem s) a + load32 (mem s) b)"
  using load_store_header(3) [OF assms(1)] assms by (simp add: absorb_def Let_def rd_def wr_def)

lemma rd_tail [simp]: "rd a (s\<lparr>block_list_tail := x\<rparr>) = rd a s" "rd a (s\<lparr>block_list_head := x\<rparr>) = rd a s"
  by (simp_all add: rd_def)

lemma absorb_tail: "absorb a b (s\<lparr>block_list_tail := x\<rparr>) = (absorb a b s)\<lparr>block_list_tail := x\<rparr>"
  by (simp add: absorb_def Let_def wr_def rd_def)

lemma mem_kmalloc_coalesce:
  assumes "b \<noteq> 0"
  shows "mem (kmalloc_coalesce prv b nxt s) = mem (try_absorb prv b (try_absorb b nxt s))"
proof -
  let ?u = "try_absorb b nxt s"
  define v where "v = (if nxt \<noteq> 0 \<and> nxt = b + rd b s
    then let s = absorb b nxt s in if block_list_tail s = nxt then s\<lparr>block_list_tail := b\<rparr> else s
    else s)"
  have v: "v = ?u \<or> v = ?u\<lparr>block_list_tail := b\<rparr>"
    using assms by (simp add: v_def try_absorb_def Let_def)
  have "kmalloc_coalesce prv b nxt s = (if prv \<noteq> 0 \<and> b = prv + rd prv v then absorb prv b v else v)"
    unfolding kmalloc_coalesce_def v_def Let_def ..
  moreover have "try_absorb prv b ?u = (if prv \<noteq> 0 \<and> b = prv + rd prv ?u then absorb prv b ?u else ?u)"
    using assms by (simp add: try_absorb_def [of prv])
  ultimately show ?thesis using v by (elim disjE) (simp_all add: absorb_tail)
qed

lemma chain_join:
  assumes "chain (mem s) p (xs @ x # ys) 0" "heap_ok (xs @ x # ys)"
    "nxt = (if ys = [] then 0 else fst (hd ys))"
  shows "chain (mem (try_absorb (fst x) nxt s)) p (xs @ join x ys) 0"
proof (cases ys)
  case Nil
  with assms show ?thesis by (simp add: join_def try_absorb_def)
next
  case (Cons y zs)
  obtain a as b bs where xy: "x = (a, as)" "y = (b, bs)" by fastforce
  have ok: "block_ok (a, as)" "block_ok (b, bs)"
    using assms(2) Cons xy by (simp_all add: heap_ok_append heap_ok_Cons)
  then have "a \<noteq> 0" "b \<noteq> 0" by (simp_all add: block_ok_def)
  moreover have "load32 (mem s) a = as" "load32 (mem s) b = bs"
    using assms(1) Cons xy by (auto simp: chain_append)
  moreover have "chain (store32 (store32 (mem s) (a + 4) (load32 (mem s) (b + 4))) a (as + bs)) p
      (xs @ (a, as + bs) # zs) 0"
    using assms(1,2) by (intro chain_merge) (simp_all add: Cons xy)
  ultimately show ?thesis
    using assms(1,3)
    by (simp add: try_absorb_def Cons xy join_def mem_absorb ok [THEN block_ok_aligned] rd_def)
qed

lemma join_hd: "join x hi \<noteq> []" "fst (hd (join x hi)) = fst x"
  by (simp_all add: join_def split: list.splits)

lemma kmalloc_coalesce_chain:
  assumes "chain (mem s) p (lo @ x # hi) 0" "heap_ok (lo @ x # hi)"
    "prv = (if lo = [] then 0 else fst (last lo))" "nxt = (if hi = [] then 0 else fst (hd hi))"
  shows "chain (mem (kmalloc_coalesce prv (fst x) nxt s)) p (free_block x (lo @ hi)) 0"
proof -
  let ?u = "try_absorb (fst x) nxt s"
  have u: "chain (mem ?u) p (lo @ join x hi) 0" "heap_ok (lo @ join x hi)"
    by (rule chain_join [OF assms(1,2,4)], rule heap_ok_join [OF assms(2)])
  have "fst x \<noteq> 0" using assms(2) by (auto simp: heap_ok_append heap_ok_Cons block_ok_def)
  moreover have "chain (mem (try_absorb prv (fst x) ?u)) p (free_block x (lo @ hi)) 0"
  proof (cases "lo = []")
    case True
    with u(1) assms(3) free_block_split [OF assms(2)] show ?thesis by (simp add: try_absorb_def)
  next
    case False
    then have eq: "lo @ join x hi = butlast lo @ last lo # join x hi" by simp
    have "fst x = (if join x hi = [] then 0 else fst (hd (join x hi)))" by (simp add: join_hd)
    from chain_join [OF u [unfolded eq] this] show ?thesis
      using False assms(3) free_block_split [OF assms(2)] by simp
  qed
  ultimately show ?thesis by (simp add: mem_kmalloc_coalesce)
qed

text \<open>What the order of the list says about a block and those before and after it.\<close>

lemma heap_ok_middle:
  assumes "heap_ok (lo @ (b, sz) # hi)"
  shows "heap_ok lo" "heap_ok hi" "block_ok (b, sz)" "unat b mod 8 = 0" "b \<noteq> 0"
    "b \<notin> fst ` set lo" "b \<notin> fst ` set hi" "\<forall>y\<in>set lo. fst y < b" "\<forall>y\<in>set hi. b < fst y"
proof -
  show ok: "heap_ok lo" "heap_ok hi" "block_ok (b, sz)"
    using assms by (simp_all add: heap_ok_append heap_ok_Cons)
  then show "unat b mod 8 = 0" "b \<noteq> 0" by (simp_all add: block_ok_def)
  have bl: "\<forall>y\<in>set lo. below y (b, sz)" "\<forall>y\<in>set hi. below (b, sz) y"
    using assms by (simp_all add: heap_ok_append heap_ok_Cons)
  then show "b \<notin> fst ` set lo" "b \<notin> fst ` set hi"
    using fst_notin_below [OF ok(1) bl(1)] fst_notin_above [OF ok(3) bl(2)] by simp_all
  show "\<forall>y\<in>set lo. fst y < b"
    using bl(1) ok(1) below_less by (fastforce simp: heap_ok_def)
  show "\<forall>y\<in>set hi. b < fst y"
    using bl(2) ok(3) below_less by fastforce
qed

text \<open>The list after the freed block is linked in, before it is merged.\<close>

lemma kfree_link:
  assumes "chain (mem s) (block_list_head s) (lo @ hi) 0" "heap_ok (lo @ x # hi)"
    "rd (fst x) s = snd x"
  defines "prv \<equiv> if lo = [] then 0 else fst (last lo)"
    and "nxt \<equiv> if hi = [] then 0 else fst (hd hi)"
  shows "\<exists>t. kfree (fst x + BLOCK_HEADER_SIZE) s = Inr ((), kmalloc_coalesce prv (fst x) nxt t) \<and>
    chain (mem t) (block_list_head t) (lo @ x # hi) 0"
proof -
  obtain b sz where x: "x = (b, sz)" by fastforce
  note ok = heap_ok_middle [OF assms(2) [unfolded x]]
  note b = ok(4)
  have "unat (b + BLOCK_HEADER_SIZE) = unat b + 8"
    using ok(3) by (simp add: block_ok_def BLOCK_HEADER_SIZE_def unat_word_ariths)
  then have ptr: "b + BLOCK_HEADER_SIZE \<noteq> 0" by auto
  show ?thesis
  proof (cases "lo = []")
    case True
    then have hd: "block_list_head s = nxt" "hi \<noteq> [] \<longrightarrow> b < nxt" "kfree_find (mem s) b 0 = Some 0"
      using assms(1) ok(9) by (cases hi; auto simp: nxt_def kfree_find.simps)+
    let ?t = "(wr (b + 4) nxt s)\<lparr>block_list_head := b\<rparr>"
    have "kfree (b + BLOCK_HEADER_SIZE) s = Inr ((), kmalloc_coalesce 0 b nxt ?t)"
      using ptr hd by (cases "hi = []") (simp_all add: kfree_def nxt_def)
    moreover have "chain (mem ?t) b ((b, sz) # hi) 0"
      using assms(1,3) True hd(1) b
      by (simp add: x wr_def rd_def load_store_header chain_store_header [OF b _ ok(2,7)])
    ultimately show ?thesis using True by (auto simp: prv_def x)
  next
    case False
    then obtain lo' a as where lo: "lo = lo' @ [(a, as)]" by (metis append_butlast_last_id surj_pair)
    let ?t = "wr (b + 4) nxt (wr (a + 4) b s)"
    have seg: "chain (mem s) (block_list_head s) lo nxt" "chain (mem s) nxt hi 0" "rd (a + 4) s = nxt"
      using assms(1) by (cases hi; auto simp: chain_append lo nxt_def rd_def)+
    have "heap_ok (lo' @ (a, as) # (b, sz) # hi)" using assms(2) by (simp add: lo x)
    note oka = heap_ok_middle [OF this]
    have "block_list_head s = fst (hd lo)" using assms(1) by (cases lo') (auto simp: lo)
    then have "\<not> b < block_list_head s" using ok(8) False by (simp add: not_less order_less_imp_le)
    moreover have "kfree_find (mem s) b (block_list_head s) = Some a"
      using assms(1) ok(8,9) ok(1)
      by (intro kfree_find_chain [of _ _ lo' a as hi]) (auto simp: lo heap_ok_def block_ok_def)
    moreover define t where "t = (if nxt = 0 then ?t\<lparr>block_list_tail := b\<rparr> else ?t)"
    ultimately have "kfree (b + BLOCK_HEADER_SIZE) s = Inr ((), kmalloc_coalesce a b nxt t)"
      using ptr oka(5) seg(3) by (simp add: kfree_def)
    moreover have "chain (mem t) (block_list_head t) (lo @ (b, sz) # hi) 0"
    proof -
      have "chain (store32 (mem s) (a + 4) b) (block_list_head s) lo b"
        using seg(1) ok(1) by (simp add: lo chain_relink)
      moreover have "chain (store32 (mem s) (a + 4) b) nxt hi 0"
        using seg(2) oka(7) by (simp add: chain_store_header [OF oka(4) _ ok(2)] image_iff)
      moreover have "load32 (mem t) b = sz" "load32 (mem t) (b + 4) = nxt"
        using assms(3) b oka(4) by (simp_all add: t_def wr_def load_store_header x rd_def)
      ultimately show ?thesis
        by (auto simp: chain_append t_def wr_def chain_store_header [OF b] ok)
    qed
    ultimately show ?thesis by (auto simp: prv_def lo x)
  qed
qed

lemma heap_ok_split:
  assumes "heap_ok bs" "block_ok x" "\<forall>y\<in>set bs. below x y \<or> below y x"
  obtains lo hi where "bs = lo @ hi" "heap_ok (lo @ x # hi)"
proof -
  have "\<exists>lo hi. bs = lo @ hi \<and> heap_ok (lo @ x # hi)"
    using assms(1,3)
  proof (induction bs)
    case Nil
    with assms(2) show ?case by (simp add: heap_ok_Cons)
  next
    case (Cons y ys)
    show ?case
    proof (cases "below x y")
      case True
      have "below x z" if "z \<in> set ys" for z
        using True Cons.prems(1) that by (fastforce simp: heap_ok_Cons below_def)
      with True Cons.prems assms(2) have "heap_ok ([] @ x # y # ys)" by (auto simp: heap_ok_Cons)
      then show ?thesis by (metis append_Nil)
    next
      case False
      from Cons obtain lo hi where s: "ys = lo @ hi" "heap_ok (lo @ x # hi)" by (auto simp: heap_ok_Cons)
      have "heap_ok ((y # lo) @ x # hi)"
        using s Cons.prems False by (auto simp: heap_ok_Cons)
      with s show ?thesis by (metis append_Cons)
    qed
  qed
  with that show ?thesis by blast
qed

lemma free_bytes_append [simp]: "free_bytes (xs @ ys) = free_bytes xs + free_bytes ys"
  by (simp add: free_bytes_def)

lemma free_bytes_join:
  assumes "heap_ok (x # ys)"
  shows "free_bytes (join x ys) = unat (snd x) + free_bytes ys"
proof (cases ys)
  case (Cons y zs)
  have ok: "block_ok x" "block_ok y" using assms Cons by (simp_all add: heap_ok_Cons)
  show ?thesis
  proof (cases "fst x + snd x = fst y")
    case True
    then have "unat (fst y) = unat (fst x) + unat (snd x)"
      using ok(1) by (cases x) (auto simp: block_ok_def unat_word_ariths simp flip: True)
    then have "unat (snd x + snd y) = unat (snd x) + unat (snd y)"
      using ok(2) by (cases y) (auto simp: block_ok_def unat_word_ariths)
    with True Cons show ?thesis by (simp add: join_def free_bytes_def)
  qed (simp add: join_def Cons free_bytes_def)
qed (simp add: join_def free_bytes_def)

lemma heap_ok_free_block:
  assumes "heap_ok (lo @ x # hi)"
  shows "heap_ok (free_block x (lo @ hi))"
proof (cases "lo = []")
  case True
  with heap_ok_join [of "[]" x hi] assms free_block_split [OF assms] show ?thesis by simp
next
  case False
  have "heap_ok (butlast lo @ last lo # join x hi)"
    using heap_ok_join [OF assms] False by (metis append.assoc append_Cons append_Nil append_butlast_last_id)
  from heap_ok_join [OF this] show ?thesis using free_block_split [OF assms] False by simp
qed

lemma free_bytes_free_block:
  assumes "heap_ok (lo @ x # hi)"
  shows "free_bytes (free_block x (lo @ hi)) = free_bytes (lo @ hi) + unat (snd x)"
proof (cases "lo = []")
  case True
  with free_bytes_join [of x hi] assms free_block_split [OF assms] show ?thesis by simp
next
  case False
  have lo: "lo = butlast lo @ [last lo]" using False by simp
  have "heap_ok (butlast lo @ last lo # join x hi)"
    using heap_ok_join [OF assms] lo by (metis append.assoc append_Cons append_Nil)
  then have "free_bytes (join (last lo) (join x hi)) = unat (snd (last lo)) + free_bytes (join x hi)"
    by (intro free_bytes_join) (simp add: heap_ok_append)
  moreover have "free_bytes (join x hi) = unat (snd x) + free_bytes hi"
    using assms by (intro free_bytes_join) (simp add: heap_ok_append)
  moreover have "free_bytes lo = free_bytes (butlast lo) + unat (snd (last lo))"
    by (subst lo) (simp add: free_bytes_def del: append_butlast_last_id)
  ultimately show ?thesis using free_block_split [OF assms] False by simp
qed

lemma kfree_refines_aux:
  assumes "heap bs s" "block_ok (b, rd b s)" "\<forall>y\<in>set bs. below (b, rd b s) y \<or> below y (b, rd b s)"
  shows "\<exists>t. kfree (b + BLOCK_HEADER_SIZE) s = Inr ((), t) \<and> heap (free_block (b, rd b s) bs) t \<and>
    free_bytes (free_block (b, rd b s) bs) = free_bytes bs + unat (rd b s)"
proof -
  let ?x = "(b, rd b s)"
  have bs: "heap_ok bs" "chain (mem s) (block_list_head s) bs 0" using assms(1) by (simp_all add: heap_def)
  obtain lo hi where sp: "bs = lo @ hi" "heap_ok (lo @ ?x # hi)"
    by (rule heap_ok_split [OF bs(1) assms(2,3)])
  let ?p = "if lo = [] then 0 else fst (last lo)" and ?n = "if hi = [] then 0 else fst (hd hi)"
  have "\<exists>t. kfree (fst ?x + BLOCK_HEADER_SIZE) s = Inr ((), kmalloc_coalesce ?p (fst ?x) ?n t) \<and>
    chain (mem t) (block_list_head t) (lo @ ?x # hi) 0"
    by (rule kfree_link) (use bs(2) sp in simp_all)
  then obtain t where t: "kfree (b + BLOCK_HEADER_SIZE) s = Inr ((), kmalloc_coalesce ?p b ?n t)"
    "chain (mem t) (block_list_head t) (lo @ ?x # hi) 0" by auto
  from kmalloc_coalesce_chain [OF t(2) sp(2) refl refl]
  have "heap (free_block ?x bs) (kmalloc_coalesce ?p b ?n t)"
    using heap_ok_free_block [OF sp(2)] by (simp add: heap_def sp(1))
  then show ?thesis using t(1) free_bytes_free_block [OF sp(2)] by (auto simp: sp(1))
qed

text \<open>
  C10: \<^verbatim>\<open>kfree\<close> of a pointer whose block overlaps no free block returns and puts exactly this block
  into the free list: the list stays sorted by address and free of overlaps, the block is merged with
  the free block that ends where it starts and with the one that starts where it ends, and the number
  of free bytes grows by the size of the block.
\<close>

theorem kfree_refines:
  assumes "heap bs s" "block_ok (b, rd b s)" "\<forall>y\<in>set bs. below (b, rd b s) y \<or> below y (b, rd b s)"
  shows "\<exists>t. kfree (b + BLOCK_HEADER_SIZE) s = Inr ((), t) \<and> heap (free_block (b, rd b s) bs) t \<and>
    heap_ok (free_block (b, rd b s) bs) \<and>
    free_bytes (free_block (b, rd b s) bs) = free_bytes bs + unat (rd b s)"
  using kfree_refines_aux [OF assms] by (auto simp: heap_def)

theorem kfree_refines_witness:
  "\<forall>s :: kmalloc_state. \<exists>t. kfree 0xC0112048 (wr 0xC0112040 0x20 (wr 0xC0112004 0
      (wr 0xC0112000 0x40 (s\<lparr>block_list_head := 0xC0112000\<rparr>)))) = Inr ((), t) \<and>
    heap [(0xC0112000, 0x60)] t"
proof
  fix s :: kmalloc_state
  let ?s = "wr 0xC0112040 0x20 (wr 0xC0112004 0 (wr 0xC0112000 0x40 (s\<lparr>block_list_head := 0xC0112000\<rparr>)))"
  have al: "unat (0xC0112040 :: u32) mod 8 = 0" "unat (0xC0112000 :: u32) mod 8 = 0" by simp_all
  note ld = load_store_header [OF al(1,1)] load_store_header [OF al(1,2)]
    load_store_header [OF al(2,1)] load_store_header [OF al(2,2)]
  have "rd 0xC0112040 ?s = 0x20" by simp
  moreover have "heap [(0xC0112000, 0x40)] ?s"
    using ld by (simp add: heap_def heap_ok_Cons block_ok_def wr_def)
  ultimately show "\<exists>t. kfree 0xC0112048 ?s = Inr ((), t) \<and> heap [(0xC0112000, 0x60)] t"
    using kfree_refines [of "[(0xC0112000, 0x40)]" ?s "0xC0112040"]
    by (simp add: block_ok_def below_def join_def BLOCK_HEADER_SIZE_def) blast
qed

section \<open>Splitting\<close>

lemma heap_ok_carve:
  assumes "heap_ok (lo @ (b, sz) # hi)" "unat n mod 8 = 0" "8 \<le> unat n" "unat n + 40 \<le> unat sz"
  shows "heap_ok (lo @ (b, sz - (n + 8)) # (b + sz - (n + 8), n + 8) # hi)"
    "unat (b + sz - (n + 8)) = unat b + unat sz - (unat n + 8)" "unat (n + 8) = unat n + 8"
    "unat (sz - (n + 8)) = unat sz - (unat n + 8)"
proof -
  have b: "unat b mod 8 = 0" "unat sz mod 8 = 0" "unat b + unat sz < 2 ^ 32" "b \<noteq> 0"
    using assms(1) by (simp_all add: heap_ok_append heap_ok_Cons block_ok_def)
  show n8: "unat (n + 8) = unat n + 8"
    using assms(4) b(3) by (simp add: unat_word_ariths)
  then show c: "unat (sz - (n + 8)) = unat sz - (unat n + 8)"
    using assms(4) by (simp add: unat_sub_if')
  have "unat (b + sz) = unat b + unat sz" using b(3) by (simp add: unat_word_ariths)
  then show d: "unat (b + sz - (n + 8)) = unat b + unat sz - (unat n + 8)"
    using n8 assms(4) by (simp add: unat_sub_if')
  have dvd: "8 dvd unat b" "8 dvd unat sz" "8 dvd unat n" using b assms(2) by auto
  have "8 dvd unat (sz - (n + 8))" "8 dvd unat (b + sz - (n + 8))" "8 dvd unat (n + 8)"
    using dvd by (auto simp: c d n8 intro!: dvd_diff_nat)
  then have "block_ok (b, sz - (n + 8))" "block_ok (b + sz - (n + 8), n + 8)"
    using b assms(3,4) c d n8 by (auto simp: block_ok_def)
  moreover have "below (b, sz - (n + 8)) (b + sz - (n + 8), n + 8)"
    using c d assms(4) by (simp add: below_def)
  moreover have "\<forall>y\<in>set lo. below y (b + sz - (n + 8), n + 8)" "\<forall>y\<in>set hi. below (b + sz - (n + 8), n + 8) y"
    "\<forall>y\<in>set hi. below (b, sz - (n + 8)) y"
    using assms(1,4) c d n8 by (auto simp: heap_ok_append heap_ok_Cons below_def)
  ultimately show "heap_ok (lo @ (b, sz - (n + 8)) # (b + sz - (n + 8), n + 8) # hi)"
    using assms(1) by (auto simp: heap_ok_append heap_ok_Cons below_def)
qed

text \<open>The memory and the list \<^verbatim>\<open>kmalloc_split_block\<close> leaves.\<close>

lemma kmalloc_split_eq:
  assumes "heap_ok (lo @ (b, sz) # hi)" "unat n mod 8 = 0" "8 \<le> unat n" "unat n + 40 \<le> unat sz"
    "rd b s = sz"
  defines "d \<equiv> b + sz - (n + 8)"
  shows "kmalloc_split_block b n s = (d + 8, wr b (sz - (n + 8))
    (wr (d + 8) (d + 8) (wr (d + 4) 0 (wr d (n + 8) s))))"
proof -
  note c = heap_ok_carve [OF assms(1-4), folded d_def]
  have "heap_ok ((lo @ [(b, sz - (n + 8))]) @ (d, n + 8) # hi)" using c(1) by simp
  note okd = heap_ok_middle [OF this] and okb = heap_ok_middle [OF assms(1)]
  have e: "unat (d + 8) = unat d + 8" using okd(3) by (simp add: block_ok_def unat_word_ariths)
  then have al: "unat (d + 8) mod 8 = 0" using okd(4) by presburger
  have ne: "d \<noteq> b" "d + 8 \<noteq> b" "d + 8 \<noteq> d" using e c(2) assms(4) by auto
  let ?s = "wr (d + 8) (d + 8) (wr (d + 4) 0 (wr d (n + 8) s))"
  have "rd b ?s = sz" "rd d ?s = n + 8"
    using okd(4) okb(4) al ne assms(5) by (simp_all add: rd_def wr_def load_store_header)
  moreover have "rd (d + 8) (wr b (sz - (n + 8)) ?s) = d + 8"
    using okb(4) al ne by (simp add: rd_def wr_def load_store_header)
  ultimately show ?thesis
    using assms(5) by (simp add: kmalloc_split_block_def Let_def BLOCK_HEADER_SIZE_def d_def [symmetric] add.commute)
qed

lemma carved_notin:
  assumes "heap_ok (lo @ (b, sz) # hi)" "unat n mod 8 = 0" "8 \<le> unat n" "unat n + 40 \<le> unat sz"
  shows "b + sz - (n + 8) \<notin> fst ` set (lo @ (b, sz) # hi)"
    "b + sz - n \<notin> fst ` set (lo @ (b, sz) # hi)"
proof -
  have ok: "unat b + unat sz < 2 ^ 32" "\<forall>y\<in>set lo. unat (fst y) < unat b"
    "\<forall>y\<in>set hi. unat b + unat sz \<le> unat (fst y)"
    using assms(1) heap_ok_middle(8) [OF assms(1)]
    by (auto simp: heap_ok_append heap_ok_Cons block_ok_def below_def word_less_nat_alt)
  have "unat b < unat w \<and> unat w < unat b + unat sz \<Longrightarrow> w \<notin> fst ` set (lo @ (b, sz) # hi)"
    for w using ok(2,3) by fastforce
  moreover have "unat (b + sz - n) = unat b + unat sz - unat n"
    using ok(1) assms(4) by (simp add: unat_sub_if' unat_word_ariths)
  moreover note heap_ok_carve(2) [OF assms]
  ultimately show "b + sz - (n + 8) \<notin> fst ` set (lo @ (b, sz) # hi)"
    "b + sz - n \<notin> fst ` set (lo @ (b, sz) # hi)"
    using assms(3,4) by simp_all
qed

lemma bytes_above: "12 \<le> (x :: u32) \<Longrightarrow> 4 \<le> x - 8 \<and> 4 \<le> x - 4 \<and> 4 \<le> x"
  by (simp add: word_le_nat_alt unat_sub_if') linarith

lemma kmalloc_split_heap:
  assumes "heap (lo @ (b, sz) # hi) s" "unat n mod 8 = 0" "8 \<le> unat n" "unat n + 40 \<le> unat sz"
  obtains t where "kmalloc_split_block b n s = (b + sz - n, t)"
    "heap (lo @ (b, sz - (n + 8)) # hi) t" "rd (b + sz - n - 8) t = n + 8"
    "\<And>a. 4 \<le> a - b \<Longrightarrow> 12 \<le> a - (b + sz - n - 8) \<Longrightarrow> mem t a = mem s a"
    "\<exists>m. t = s\<lparr>mem := m\<rparr>"
proof -
  define d where "d = b + sz - (n + 8)"
  have hp: "heap_ok (lo @ (b, sz) # hi)" "chain (mem s) (block_list_head s) (lo @ (b, sz) # hi) 0"
    using assms(1) by (simp_all add: heap_def)
  have d: "b + sz - n = d + 8" "b + sz - n - 8 = d" by (simp_all add: d_def)
  note c = heap_ok_carve [OF hp(1) assms(2-4), folded d_def]
  have "heap_ok ((lo @ [(b, sz - (n + 8))]) @ (d, n + 8) # hi)" using c(1) by simp
  note okd = heap_ok_middle [OF this] and okb = heap_ok_middle [OF hp(1)]
  have e: "unat (d + 8) = unat d + 8" using okd(3) by (simp add: block_ok_def unat_word_ariths)
  then have al: "unat (d + 8) mod 8 = 0" using okd(4) by presburger
  let ?t = "wr b (sz - (n + 8)) (wr (d + 8) (d + 8) (wr (d + 4) 0 (wr d (n + 8) s)))"
  have "rd b s = sz" using hp(2) by (auto simp: chain_append rd_def)
  then have eq: "kmalloc_split_block b n s = (d + 8, ?t)"
    using kmalloc_split_eq [OF hp(1) assms(2-4)] by (simp add: d_def)
  have nin: "d \<notin> fst ` set (lo @ (b, sz) # hi)" "d + 8 \<notin> fst ` set (lo @ (b, sz) # hi)"
    using carved_notin [OF hp(1) assms(2-4)] by (simp_all add: d_def algebra_simps)
  have "chain (mem (wr (d + 8) (d + 8) (wr (d + 4) 0 (wr d (n + 8) s)))) (block_list_head s) (lo @ (b, sz) # hi) 0"
    using hp(2) by (simp add: wr_def chain_store_header [OF okd(4) _ hp(1) nin(1)]
        chain_store_header [OF al _ hp(1) nin(2)] del: chain.simps)
  from chain_resize [OF this hp(1)] c(1)
  have "heap (lo @ (b, sz - (n + 8)) # hi) ?t"
    by (auto simp: heap_def wr_def heap_ok_append heap_ok_Cons)
  moreover have "rd d ?t = n + 8"
    using okd(4) okb(4) al nin by (auto simp: rd_def wr_def load_store_header)
  moreover have "mem ?t a = mem s a" if "4 \<le> a - b" "12 \<le> a - d" for a
  proof -
    from that(2) have "4 \<le> a - (d + 8)" "4 \<le> a - (d + 4)" "4 \<le> a - d"
      using bytes_above [of "a - d"] by (simp_all add: algebra_simps)
    with that(1) show ?thesis by (simp add: wr_def store32_apart_byte)
  qed
  moreover have "\<exists>m. ?t = s\<lparr>mem := m\<rparr>" by (simp add: wr_def) blast
  ultimately show ?thesis using that [of ?t] eq by (simp add: d)
qed

section \<open>Initialisation\<close>

lemma kmalloc_init_heap:
  assumes "unat (sym_kmalloc_init_block L) mod 8 = 0" "sym_kmalloc_init_block L \<noteq> 0"
    "unat (sym_kmalloc_init_block L) + 4096 < 2 ^ 32"
  shows "heap [(sym_kmalloc_init_block L, 4096)] (kmalloc_init L s)"
    "block_list_tail (kmalloc_init L s) = sym_kmalloc_init_block L"
    "rd (sym_kmalloc_init_block L + 8) (kmalloc_init L s) = sym_kmalloc_init_block L + 8"
proof -
  let ?b = "sym_kmalloc_init_block L"
  have "unat (?b + 8) = unat ?b + 8" using assms(3) by (simp add: unat_word_ariths)
  then have al: "unat (?b + 8) mod 8 = 0" using assms(1) by presburger
  have ne: "?b + 8 \<noteq> ?b" by simp
  show "heap [(?b, 4096)] (kmalloc_init L s)"
    using assms ne by (simp add: heap_def heap_ok_Cons block_ok_def kmalloc_init_def wr_def Let_def
        load_store_header [OF al assms(1)] load_store_header [OF assms(1,1)])
  show "block_list_tail (kmalloc_init L s) = ?b" by (simp add: kmalloc_init_def Let_def wr_def)
  have "block_list_head (wr a v u) = block_list_head u" for a v and u :: "'a kmalloc_state_scheme"
    by (simp add: wr_def)
  then show "rd (?b + 8) (kmalloc_init L s) = ?b + 8"
    by (simp add: kmalloc_init_def Let_def BLOCK_HEADER_SIZE_def add.commute)
qed

end
