(* ===== verification/Vmm.thy ===== *)
theory Vmm
  imports Kmalloc
begin

text \<open>
  The virtual page allocator, \<^verbatim>\<open>kernel/memory/vmm.c\<close>, and with it \<^verbatim>\<open>kmalloc\<close>, since the two call
  each other: \<^verbatim>\<open>kmalloc\<close> takes a page when its list has no block that is large enough, and
  \<^verbatim>\<open>vmm_alloc_page\<close> allocates a block descriptor when it comes near the end of a page table. The static
  flag \<^verbatim>\<open>allocating_new_block\<close> ends the recursion, which is what the termination proof uses.
\<close>

section \<open>State and layout\<close>

record vmm_state = kmalloc_state +
  vmm_block_list_head :: u32
  vmm_block_list_tail :: u32
  allocating_new_block :: bool

text \<open>
  A \<^verbatim>\<open>struct vmm_block_desc\<close> at \<open>b\<close>: the bitmap of 32 words at \<open>b\<close>, \<^verbatim>\<open>high_water_mark\<close> at
  \<open>b + 128\<close>, \<^verbatim>\<open>free_pages\<close> at \<open>b + 132\<close>, \<^verbatim>\<open>first_page\<close> at \<open>b + 136\<close>, \<^verbatim>\<open>page_table\<close> at \<open>b + 140\<close> and
  \<^verbatim>\<open>next_vmm_block\<close> at \<open>b + 144\<close>; 148 bytes in all.
\<close>

definition VMM_BITMAP_SIZE :: nat where
  "VMM_BITMAP_SIZE = 32"

definition HIGH_WATER_THRESHOLD :: u32 where
  "HIGH_WATER_THRESHOLD = 1022"

definition sizeof_vmm_block_desc :: u32 where
  "sizeof_vmm_block_desc = 148"

definition high_water_mark :: "u32 \<Rightarrow> u32" where
  "high_water_mark b = b + 128"

definition free_pages :: "u32 \<Rightarrow> u32" where
  "free_pages b = b + 132"

definition first_page :: "u32 \<Rightarrow> u32" where
  "first_page b = b + 136"

definition page_table :: "u32 \<Rightarrow> u32" where
  "page_table b = b + 140"

definition next_vmm_block :: "u32 \<Rightarrow> u32" where
  "next_vmm_block b = b + 144"

section \<open>Operations\<close>

text \<open>The two loops of \<^verbatim>\<open>vmm_get_page_from_bitmap\<close>: word and bit of the first free page.\<close>

function vmm_scan :: "bytes \<Rightarrow> u32 \<Rightarrow> nat \<Rightarrow> (nat \<times> nat) option" where
  "vmm_scan m bm i =
     (if i < VMM_BITMAP_SIZE then
        let page_bitmap = load32 m (bm + 4 * of_nat i)
        in if page_bitmap = 0xFFFFFFFF then vmm_scan m bm (Suc i)
           else (case first_clear_bit page_bitmap of
                   Some j \<Rightarrow> Some (i, j)
                 | None \<Rightarrow> vmm_scan m bm (Suc i))
      else None)"
  by pat_completeness auto
termination
  by (relation "measure (\<lambda>(m, bm, i). VMM_BITMAP_SIZE - i)") auto

declare vmm_scan.simps [simp del]

definition vmm_get_page_from_bitmap :: "u32 \<Rightarrow> 'a machine_scheme \<Rightarrow> u32 option \<times> 'a machine_scheme" where
  "vmm_get_page_from_bitmap bm s =
     (case vmm_scan (mem s) bm 0 of
        None \<Rightarrow> (None, s)
      | Some (i, j) \<Rightarrow>
          (Some (32 * of_nat i + of_nat j),
           wr (bm + 4 * of_nat i) (SET_BIT (rd (bm + 4 * of_nat i) s) j) s))"

text \<open>The loop of \<^verbatim>\<open>vmm_alloc_page\<close>: the page and the block it is in, NULL for both without a free page.\<close>

partial_function (option) vmm_search ::
  "u32 \<Rightarrow> 'a machine_scheme \<Rightarrow> ((u32 \<times> u32) \<times> 'a machine_scheme) option" where
  "vmm_search vmm_block s =
     (if vmm_block = 0 then Some ((0, 0), s)
      else if rd (free_pages vmm_block) s = 0 then vmm_search (rd (next_vmm_block vmm_block) s) s
      else case vmm_get_page_from_bitmap vmm_block s of
             (None, s) \<Rightarrow> vmm_search (rd (next_vmm_block vmm_block) s) s
           | (Some index_in_bitmap, s) \<Rightarrow>
               (let vmm_page = rd (first_page vmm_block) s + index_in_bitmap * PAGE_SIZE;
                    s = wr (free_pages vmm_block) (rd (free_pages vmm_block) s - 1) s;
                    next_page = index_in_bitmap + 1;
                    s = (if next_page \<ge> rd (high_water_mark vmm_block) s
                         then wr (high_water_mark vmm_block) next_page s else s)
                in Some ((vmm_page, vmm_block), s)))"

text \<open>The last part of \<^verbatim>\<open>vmm_alloc_page\<close>: a page that is not mapped yet gets a frame.\<close>

definition vmm_map_if_absent ::
  "u32 \<Rightarrow> u32 \<Rightarrow> 'a paging_state_scheme \<Rightarrow> ('a paging_state_scheme, u32) result" where
  "vmm_map_if_absent vmm_block vmm_page s =
     (if \<not> paging_is_virtual_page_present (rd (page_table vmm_block) s) vmm_page s
      then bindR (paging_map_virtual_page (rd (page_table vmm_block) s) vmm_page s) (\<lambda>_ s. Inr (vmm_page, s))
      else Inr (vmm_page, s))"

text \<open>\<^verbatim>\<open>vmm_add_vmm_block\<close> once its descriptor is allocated.\<close>

definition vmm_link_block :: "u32 \<Rightarrow> u32 \<Rightarrow> 'a vmm_state_scheme \<Rightarrow> ('a vmm_state_scheme, unit) result" where
  "vmm_link_block vmm_block new_vmm_block s =
     (let s = s\<lparr>mem := memset (mem s) new_vmm_block 0 sizeof_vmm_block_desc\<rparr>;
          s = wr (high_water_mark new_vmm_block) 0 s;
          s = wr (free_pages new_vmm_block) (of_nat PAGE_TABLE_INDICES) s;
          s = wr (next_vmm_block new_vmm_block) 0 s;
          s = wr (page_table new_vmm_block) (rd (first_page vmm_block) s + HIGH_WATER_THRESHOLD * PAGE_SIZE) s;
          s = wr (first_page new_vmm_block) (rd (first_page vmm_block) s + PAGE_TABLE_RANGE) s
      in bindR (paging_map_virtual_page (rd (page_table vmm_block) s) (rd (page_table new_vmm_block) s) s)
           (\<lambda>phys_addr s.
             let s = paging_add_page_table phys_addr (rd (first_page new_vmm_block) s) s;
                 s = clear_page (rd (page_table new_vmm_block) s) s
             in if vmm_block_list_tail s = 0 then Inl (Undefined, s)
                else
                  let s = wr (next_vmm_block (vmm_block_list_tail s)) new_vmm_block s
                  in Inr ((), s\<lparr>vmm_block_list_tail := new_vmm_block\<rparr>)))"

text \<open>The flag survives everything that happens between two calls of the mutual recursion.\<close>

lemma vmm_search_flag:
  assumes "vmm_search b s = Some r"
  shows "machine.more (snd r) = machine.more s"
proof (rule vmm_search.raw_induct [OF _ assms])
  fix f :: "u32 \<Rightarrow> 'a machine_scheme \<Rightarrow> ((u32 \<times> u32) \<times> 'a machine_scheme) option"
    and b s r
  assume IH: "\<And>b s r. f b s = Some r \<Longrightarrow> machine.more (snd r) = machine.more s"
  assume step: "(if b = 0 then Some ((0, 0), s)
      else if rd (free_pages b) s = 0 then f (rd (next_vmm_block b) s) s
      else case vmm_get_page_from_bitmap b s of
             (None, s) \<Rightarrow> f (rd (next_vmm_block b) s) s
           | (Some index_in_bitmap, s) \<Rightarrow>
               (let vmm_page = rd (first_page b) s + index_in_bitmap * PAGE_SIZE;
                    s = wr (free_pages b) (rd (free_pages b) s - 1) s;
                    next_page = index_in_bitmap + 1;
                    s = (if next_page \<ge> rd (high_water_mark b) s
                         then wr (high_water_mark b) next_page s else s)
                in Some ((vmm_page, b), s))) = Some r"
  then show "machine.more (snd r) = machine.more s"
    using IH by (auto simp: vmm_get_page_from_bitmap_def Let_def wr_def
        split: if_splits option.splits prod.splits)
qed

lemma vmm_search_allocating:
  assumes "vmm_search b s = Some (r, t)"
  shows "allocating_new_block t = allocating_new_block (s :: 'a vmm_state_scheme)"
  using vmm_search_flag [OF assms] by (cases s; cases t) simp

lemma kmalloc_take_allocating:
  assumes "kmalloc_take n s = Some (p, t)"
  shows "allocating_new_block t = allocating_new_block (s :: 'a vmm_state_scheme)"
  using assms
  by (auto simp: kmalloc_take_def kmalloc_split_block_def Let_def wr_def split: if_splits option.splits)

function kmalloc :: "u32 \<Rightarrow> 'a vmm_state_scheme \<Rightarrow> ('a vmm_state_scheme, u32) result"
  and vmm_alloc_page :: "'a vmm_state_scheme \<Rightarrow> ('a vmm_state_scheme, u32) result"
  and vmm_add_vmm_block :: "u32 \<Rightarrow> 'a vmm_state_scheme \<Rightarrow> ('a vmm_state_scheme, unit) result" where
  "kmalloc sz s =
     (if sz = 0 then Inr (0, s)
      else case kmalloc_take (kmalloc_alloc_size sz) s of
             None \<Rightarrow> Inl (Spin, s)
           | Some (alloc_ptr, s') \<Rightarrow>
               if alloc_ptr = 0 then bindR (vmm_alloc_page s') kmalloc_grow
               else Inr (alloc_ptr, s'))"
| "vmm_alloc_page s =
     (case vmm_search (vmm_block_list_head s) s of
        None \<Rightarrow> Inl (Spin, s)
      | Some ((vmm_page, vmm_block), s') \<Rightarrow>
          if vmm_page = 0 then panic (Some (litn ''out of memory'')) s'
          else if rd (high_water_mark vmm_block) s' = HIGH_WATER_THRESHOLD \<and>
                  rd (next_vmm_block vmm_block) s' = 0 \<and> \<not> allocating_new_block s'
          then bindR (vmm_add_vmm_block vmm_block (s'\<lparr>allocating_new_block := True\<rparr>))
                 (\<lambda>_ s. vmm_map_if_absent vmm_block vmm_page (s\<lparr>allocating_new_block := False\<rparr>))
          else vmm_map_if_absent vmm_block vmm_page s')"
| "vmm_add_vmm_block vmm_block s =
     bindR (kmalloc sizeof_vmm_block_desc s) (\<lambda>new_vmm_block s.
       if new_vmm_block = 0 then Inl (Undefined, s)
       else vmm_link_block vmm_block new_vmm_block s)"
  by pat_completeness auto
termination
  by (relation "measure (\<lambda>c. case c of
        Inl (_, s) \<Rightarrow> if allocating_new_block s then 2 else 5
      | Inr (Inl s) \<Rightarrow> if allocating_new_block s then 1 else 4
      | Inr (Inr (_, s)) \<Rightarrow> if allocating_new_block s then 3 else 6)")
    (auto dest!: kmalloc_take_allocating vmm_search_allocating)

declare kmalloc.simps [simp del] vmm_alloc_page.simps [simp del] vmm_add_vmm_block.simps [simp del]

text \<open>
  Initialisation: the block that holds the kernel image, with every page up to the initial page table
  taken. The memory of the descriptor is not cleared.
\<close>

definition vmm_init_block :: "u32 \<Rightarrow> u32 \<Rightarrow> 'a vmm_state_scheme \<Rightarrow> ('a vmm_state_scheme, unit) result" where
  "vmm_init_block initial_page_table initial_vmm_block s =
     (let s = wr (first_page initial_vmm_block) KERNEL_VIRT_BASE s;
          s = wr (page_table initial_vmm_block) initial_page_table s;
          s = wr (next_vmm_block initial_vmm_block) 0 s;
          first_free_page = (V2P_ADDR initial_page_table + PAGE_SIZE) div PAGE_SIZE;
          s = wr (high_water_mark initial_vmm_block) first_free_page s;
          s = wr (free_pages initial_vmm_block) (of_nat PAGE_TABLE_INDICES - first_free_page) s;
          last_fully_occupied_bitmap_index = drop_bit 5 first_free_page
      in if VMM_BITMAP_SIZE \<le> unat last_fully_occupied_bitmap_index then Inl (Undefined, s)
         else
           let s = s\<lparr>mem := memset (mem s) initial_vmm_block 0xFF (last_fully_occupied_bitmap_index * 4)\<rparr>;
               remaining_pages = first_free_page mod 32;
               remaining_bits_to_set = NOT (push_bit (unat remaining_pages) (0xFFFFFFFF :: u32));
               s = wr (initial_vmm_block + 4 * last_fully_occupied_bitmap_index) remaining_bits_to_set s
           in Inr ((), s\<lparr>vmm_block_list_head := initial_vmm_block, vmm_block_list_tail := initial_vmm_block\<rparr>))"

definition vmm_init :: "u32 \<Rightarrow> 'a vmm_state_scheme \<Rightarrow> ('a vmm_state_scheme, unit) result" where
  "vmm_init initial_page_table s =
     bindR (kmalloc sizeof_vmm_block_desc s) (\<lambda>initial_vmm_block s.
       if initial_vmm_block = 0 then Inl (Undefined, s)
       else vmm_init_block initial_page_table initial_vmm_block s)"

text \<open>The loop of \<^verbatim>\<open>vmm_free_page\<close> and \<^verbatim>\<open>vmm_get_phys_addr\<close>: the block the page is taken to be in.\<close>

partial_function (option) vmm_find_block :: "bytes \<Rightarrow> u32 \<Rightarrow> u32 \<Rightarrow> u32 option" where
  "vmm_find_block m page vmm_block =
     (if vmm_block = 0 then Some 0
      else
        let page_table_base_page = load32 m (first_page vmm_block);
            page_table_last_page = load32 m (first_page vmm_block) + PAGE_TABLE_RANGE - PAGE_SIZE
        in if page \<ge> page_table_base_page \<or> page \<le> page_table_last_page then Some vmm_block
           else vmm_find_block m page (load32 m (next_vmm_block vmm_block)))"

definition vmm_free_page :: "u32 \<Rightarrow> 'a vmm_state_scheme \<Rightarrow> ('a vmm_state_scheme, unit) result" where
  "vmm_free_page page s =
     (let page_to_free = PAGE_ALIGN page in
      case vmm_find_block (mem s) page_to_free (vmm_block_list_head s) of
        None \<Rightarrow> Inl (Spin, s)
      | Some vmm_block \<Rightarrow>
          if vmm_block = 0 then panic (Some (litn ''invalid page provided'')) s
          else
            let page_index = V2P_ADDR page div PAGE_SIZE;
                bitmap_index = page_index div 32;
                bit_in_bitmap = page_index mod 32;
                word = vmm_block + 4 * bitmap_index
            in if VMM_BITMAP_SIZE \<le> unat bitmap_index then Inl (Undefined, s)
               else Inr ((), wr word (CLEAR_BIT (rd word s) (unat bit_in_bitmap)) s))"

definition vmm_get_phys_addr :: "u32 \<Rightarrow> 'a vmm_state_scheme \<Rightarrow> ('a vmm_state_scheme, u32) result" where
  "vmm_get_phys_addr vmm_page s =
     (case vmm_find_block (mem s) vmm_page (vmm_block_list_head s) of
        None \<Rightarrow> Inl (Spin, s)
      | Some vmm_block \<Rightarrow>
          if vmm_block = 0 then Inr (0, s)
          else Inr (frame_addr (pte_phys_addr
                 (get_pte (rd (page_table vmm_block) s) (PAGE_TABLE_INDEX vmm_page) s)), s))"

section \<open>The heap allocator\<close>

lemma kmalloc_alloc_size_unat:
  assumes "unat sz \<le> 2 ^ 32 - 8"
  shows "unat (kmalloc_alloc_size sz) = (unat sz + 7) div 8 * 8"
proof -
  have "unat (sz + 7) = unat sz + 7" using assms by (simp add: unat_word_ariths)
  then have d: "unat (drop_bit 3 (sz + 7)) = (unat sz + 7) div 8"
    by (simp only: unat_drop_bit_eq) (simp add: drop_bit_eq_div)
  have "push_bit 3 w = w * 8" for w :: u32 by (simp add: push_bit_eq_mult)
  moreover have "(unat sz + 7) div 8 * 8 < 2 ^ 32"
    using assms div_times_less_eq_dividend [of "unat sz + 7" 8] by simp
  ultimately show ?thesis
    unfolding kmalloc_alloc_size_def using d by (simp add: unat_word_ariths)
qed

lemma kmalloc_take_split:
  assumes "heap (lo @ (b, sz) # hi) s" "\<forall>y\<in>set lo. \<not> fits n y"
    "unat n mod 8 = 0" "8 \<le> unat n" "unat n + 40 \<le> unat sz"
  shows "kmalloc_take n s = Some (kmalloc_split_block b n s)"
proof -
  have ok: "heap_ok (lo @ (b, sz) # hi)" "chain (mem s) (block_list_head s) (lo @ (b, sz) # hi) 0"
    using assms(1) by (simp_all add: heap_def)
  have nz: "\<forall>x\<in>set (lo @ (b, sz) # hi). fst x \<noteq> 0" "b \<noteq> 0"
    using ok(1) by (auto simp: heap_ok_def block_ok_def)
  have "unat (sz - 8) = unat sz - 8" using assms(5) by (simp add: unat_sub_if')
  moreover from this have "unat (sz - 8 - n) = unat sz - 8 - unat n"
    using assms(5) by (simp add: unat_sub_if')
  ultimately have f: "fits n (b, sz)" "SMALLEST_BLOCK_SIZE \<le> sz - BLOCK_HEADER_SIZE - n"
    using assms(5) by (simp_all add: fits_def BLOCK_HEADER_SIZE_def SMALLEST_BLOCK_SIZE_def word_le_nat_alt)
  have "find (fits n) (lo @ (b, sz) # hi) = Some (b, sz)"
    using assms(2) f(1) by (induction lo) auto
  then have "kmalloc_find (mem s) n (block_list_head s) = Some b"
    using kmalloc_find_chain [OF ok(2) nz(1), of n] by simp
  moreover have "rd b s = sz" using ok(2) by (auto simp: chain_append rd_def)
  ultimately show ?thesis using nz(2) f(2) by (simp add: kmalloc_take_def)
qed

text \<open>What a successful allocation is: a region at the end of the first block that is large enough.\<close>

lemma kmalloc_splits:
  assumes "heap (lo @ (b, bsz) # hi) s" "\<forall>y\<in>set lo. \<not> fits (kmalloc_alloc_size sz) y"
    "0 < sz" "unat sz \<le> 2 ^ 32 - 8" "(unat sz + 7) div 8 * 8 + 40 \<le> unat bsz"
  defines "n \<equiv> kmalloc_alloc_size sz"
  obtains t where "kmalloc sz s = Inr (b + bsz - n, t)"
    "heap (lo @ (b, bsz - (n + 8)) # hi) t" "rd (b + bsz - n - 8) t = n + 8"
    "\<And>a. 4 \<le> a - b \<Longrightarrow> 12 \<le> a - (b + bsz - n - 8) \<Longrightarrow> mem t a = mem s a"
    "\<exists>m. t = s\<lparr>mem := m\<rparr>"
proof -
  have n: "unat n = (unat sz + 7) div 8 * 8"
    using kmalloc_alloc_size_unat [OF assms(4)] by (simp add: n_def)
  have "0 < unat sz" using assms(3) by (simp add: word_less_nat_alt)
  then have n8: "unat n mod 8 = 0" "8 \<le> unat n" "unat n + 40 \<le> unat bsz"
    using assms(5) by (auto simp: n)
  obtain t where t: "kmalloc_split_block b n s = (b + bsz - n, t)"
    "heap (lo @ (b, bsz - (n + 8)) # hi) t" "rd (b + bsz - n - 8) t = n + 8"
    "\<And>a. 4 \<le> a - b \<Longrightarrow> 12 \<le> a - (b + bsz - n - 8) \<Longrightarrow> mem t a = mem s a"
    "\<exists>m. t = s\<lparr>mem := m\<rparr>"
    by (rule kmalloc_split_heap [OF assms(1) n8]) blast
  have "heap_ok (lo @ (b, bsz) # hi)" using assms(1) by (simp add: heap_def)
  then have "unat (b + bsz - n) = unat b + unat bsz - unat n"
    using n8(3) by (simp add: heap_ok_append heap_ok_Cons block_ok_def unat_sub_if' unat_word_ariths)
  then have "b + bsz - n \<noteq> 0" "sz \<noteq> 0" using n8(3) assms(3) by auto
  with kmalloc_take_split [OF assms(1) assms(2) [folded n_def] n8] t(1) assms(3)
  have "kmalloc sz s = Inr (b + bsz - n, t)" by (simp add: kmalloc.simps n_def)
  with t(2-5) show ?thesis by (intro that)
qed

lemma kmalloc_whole:
  assumes "heap (lo @ (b, bsz) # hi) s" "\<forall>y\<in>set lo. \<not> fits (kmalloc_alloc_size sz) y"
    "fits (kmalloc_alloc_size sz) (b, bsz)" "unat bsz < unat (kmalloc_alloc_size sz) + 40"
    "0 < sz" "rd (b + 8) s \<noteq> 0"
  shows "kmalloc sz s = Inr (rd (b + 8) s, s)"
proof -
  let ?n = "kmalloc_alloc_size sz"
  have ok: "heap_ok (lo @ (b, bsz) # hi)" "chain (mem s) (block_list_head s) (lo @ (b, bsz) # hi) 0"
    using assms(1) by (simp_all add: heap_def)
  have nz: "\<forall>x\<in>set (lo @ (b, bsz) # hi). fst x \<noteq> 0" "b \<noteq> 0" "16 \<le> unat bsz"
    using ok(1) by (auto simp: heap_ok_def block_ok_def)
  have "find (fits ?n) (lo @ (b, bsz) # hi) = Some (b, bsz)"
    using assms(2,3) by (induction lo) auto
  then have f: "kmalloc_find (mem s) ?n (block_list_head s) = Some b"
    using kmalloc_find_chain [OF ok(2) nz(1), of ?n] by simp
  have "unat (bsz - 8) = unat bsz - 8" using nz(3) by (simp add: unat_sub_if')
  then have "\<not> SMALLEST_BLOCK_SIZE \<le> bsz - BLOCK_HEADER_SIZE - ?n"
    using assms(3,4) nz(3)
    by (simp add: fits_def BLOCK_HEADER_SIZE_def SMALLEST_BLOCK_SIZE_def word_le_nat_alt unat_sub_if')
  moreover have "rd b s = bsz" using ok(2) by (auto simp: chain_append rd_def)
  ultimately have "kmalloc_take ?n s = Some (rd (b + 8) s, s)"
    using f nz(2) by (simp add: kmalloc_take_def)
  moreover have "sz \<noteq> 0" using assms(5) by auto
  ultimately show ?thesis using assms(6) by (simp add: kmalloc.simps)
qed



text \<open>
  C26: freeing the pointer that \<^verbatim>\<open>kmalloc\<close> just cut from a block gives the free list back exactly as it was
  before the allocation: the region is merged again with the block. The first block that is large enough must have 32 bytes
  more than the request and its header, so that it is split (otherwise see \<open>kmalloc_shares_block\<close>), and the next
  block must not begin right behind it, because \<^verbatim>\<open>kfree\<close> would merge that one too.
\<close>

theorem kmalloc_kfree_roundtrip:
  assumes "heap (lo @ (b, bsz) # hi) s" "\<forall>y\<in>set lo. \<not> fits (kmalloc_alloc_size sz) y"
    "0 < sz" "unat sz \<le> 2 ^ 32 - 8" "(unat sz + 7) div 8 * 8 + 40 \<le> unat bsz"
    "\<forall>(c, csz) \<in> set hi. unat b + unat bsz < unat c"
  shows "\<exists>p t u. kmalloc sz s = Inr (p, t) \<and> kfree p t = Inr ((), u) \<and>
    heap (lo @ (b, bsz) # hi) u"
proof -
  let ?n = "kmalloc_alloc_size sz"
  have ok: "heap_ok (lo @ (b, bsz) # hi)" using assms(1) by (simp add: heap_def)
  have "0 < unat sz" using assms(3) by (simp add: word_less_nat_alt)
  then have n8: "unat ?n mod 8 = 0" "8 \<le> unat ?n" "unat ?n + 40 \<le> unat bsz"
    using assms(5) by (auto simp: kmalloc_alloc_size_unat [OF assms(4)])
  obtain t where t: "kmalloc sz s = Inr (b + bsz - ?n, t)"
    "heap (lo @ (b, bsz - (?n + 8)) # hi) t" "rd (b + bsz - ?n - 8) t = ?n + 8"
    by (rule kmalloc_splits [OF assms(1-5)]) blast
  let ?d = "b + bsz - (?n + 8)" and ?lo = "lo @ [(b, bsz - (?n + 8))]"
  have d: "b + bsz - ?n - 8 = ?d" "b + bsz - ?n = ?d + BLOCK_HEADER_SIZE"
    by (simp_all add: BLOCK_HEADER_SIZE_def)
  have okd: "heap_ok (?lo @ (?d, ?n + 8) # hi)" using heap_ok_carve(1) [OF ok n8] by simp
  then have "block_ok (?d, rd ?d t)" "\<forall>y\<in>set (?lo @ hi). below (?d, rd ?d t) y \<or> below y (?d, rd ?d t)"
    using t(3) d(1) by (auto simp: heap_ok_append heap_ok_Cons)
  moreover have "heap (?lo @ hi) t" using t(2) by simp
  ultimately obtain u where u: "kfree (?d + BLOCK_HEADER_SIZE) t = Inr ((), u)"
    "heap (free_block (?d, rd ?d t) (?lo @ hi)) u"
    using kfree_refines_aux [of "?lo @ hi" t ?d] by blast
  have "join (?d, ?n + 8) hi = (?d, ?n + 8) # hi"
  proof -
    have "unat (?d + (?n + 8)) = unat b + unat bsz"
      using ok by (simp add: heap_ok_append heap_ok_Cons block_ok_def unat_word_ariths)
    then show ?thesis using assms(6) by (cases hi) (auto simp: join_def)
  qed
  then have "free_block (?d, rd ?d t) (?lo @ hi) = lo @ (b, bsz) # hi"
    using free_block_split [OF okd] t(3) d(1) by (simp add: join_def)
  with t(1) u d(2) show ?thesis by auto
qed

lemma example_heap:
  "heap ([] @ (0xC0112000, 4096) # []) (kmalloc_init example_symbols s)"
  "rd 0xC0112008 (kmalloc_init example_symbols s) = 0xC0112008"
  using kmalloc_init_heap [of example_symbols s] by (simp_all add: example_symbols_def)


theorem kmalloc_kfree_roundtrip_witness:
  "\<forall>s :: vmm_state. \<exists>p t u. kmalloc 148 (kmalloc_init example_symbols s) = Inr (p, t) \<and>
     kfree p t = Inr ((), u) \<and> heap [(0xC0112000, 4096)] u"
proof
  fix s :: vmm_state
  have "\<exists>p t u. kmalloc 148 (kmalloc_init example_symbols s) = Inr (p, t) \<and>
     kfree p t = Inr ((), u) \<and> heap ([] @ (0xC0112000, 4096) # []) u"
    by (rule kmalloc_kfree_roundtrip [OF example_heap(1)]) simp_all
  then show "\<exists>p t u. kmalloc 148 (kmalloc_init example_symbols s) = Inr (p, t) \<and>
     kfree p t = Inr ((), u) \<and> heap [(0xC0112000, 4096)] u"
    by simp
qed

text \<open>
  C39: when the first block that is large enough leaves fewer than 32 bytes over, \<^verbatim>\<open>kmalloc\<close> returns
  the block's memory but leaves the block in the free list: the state does not change at all, and the
  next request of the same size gets the same pointer.
\<close>

theorem kmalloc_shares_block:
  assumes "heap (lo @ (b, bsz) # hi) s" "\<forall>y\<in>set lo. \<not> fits (kmalloc_alloc_size sz) y"
    "fits (kmalloc_alloc_size sz) (b, bsz)" "unat bsz < unat (kmalloc_alloc_size sz) + 40"
    "0 < sz" "rd (b + 8) s \<noteq> 0"
  shows "bindR (kmalloc sz s) (\<lambda>p s. bindR (kmalloc sz s) (\<lambda>q s. Inr ((p, q), s)))
    = Inr ((rd (b + 8) s, rd (b + 8) s), s)"
  using kmalloc_whole [OF assms] by simp

theorem kmalloc_shares_block_witness:
  "\<forall>s :: vmm_state. \<exists>t. bindR (kmalloc 4080 (kmalloc_init example_symbols s))
     (\<lambda>p s. bindR (kmalloc 4080 s) (\<lambda>q s. Inr ((p, q), s))) = Inr ((0xC0112008, 0xC0112008), t)"
proof
  fix s :: vmm_state
  have n: "kmalloc_alloc_size 4080 = 4080" by (simp add: kmalloc_alloc_size_def)
  have "bindR (kmalloc 4080 (kmalloc_init example_symbols s))
     (\<lambda>p s. bindR (kmalloc 4080 s) (\<lambda>q s. Inr ((p, q), s)))
    = Inr ((rd (0xC0112000 + 8) (kmalloc_init example_symbols s),
            rd (0xC0112000 + 8) (kmalloc_init example_symbols s)), kmalloc_init example_symbols s)"
    by (rule kmalloc_shares_block [OF example_heap(1)])
      (simp_all add: n fits_def BLOCK_HEADER_SIZE_def example_heap(2))
  then show "\<exists>t. bindR (kmalloc 4080 (kmalloc_init example_symbols s))
     (\<lambda>p s. bindR (kmalloc 4080 s) (\<lambda>q s. Inr ((p, q), s))) = Inr ((0xC0112008, 0xC0112008), t)"
    by (simp add: example_heap(2))
qed

section \<open>Descriptors\<close>

text \<open>A descriptor is an array of 37 words inside the address space.\<close>

definition desc_ok :: "u32 \<Rightarrow> bool" where
  "desc_ok b \<longleftrightarrow> b \<noteq> 0 \<and> aligned4 b \<and> unat b + 148 \<le> 2 ^ 32"

definition page_used :: "u32 \<Rightarrow> nat \<Rightarrow> 'a machine_scheme \<Rightarrow> bool" where
  "page_used b k s \<longleftrightarrow> bit (rd (slot b (k div 32)) s) (k mod 32)"

text \<open>The kernel address of page \<open>k\<close> of the first block.\<close>

definition vmm_page_addr :: "nat \<Rightarrow> u32" where
  "vmm_page_addr k = KERNEL_VIRT_BASE + of_nat k * PAGE_SIZE"

text \<open>
  The state in which pages come from the first block: its page table maps all its pages, does not
  overlap the descriptor, and the descriptor counts its free pages correctly.
\<close>

definition vmm_ready :: "'a vmm_state_scheme \<Rightarrow> bool" where
  "vmm_ready s \<longleftrightarrow>
     (let b = vmm_block_list_head s; pt = rd (page_table b) s in
      desc_ok b \<and> page_aligned pt \<and> (\<forall>i<1024. bit (rd (slot pt i) s) 0) \<and>
      (\<forall>i<37. \<forall>j<1024. slot b i \<noteq> slot pt j) \<and> rd (first_page b) s = KERNEL_VIRT_BASE \<and>
      unat (rd (high_water_mark b) s) < 1022 \<and>
      unat (rd (free_pages b) s) = card {k. k < 1024 \<and> \<not> page_used b k s})"

definition vmm_free_set :: "'a vmm_state_scheme \<Rightarrow> u32 set" where
  "vmm_free_set s = vmm_page_addr ` {k. k < 1021 \<and> \<not> page_used (vmm_block_list_head s) k s}"

lemma desc_fields:
  "high_water_mark b = slot b 32" "free_pages b = slot b 33" "first_page b = slot b 34"
  "page_table b = slot b 35" "next_vmm_block b = slot b 36"
  by (simp_all add: high_water_mark_def free_pages_def first_page_def page_table_def
      next_vmm_block_def slot_def)

lemma unat_desc_slot: "desc_ok b \<Longrightarrow> i < 37 \<Longrightarrow> unat (slot b i) = unat b + 4 * i"
  by (simp add: desc_ok_def slot_def unat_word_ariths unat_of_nat)

lemma aligned4_desc_slot: "desc_ok b \<Longrightarrow> i < 37 \<Longrightarrow> aligned4 (slot b i)"
  unfolding aligned4_def by (subst unat_desc_slot) (auto simp: desc_ok_def aligned4_def)

lemma desc_slot_eq: "desc_ok b \<Longrightarrow> i < 37 \<Longrightarrow> j < 37 \<Longrightarrow> slot b i = slot b j \<longleftrightarrow> i = j"
  by (metis add_left_cancel mult_left_cancel unat_desc_slot zero_neq_numeral)

lemma rd_desc_wr:
  assumes "desc_ok b" "i < 37" "j < 37"
  shows "rd (slot b j) (wr (slot b i) v s) = (if i = j then v else rd (slot b j) s)"
  by (simp add: rd_wr_aligned [OF aligned4_desc_slot [OF assms(1,2)] aligned4_desc_slot [OF assms(1,3)]]
      desc_slot_eq [OF assms])

lemma word_of_unat: "unat (w :: u32) = n \<Longrightarrow> w = of_nat n"
  by auto

section \<open>The bitmap search\<close>

text \<open>The search is the one of the frame allocator on a pool of 1024 frames.\<close>

definition bitmap_pool :: "bytes \<Rightarrow> u32 \<Rightarrow> physical_memory" where
  "bitmap_pool m b = \<lparr>total_memory = 0, total_page_memory = 0, starting_addr = 0, page_count = 1024,
     bitmap = (\<lambda>i. load32 m (slot b i))\<rparr>"

lemma vmm_scan_step:
  "vmm_scan m b i = (if i < 32 then case first_clear_bit (load32 m (slot b i)) of
     Some j \<Rightarrow> Some (i, j) | None \<Rightarrow> vmm_scan m b (Suc i) else None)"
proof -
  have "first_clear_bit 0xFFFFFFFF = None" by (simp only: first_clear_bit_None)
  then show ?thesis
    by (subst vmm_scan.simps) (simp add: VMM_BITMAP_SIZE_def slot_def Let_def)
qed

lemma vmm_scan_pmm_find: "pmm_find (bitmap_pool m b) i = Inr (vmm_scan m b i)"
proof (induction "32 - i" arbitrary: i)
  case 0
  then show ?case by (simp add: vmm_scan_step [of m b i] pmm_find_stop bitmap_pool_def)
next
  case (Suc n)
  then have "pmm_find (bitmap_pool m b) (Suc i) = Inr (vmm_scan m b (Suc i))" "i < 32" by simp_all
  moreover have "pmm_find (bitmap_pool m b) i = (case first_clear_bit (bitmap (bitmap_pool m b) i) of
      Some j \<Rightarrow> Inr (Some (i, j)) | None \<Rightarrow> pmm_find (bitmap_pool m b) (Suc i))"
    using Suc.hyps(2) by (intro pmm_find_step) (simp_all add: bitmap_pool_def PMM_BITMAP_WORDS_def)
  ultimately show ?case
    by (simp add: vmm_scan_step [of m b i] bitmap_pool_def split: option.splits)
qed

lemma page_free_bitmap_pool:
  "page_free (bitmap_pool (mem s) b) k \<longleftrightarrow> k < 1024 \<and> \<not> page_used b k s"
  by (simp add: page_free_def pool_size_def bitmap_pool_def page_used_def rd_def)

lemma vmm_scan_found:
  assumes "k < 1024" "\<not> page_used b k s" "\<forall>l<k. page_used b l s"
  shows "vmm_scan (mem s) b 0 = Some (k div 32, k mod 32)"
proof -
  let ?p = "bitmap_pool (mem s) b"
  have "pool_size ?p \<le> 32 * PMM_BITMAP_WORDS"
    by (simp add: pool_size_def bitmap_pool_def PMM_BITMAP_WORDS_def)
  from pmm_find_correct [OF this, of 0] obtain i j where
    "vmm_scan (mem s) b 0 = Some (i, j)" "j < 32" "page_free ?p (32 * i + j)"
    "\<forall>l<32 * i + j. \<not> page_free ?p l"
    using assms(1,2) by (auto simp: vmm_scan_pmm_find page_free_bitmap_pool)
  moreover from this assms have "k = 32 * i + j"
    by (metis linorder_neqE_nat page_free_bitmap_pool)
  ultimately show ?thesis by simp
qed

lemma vmm_search_first:
  assumes "desc_ok b" "rd (slot b 33) s \<noteq> 0" "k < 1024" "\<not> page_used b k s" "\<forall>l<k. page_used b l s"
  defines "t1 \<equiv> wr (slot b 33) (rd (slot b 33) s - 1)
    (wr (slot b (k div 32)) (SET_BIT (rd (slot b (k div 32)) s) (k mod 32)) s)"
  shows "vmm_search b s = Some ((rd (slot b 34) s + of_nat k * PAGE_SIZE, b),
    if of_nat k + 1 \<ge> rd (slot b 32) s then wr (slot b 32) (of_nat k + 1) t1 else t1)"
proof -
  have i: "k div 32 < 32" using assms(3) by simp
  have "(of_nat (32 * (k div 32) + k mod 32) :: u32) = of_nat k" by (simp only: mult_div_mod_eq)
  then have idx: "(32 * of_nat (k div 32) + of_nat (k mod 32) :: u32) = of_nat k"
    by (simp only: of_nat_add of_nat_mult of_nat_numeral)
  have sl: "b + 4 * of_nat (k div 32) = slot b (k div 32)" by (simp add: slot_def)
  have "b \<noteq> 0" using assms(1) by (simp add: desc_ok_def)
  then show ?thesis
    using vmm_scan_found [OF assms(3-5)] assms(1,2) i
    by (subst vmm_search.simps)
      (simp add: vmm_get_page_from_bitmap_def desc_fields idx sl rd_desc_wr t1_def)
qed

text \<open>The state in which the search leaves the descriptor, and what it does not touch.\<close>

lemma vmm_search_state:
  assumes "desc_ok b" "rd (slot b 33) s \<noteq> 0" "k < 1024" "\<not> page_used b k s" "\<forall>l<k. page_used b l s"
  obtains t where "vmm_search b s = Some ((rd (slot b 34) s + of_nat k * PAGE_SIZE, b), t)"
    "\<exists>m. t = s\<lparr>mem := m\<rparr>" "\<And>l. l < 1024 \<Longrightarrow> page_used b l t \<longleftrightarrow> page_used b l s \<or> l = k"
    "rd (slot b 33) t = rd (slot b 33) s - 1"
    "rd (slot b 32) t = (if of_nat k + 1 \<ge> rd (slot b 32) s then of_nat k + 1 else rd (slot b 32) s)"
    "\<And>x. aligned4 x \<Longrightarrow> x \<notin> slot b ` {..<34} \<Longrightarrow> rd x t = rd x s"
proof -
  define t1 where "t1 = wr (slot b 33) (rd (slot b 33) s - 1)
    (wr (slot b (k div 32)) (SET_BIT (rd (slot b (k div 32)) s) (k mod 32)) s)"
  define t where "t = (if of_nat k + 1 \<ge> rd (slot b 32) s then wr (slot b 32) (of_nat k + 1) t1 else t1)"
  have i: "k div 32 < 32" using assms(3) by simp
  have r: "rd (slot b j) t = (if j = 33 then rd (slot b 33) s - 1
      else if j = 32 \<and> of_nat k + 1 \<ge> rd (slot b 32) s then of_nat k + 1
      else if j = k div 32 then SET_BIT (rd (slot b j) s) (k mod 32) else rd (slot b j) s)"
    if "j < 37" for j
    using that i assms(1) by (auto simp: t_def t1_def rd_desc_wr)
  show ?thesis
  proof (rule that)
    show "vmm_search b s = Some ((rd (slot b 34) s + of_nat k * PAGE_SIZE, b), t)"
      using vmm_search_first [OF assms] by (simp add: t_def t1_def)
    show "\<exists>m. t = s\<lparr>mem := m\<rparr>" by (simp add: t_def t1_def wr_def) blast
    show "page_used b l t \<longleftrightarrow> page_used b l s \<or> l = k" if "l < 1024" for l
    proof -
      have "l div 32 = k div 32 \<and> l mod 32 = k mod 32 \<longleftrightarrow> l = k" by (metis div_mod_decomp)
      with that show ?thesis by (auto simp: page_used_def r bit_SET_BIT)
    qed
    show "rd (slot b 33) t = rd (slot b 33) s - 1" using i by (simp add: r)
    show "rd (slot b 32) t = (if of_nat k + 1 \<ge> rd (slot b 32) s then of_nat k + 1 else rd (slot b 32) s)"
      using i by (simp add: r)
    show "rd x t = rd x s" if x: "aligned4 x" "x \<notin> slot b ` {..<34}" for x
    proof -
      have "rd x (wr (slot b j) v u) = rd x u" if "j < 34" for j v and u :: "'a machine_scheme"
        using x that aligned4_desc_slot [OF assms(1), of j] by (subst rd_wr_aligned) auto
      then show ?thesis using i by (simp add: t_def t1_def)
    qed
  qed
qed

lemma card_page_used:
  assumes "\<And>l. l < 1024 \<Longrightarrow> page_used b l t \<longleftrightarrow> page_used b l s \<or> l = k" "k < 1024" "\<not> page_used b k s"
  shows "card {l. l < 1024 \<and> \<not> page_used b l t} = card {l. l < 1024 \<and> \<not> page_used b l s} - 1"
proof -
  have "{l. l < 1024 \<and> \<not> page_used b l t} = {l. l < 1024 \<and> \<not> page_used b l s} - {k}"
    using assms by auto
  then show "card {l. l < 1024 \<and> \<not> page_used b l t} = card {l. l < 1024 \<and> \<not> page_used b l s} - 1"
    using assms(2,3) by simp
qed

lemma card_page_unused: "k < 1024 \<Longrightarrow> \<not> page_used b k s \<Longrightarrow> 0 < card {l. l < 1024 \<and> \<not> page_used b l s}"
  by (auto simp: card_gt_0_iff)

lemma vmm_page_addr_unat: "k < 1024 \<Longrightarrow> unat (vmm_page_addr k) = 0xC0000000 + 4096 * k"
  by (simp add: vmm_page_addr_def KERNEL_VIRT_BASE_def PAGE_SIZE_def unat_word_ariths unat_of_nat)

lemma vmm_alloc_page_ready:
  assumes "vmm_ready s" "k < 1021" "\<not> page_used (vmm_block_list_head s) k s"
    "\<forall>l<k. page_used (vmm_block_list_head s) l s"
  obtains t where "vmm_alloc_page s = Inr (vmm_page_addr k, t)" "vmm_ready t" "\<exists>m. t = s\<lparr>mem := m\<rparr>"
    "\<And>l. l < 1024 \<Longrightarrow> page_used (vmm_block_list_head s) l t \<longleftrightarrow> page_used (vmm_block_list_head s) l s \<or> l = k"
    "\<And>x. aligned4 x \<Longrightarrow> x \<notin> slot (vmm_block_list_head s) ` {..<34} \<Longrightarrow> rd x t = rd x s"
proof -
  let ?b = "vmm_block_list_head s" and ?pt = "rd (page_table (vmm_block_list_head s)) s"
  have rdy: "desc_ok ?b" "page_aligned ?pt" "\<forall>i<1024. bit (rd (slot ?pt i) s) 0"
    "\<forall>i<37. \<forall>j<1024. slot ?b i \<noteq> slot ?pt j" "rd (slot ?b 34) s = KERNEL_VIRT_BASE"
    "unat (rd (slot ?b 32) s) < 1022"
    "unat (rd (slot ?b 33) s) = card {k. k < 1024 \<and> \<not> page_used ?b k s}"
    using assms(1) by (simp_all add: vmm_ready_def Let_def desc_fields(1-3))
  have k: "k < 1024" "unat (of_nat k + 1 :: u32) = k + 1"
    using assms(2) by (simp_all add: unat_word_ariths unat_of_nat)
  have nz: "rd (slot ?b 33) s \<noteq> 0"
    using rdy(7) card_page_unused [OF k(1) assms(3)] by (metis less_irrefl unat_0)
  obtain t where t: "vmm_search ?b s = Some ((rd (slot ?b 34) s + of_nat k * PAGE_SIZE, ?b), t)"
    "\<exists>m. t = s\<lparr>mem := m\<rparr>" "\<And>l. l < 1024 \<Longrightarrow> page_used ?b l t \<longleftrightarrow> page_used ?b l s \<or> l = k"
    "rd (slot ?b 33) t = rd (slot ?b 33) s - 1"
    "rd (slot ?b 32) t = (if of_nat k + 1 \<ge> rd (slot ?b 32) s then of_nat k + 1 else rd (slot ?b 32) s)"
    "\<And>x. aligned4 x \<Longrightarrow> x \<notin> slot ?b ` {..<34} \<Longrightarrow> rd x t = rd x s"
    by (rule vmm_search_state [OF rdy(1) nz k(1) assms(3,4)]) blast
  have out: "slot ?b i \<notin> slot ?b ` {..<34}" if "34 \<le> i" "i < 37" for i
    using that by (auto simp: desc_slot_eq [OF rdy(1)])
  have fld: "rd (slot ?b i) t = rd (slot ?b i) s" if "34 \<le> i" "i < 37" for i
    by (rule t(6) [OF aligned4_desc_slot [OF rdy(1) that(2)] out [OF that]])
  have tab: "rd (slot ?pt j) t = rd (slot ?pt j) s" if "j < 1024" for j
  proof (rule t(6) [OF aligned4_slot [OF rdy(2) that]])
    show "slot ?pt j \<notin> slot ?b ` {..<34}"
    proof
      assume "slot ?pt j \<in> slot ?b ` {..<34}"
      then obtain i where "i < 34" "slot ?b i = slot ?pt j" by auto
      moreover from this have "i < 37" by simp
      ultimately show False using rdy(4) that by blast
    qed
  qed
  have hd: "vmm_block_list_head t = ?b" using t(2) by auto
  have hw: "unat (rd (slot ?b 32) t) < 1022" using t(5) rdy(6) k(2) assms(2) by simp
  have fp: "unat (rd (slot ?b 33) t) = card {k. k < 1024 \<and> \<not> page_used ?b k t}"
    using nz rdy(7) card_page_used [OF t(3) k(1) assms(3)]
    by (simp add: t(4) unat_sub_if' Suc_leI flip: unat_gt_0)
  have "vmm_ready t"
    unfolding vmm_ready_def hd Let_def using rdy(1-5) hw fp fld tab by (simp add: desc_fields)
  moreover have "vmm_alloc_page s = Inr (vmm_page_addr k, t)"
  proof -
    have "rd (slot ?b 32) t \<noteq> HIGH_WATER_THRESHOLD" using hw by (auto simp: HIGH_WATER_THRESHOLD_def)
    moreover have "vmm_page_addr k \<noteq> 0" using vmm_page_addr_unat [OF k(1)] by auto
    moreover have "paging_is_virtual_page_present (rd (slot ?b 35) t) (vmm_page_addr k) t"
      using rdy(3) fld [of 35] tab
      by (simp add: paging_is_virtual_page_present_def get_pte_def PAGE_TABLE_INDEX_lt desc_fields)
    ultimately show ?thesis
      using t(1) rdy(5)
      by (simp add: vmm_alloc_page.simps desc_fields vmm_map_if_absent_def vmm_page_addr_def)
  qed
  ultimately show ?thesis using t(2,3,6) by (intro that)
qed

section \<open>The virtual page pool\<close>

lemma vmm_page_addr_inj: "i < 1024 \<Longrightarrow> j < 1024 \<Longrightarrow> vmm_page_addr i = vmm_page_addr j \<longleftrightarrow> i = j"
  by (metis vmm_page_addr_unat add_left_cancel mult_left_cancel zero_neq_numeral)

lemma vmm_free_set_page:
  assumes "q \<in> vmm_free_set s"
  shows "page_aligned q" "q \<noteq> 0"
proof -
  obtain k where k: "k < 1021" "q = vmm_page_addr k" using assms by (auto simp: vmm_free_set_def)
  then have "unat q = 0xC0000000 + 4096 * k" by (simp add: vmm_page_addr_unat)
  then show "page_aligned q" "q \<noteq> 0" by (auto simp: page_aligned_def)
qed

lemma vmm_take_page:
  assumes "vmm_ready s" "vmm_free_set s \<noteq> {}"
  obtains q t where "vmm_alloc_page s = Inr (q, t)" "q \<in> vmm_free_set s" "vmm_ready t"
    "vmm_free_set t = vmm_free_set s - {q}" "\<exists>m. t = s\<lparr>mem := m\<rparr>"
    "\<And>x. aligned4 x \<Longrightarrow> x \<notin> slot (vmm_block_list_head s) ` {..<34} \<Longrightarrow> rd x t = rd x s"
    "\<forall>p\<in>vmm_free_set s. unat q \<le> unat p"
proof -
  let ?b = "vmm_block_list_head s"
  from assms(2) obtain j where j: "j < 1021" "\<not> page_used ?b j s" by (auto simp: vmm_free_set_def)
  then obtain k where k0: "\<not> page_used ?b k s" "\<forall>l<k. page_used ?b l s"
    using exists_least_iff [of "\<lambda>k. \<not> page_used ?b k s"] by metis
  with j have "k \<le> j" by (metis not_less)
  with j(1) have k: "k < 1021" "\<not> page_used ?b k s" "\<forall>l<k. page_used ?b l s" using k0 by auto
  obtain t where t: "vmm_alloc_page s = Inr (vmm_page_addr k, t)" "vmm_ready t" "\<exists>m. t = s\<lparr>mem := m\<rparr>"
    "\<And>l. l < 1024 \<Longrightarrow> page_used ?b l t \<longleftrightarrow> page_used ?b l s \<or> l = k"
    "\<And>x. aligned4 x \<Longrightarrow> x \<notin> slot ?b ` {..<34} \<Longrightarrow> rd x t = rd x s"
    by (rule vmm_alloc_page_ready [OF assms(1) k]) blast
  have "vmm_block_list_head t = ?b" using t(3) by auto
  moreover have "{l. l < 1021 \<and> \<not> page_used ?b l t} = {l. l < 1021 \<and> \<not> page_used ?b l s} - {k}"
    using t(4) by auto
  moreover have "inj_on vmm_page_addr {l. l < 1021 \<and> \<not> page_used ?b l s}"
    by (rule inj_onI) (simp add: vmm_page_addr_inj)
  ultimately have "vmm_free_set t = vmm_free_set s - {vmm_page_addr k}"
    using k(1,2) by (simp add: vmm_free_set_def inj_on_image_set_diff [where C = "{l. l < 1021 \<and> \<not> page_used ?b l s}"])
  moreover have "vmm_page_addr k \<in> vmm_free_set s" using k by (auto simp: vmm_free_set_def)
  moreover have "\<forall>p\<in>vmm_free_set s. unat (vmm_page_addr k) \<le> unat p"
    using k(1,3) by (auto simp: vmm_free_set_def vmm_page_addr_unat) (meson not_le)
  ultimately show ?thesis using t(1-3,5) by (intro that)
qed

lemma vmm_alloc_page_pool:
  assumes "vmm_ready s" "vmm_free_set s \<noteq> {}"
  shows "\<exists>p t. vmm_alloc_page s = Inr (p, t) \<and> p \<in> vmm_free_set s \<and>
    vmm_free_set t = vmm_free_set s - {p} \<and> vmm_ready t"
  by (rule vmm_take_page [OF assms]) blast

interpretation vmm_pool: page_pool vmm_alloc_page vmm_free_set vmm_ready
proof unfold_locales
  show "finite (vmm_free_set s)" for s :: "'a vmm_state_scheme"
    by (simp add: vmm_free_set_def)
qed (rule vmm_alloc_page_pool)

text \<open>
  C11: while the first block has free pages below its high-water threshold, \<^verbatim>\<open>vmm_alloc_page\<close> returns the
  lowest free one, marks exactly that page, and keeps the allocator ready; nothing but the descriptor
  changes. So a number of calls that the free pages allow all return, with different pages.
\<close>

theorem vmm_alloc_page_distinct:
  assumes "vmm_ready s" "n \<le> card (vmm_free_set s)"
  shows "\<exists>ps t. alloc_many vmm_alloc_page n s = Inr (ps, t) \<and> length ps = n \<and> distinct ps \<and>
    set ps \<subseteq> vmm_free_set s \<and> vmm_free_set t = vmm_free_set s - set ps \<and> vmm_ready t"
  by (rule vmm_pool.alloc_many_distinct [OF assms])

section \<open>Initialisation\<close>

lemma load32_ones: "(\<And>j. j < 4 \<Longrightarrow> m (a + of_nat j) = 0xFF) \<Longrightarrow> load32 m a = 0xFFFFFFFF"
proof -
  assume a: "\<And>j. j < 4 \<Longrightarrow> m (a + of_nat j) = 0xFF"
  from a [of 0] a [of 1] a [of 2] a [of 3] show ?thesis by (simp add: load32_def)
qed

lemma desc_offset:
  assumes "n \<le> 32" "i < 37" "j < 4"
  shows "slot b i + of_nat j - b < of_nat n * 4 \<longleftrightarrow> i < n"
proof -
  have "slot b i + of_nat j - b = of_nat (4 * i + j)" by (simp add: slot_def)
  moreover have "unat (of_nat (4 * i + j) :: u32) = 4 * i + j"
    using assms by (simp only: unat_of_nat) simp
  moreover have "unat (of_nat n * 4 :: u32) = 4 * n"
    using assms by (simp add: unat_word_ariths unat_of_nat)
  ultimately have "slot b i + of_nat j - b < of_nat n * 4 \<longleftrightarrow> 4 * i + j < 4 * n"
    by (simp only: word_less_nat_alt)
  then show ?thesis using assms(3) by linarith
qed

lemma rd_memset_desc:
  assumes "n \<le> 32" "i < 37"
  shows "rd (slot b i) (s\<lparr>mem := memset (mem s) b 0xFF (of_nat n * 4)\<rparr>) =
    (if i < n then 0xFFFFFFFF else rd (slot b i) s)"
proof (cases "i < n")
  case True
  then show ?thesis using assms by (auto simp: rd_def memset_apply desc_offset intro!: load32_ones)
next
  case False
  then show ?thesis using assms by (auto simp: rd_def memset_apply desc_offset intro!: load32_cong)
qed

lemma outside_desc:
  assumes "desc_ok b" "aligned4 x" "x \<notin> slot b ` {..<37}" "j < 4"
  shows "148 \<le> x + of_nat j - b"
proof -
  define d where "d = unat (x - b)"
  have "4 dvd unat x" "4 dvd unat b" using assms(1,2) by (auto simp: desc_ok_def aligned4_def)
  then have "4 dvd d" unfolding d_def unat_sub_if' by (auto intro!: dvd_diff_nat dvd_add)
  then obtain e where e: "d = 4 * e" by blast
  have "x = b + of_nat d" by (simp add: d_def)
  then have "x = slot b e" by (simp add: e slot_def)
  with assms(3) have "37 \<le> e" by (metis imageI lessThan_iff not_le)
  moreover have "d < 2 ^ 32" unfolding d_def using unat_less_u32 by simp
  then have "unat (x - b + of_nat j) = d + j"
    using assms(4) e by (simp add: unat_word_ariths unat_of_nat flip: d_def)
  ultimately have "148 \<le> x - b + of_nat j" using e by (simp add: word_le_nat_alt)
  moreover have "x + of_nat j - b = x - b + of_nat j" by simp
  ultimately show ?thesis by (simp only:)
qed

lemma rd_memset_outside:
  assumes "desc_ok b" "aligned4 x" "x \<notin> slot b ` {..<37}" "n \<le> 32"
  shows "rd x (s\<lparr>mem := memset (mem s) b 0xFF (of_nat n * 4)\<rparr>) = rd x s"
proof -
  have "unat (of_nat n * 4 :: u32) = 4 * n" using assms(4) by (simp add: unat_word_ariths unat_of_nat)
  then have "\<not> x + of_nat j - b < of_nat n * 4" if "j < 4" for j
    using outside_desc [OF assms(1-3) that] assms(4) by (simp add: word_less_nat_alt word_le_nat_alt)
  then show ?thesis by (auto simp: rd_def memset_apply intro!: load32_cong)
qed

lemma low_bits: "r < 32 \<Longrightarrow> j < 32 \<Longrightarrow> bit (NOT (push_bit r (0xFFFFFFFF :: u32))) j \<longleftrightarrow> j < r"
  unfolding all_ones_mask by (auto simp: bit_simps)

lemma bitmap_below:
  fixes f k :: nat
  shows "k < f \<longleftrightarrow> k div 32 < f div 32 \<or> k div 32 = f div 32 \<and> k mod 32 < f mod 32"
proof -
  have "k = 32 * (k div 32) + k mod 32" "f = 32 * (f div 32) + f mod 32" by simp_all
  moreover have "k mod 32 < 32" "f mod 32 < 32" by simp_all
  ultimately show ?thesis by linarith
qed

text \<open>The descriptor \<^verbatim>\<open>vmm_init\<close> writes, word by word, with the page table \<open>p\<close> pages above the base.\<close>

lemma vmm_init_block_state:
  assumes b: "desc_ok b" and pt: "unat pt = 0xC0000000 + 4096 * p" "p < 1020"
  defines "n \<equiv> (p + 1) div 32"
  obtains t where "vmm_init_block pt b s = Inr ((), t)"
    "\<And>i. i < 37 \<Longrightarrow> rd (slot b i) t = (if i = n then NOT (push_bit ((p + 1) mod 32) 0xFFFFFFFF)
      else if i < n then 0xFFFFFFFF else if i = 33 then 1024 - of_nat (p + 1)
      else if i = 32 then of_nat (p + 1) else if i = 36 then 0 else if i = 35 then pt
      else if i = 34 then KERNEL_VIRT_BASE else rd (slot b i) s)"
    "\<And>x. aligned4 x \<Longrightarrow> x \<notin> slot b ` {..<37} \<Longrightarrow> rd x t = rd x s"
    "\<exists>m. t = s\<lparr>mem := m, vmm_block_list_head := b, vmm_block_list_tail := b\<rparr>"
proof -
  let ?f = "(V2P_ADDR pt + PAGE_SIZE) div PAGE_SIZE"
  have "unat (V2P_ADDR pt) = 4096 * p"
    using pt by (simp add: V2P_ADDR_def KERNEL_VIRT_BASE_def unat_sub_if')
  then have f: "?f = of_nat (p + 1)" "unat (of_nat (p + 1) :: u32) = p + 1"
    using pt(2) by (simp_all add: PAGE_SIZE_def word_unat_eq_iff unat_div unat_word_ariths unat_of_nat)
  have "unat (drop_bit 5 (of_nat (p + 1) :: u32)) = n"
    using f(2) by (simp only: unat_drop_bit_eq) (simp add: drop_bit_eq_div n_def)
  moreover have n: "n < 32" using pt(2) by (simp add: n_def)
  ultimately have d: "drop_bit 5 (of_nat (p + 1) :: u32) = of_nat n" "unat (of_nat n :: u32) = n"
    by (simp_all only: word_unat_eq_iff unat_of_nat) simp_all
  have r: "unat (of_nat (p + 1) mod 32 :: u32) = (p + 1) mod 32" using f(2) by (simp only: unat_mod) simp
  define s1 where "s1 = wr (slot b 33) (1024 - of_nat (p + 1)) (wr (slot b 32) (of_nat (p + 1))
    (wr (slot b 36) 0 (wr (slot b 35) pt (wr (slot b 34) KERNEL_VIRT_BASE s))))"
  define s2 where "s2 = s1\<lparr>mem := memset (mem s1) b 0xFF (of_nat n * 4)\<rparr>"
  define s3 where "s3 = wr (slot b n) (NOT (push_bit ((p + 1) mod 32) (0xFFFFFFFF :: u32))) s2"
  define t where "t = s3\<lparr>vmm_block_list_head := b, vmm_block_list_tail := b\<rparr>"
  have rt: "rd x t = rd x s3" for x by (simp add: t_def rd_def)
  show ?thesis
  proof (rule that)
    show "vmm_init_block pt b s = Inr ((), t)"
      unfolding vmm_init_block_def f(1) d(1) r Let_def using n d(2)
      by (simp add: desc_fields VMM_BITMAP_SIZE_def PAGE_TABLE_INDICES_def
          t_def s3_def s2_def s1_def slot_def)
    show "rd (slot b i) t = (if i = n then NOT (push_bit ((p + 1) mod 32) 0xFFFFFFFF)
      else if i < n then 0xFFFFFFFF else if i = 33 then 1024 - of_nat (p + 1)
      else if i = 32 then of_nat (p + 1) else if i = 36 then 0 else if i = 35 then pt
      else if i = 34 then KERNEL_VIRT_BASE else rd (slot b i) s)" if "i < 37" for i
      using that n rd_memset_desc [of n i b s1]
      by (simp add: rt s3_def rd_desc_wr [OF b] s2_def) (simp add: s1_def rd_desc_wr [OF b])
    show "rd x t = rd x s" if x: "aligned4 x" "x \<notin> slot b ` {..<37}" for x
    proof -
      have "rd x (wr (slot b j) v u) = rd x u" if "j < 37" for j v and u :: "'a vmm_state_scheme"
        using x that aligned4_desc_slot [OF b, of j] by (subst rd_wr_aligned) auto
      then show ?thesis
        using rd_memset_outside [OF b x, of n s1] n by (simp add: rt s3_def s2_def) (simp add: s1_def)
    qed
    show "\<exists>m. t = s\<lparr>mem := m, vmm_block_list_head := b, vmm_block_list_tail := b\<rparr>"
      by (simp add: t_def s3_def s2_def s1_def wr_def) blast
  qed
qed

lemma vmm_init_block_ready:
  assumes b: "desc_ok b" and pt: "page_aligned pt" "unat pt = 0xC0000000 + 4096 * p" "p < 1020"
    and present: "\<forall>i<1024. bit (rd (slot pt i) s) 0"
    and apart: "\<forall>i<37. \<forall>j<1024. slot b i \<noteq> slot pt j"
    and fresh: "\<forall>i<32. (p + 1) div 32 < i \<longrightarrow> rd (slot b i) s = 0"
  obtains t where "vmm_init_block pt b s = Inr ((), t)" "vmm_ready t" "vmm_block_list_head t = b"
    "\<forall>k<1024. page_used b k t \<longleftrightarrow> k \<le> p"
    "\<And>x. aligned4 x \<Longrightarrow> x \<notin> slot b ` {..<37} \<Longrightarrow> rd x t = rd x s"
    "\<exists>m. t = s\<lparr>mem := m, vmm_block_list_head := b, vmm_block_list_tail := b\<rparr>" "rd (page_table b) t = pt"
proof -
  define n where "n = (p + 1) div 32"
  have n: "n < 32" using pt(3) by (simp add: n_def)
  obtain t where t: "vmm_init_block pt b s = Inr ((), t)"
    "\<And>i. i < 37 \<Longrightarrow> rd (slot b i) t = (if i = n then NOT (push_bit ((p + 1) mod 32) 0xFFFFFFFF)
      else if i < n then 0xFFFFFFFF else if i = 33 then 1024 - of_nat (p + 1)
      else if i = 32 then of_nat (p + 1) else if i = 36 then 0 else if i = 35 then pt
      else if i = 34 then KERNEL_VIRT_BASE else rd (slot b i) s)"
    "\<And>x. aligned4 x \<Longrightarrow> x \<notin> slot b ` {..<37} \<Longrightarrow> rd x t = rd x s"
    "\<exists>m. t = s\<lparr>mem := m, vmm_block_list_head := b, vmm_block_list_tail := b\<rparr>"
    unfolding n_def by (rule vmm_init_block_state [OF b pt(2,3)]) blast
  have used: "page_used b k t \<longleftrightarrow> k \<le> p" if "k < 1024" for k
  proof -
    have "k div 32 < 32" using that by simp
    moreover have "k div 32 = n \<Longrightarrow> page_used b k t \<longleftrightarrow> k mod 32 < (p + 1) mod 32"
      using n by (simp add: page_used_def t(2) low_bits)
    moreover have "k div 32 < n \<Longrightarrow> page_used b k t"
      using n by (simp add: page_used_def t(2) all_ones_mask bit_simps)
    moreover have "n < k div 32 \<Longrightarrow> k div 32 < 32 \<Longrightarrow> \<not> page_used b k t"
      using fresh by (simp add: page_used_def t(2) n_def)
    ultimately have "page_used b k t \<longleftrightarrow> k < p + 1"
      using bitmap_below [of k "p + 1"] by (metis n_def nat_neq_iff)
    then show ?thesis by (simp add: less_Suc_eq_le)
  qed
  have hd: "vmm_block_list_head t = b" using t(4) by auto
  have "vmm_ready t"
  proof -
    have "{k. k < 1024 \<and> \<not> page_used b k t} = {p<..<1024}" using used by auto
    moreover have f: "unat (of_nat (p + 1) :: u32) = p + 1" using pt(3) by (simp only: unat_of_nat) simp
    then have "unat (1024 - of_nat (p + 1) :: u32) = 1023 - p"
      using pt(3) by (simp add: unat_sub_if' del: of_nat_add of_nat_Suc)
    moreover have "aligned4 (slot pt i)" "slot pt i \<notin> slot b ` {..<37}" if "i < 1024" for i
      using aligned4_slot [OF pt(1) that] apart that by (auto simp: eq_commute)
    then have "rd (slot pt i) t = rd (slot pt i) s" if "i < 1024" for i using t(3) that by blast
    ultimately show ?thesis
      using b pt present apart f n hd by (simp add: vmm_ready_def desc_fields t(2) del: of_nat_add of_nat_Suc)
  qed
  moreover have "\<forall>k<1024. page_used b k t \<longleftrightarrow> k \<le> p" using used by blast
  moreover have "rd (page_table b) t = pt" using n by (simp add: desc_fields t(2))
  ultimately show ?thesis using t(1,3,4) hd by (intro that)
qed

text \<open>
  An allocation from a heap of one block at the start of a page: the region is the end of the block;
  its header and first word and the size of the block are the only words that change.
\<close>

lemma clear_of_header:
  fixes x d :: u32
  assumes "unat d = 4 * k" "4096 \<le> unat x \<or> unat x = 4 * j + i \<and> j \<notin> {0, k, k + 1, k + 2}"
    "k + 3 \<le> 1024" "i < 4"
  shows "4 \<le> x \<and> 12 \<le> x - d"
proof (cases "unat d \<le> unat x")
  case True
  with assms have "4 * k + 12 \<le> unat x" "4 \<le> unat x" by auto
  with True assms(1) show ?thesis by (simp add: word_le_nat_alt unat_sub_if')
next
  case False
  with assms have "4 \<le> unat x" "unat d < 4096" by auto
  with False show ?thesis by (simp add: word_le_nat_alt unat_sub_if')
qed

lemma kmalloc_from_page:
  assumes "heap [(B, of_nat (4 * m))] s" "page_aligned B" "m \<le> 1024"
    "0 < sz" "unat sz \<le> 2 ^ 32 - 8" "(unat sz + 7) div 8 * 8 = 4 * w" "w + 10 \<le> m"
  obtains t where "kmalloc sz s = Inr (slot B (m - w), t)" "heap [(B, of_nat (4 * (m - w - 2)))] t"
    "\<exists>mm. t = s\<lparr>mem := mm\<rparr>"
    "\<And>q j. page_aligned q \<Longrightarrow> j < 1024 \<Longrightarrow> q \<noteq> B \<or> j \<notin> {0, m - w - 2, m - w - 1, m - w} \<Longrightarrow>
      rd (slot q j) t = rd (slot q j) s"
proof -
  let ?n = "kmalloc_alloc_size sz"
  have "0 < unat sz" using assms(4) by (simp add: word_less_nat_alt)
  then have w: "0 < w" using assms(6) by (cases w) auto
  have n: "?n = of_nat (4 * w)"
    using kmalloc_alloc_size_unat [OF assms(5)] assms(6) by (intro word_of_unat) simp
  have d: "B + of_nat (4 * m) - of_nat (4 * w) = slot B (m - w)"
    "slot B (m - w) - 8 = slot B (m - w - 2)"
    "of_nat (4 * m) - (of_nat (4 * w) + 8) = (of_nat (4 * (m - w - 2)) :: u32)"
    using assms(7) by (simp_all add: slot_def of_nat_diff algebra_simps)
  have um: "unat (of_nat (4 * m) :: u32) = 4 * m" using assms(3) by (simp only: unat_of_nat) simp
  have pre: "heap ([] @ (B, of_nat (4 * m)) # []) s" "\<forall>y\<in>set []. \<not> fits ?n y"
    "(unat sz + 7) div 8 * 8 + 40 \<le> unat (of_nat (4 * m) :: u32)"
    using assms(1,7) unfolding um assms(6) by simp_all
  obtain t where t: "kmalloc sz s = Inr (slot B (m - w), t)" "heap [(B, of_nat (4 * (m - w - 2)))] t"
    "\<And>a. 4 \<le> a - B \<Longrightarrow> 12 \<le> a - slot B (m - w - 2) \<Longrightarrow> mem t a = mem s a" "\<exists>m. t = s\<lparr>mem := m\<rparr>"
    by (rule kmalloc_splits [OF pre(1,2) assms(4,5) pre(3), unfolded n d append_Nil]) blast
  have "rd (slot q j) t = rd (slot q j) s"
    if q: "page_aligned q" "j < 1024" "q \<noteq> B \<or> j \<notin> {0, m - w - 2, m - w - 1, m - w}" for q j
    unfolding rd_def
  proof (rule load32_cong, rule t(3))
    fix i :: nat assume i: "i < 4"
    let ?x = "slot q j + of_nat i - B" and ?d = "4 * (m - w - 2)"
    have x: "?x = q + of_nat (4 * j + i) - B" by (simp add: slot_def)
    have lt: "4 * j + i < 4096" "?d < 4096" using q(2) i assms(3,7) by simp_all
    have e: "slot q j + of_nat i - slot B (m - w - 2) = ?x - of_nat ?d" by (simp add: slot_def)
    have ud: "unat (of_nat ?d :: u32) = ?d" using lt(2) by (simp only: unat_of_nat) simp
    have "4096 \<le> unat ?x \<or> unat ?x = 4 * j + i \<and> j \<notin> {0, m - w - 2, m - w - 1, m - w}"
    proof (cases "q = B")
      case True
      have "unat (of_nat (4 * j + i) :: u32) = 4 * j + i" using lt by (simp only: unat_of_nat) simp
      moreover have "?x = of_nat (4 * j + i)" using True by (simp add: slot_def)
      ultimately show ?thesis using q(3) True by (simp only:) simp
    next
      case False
      then have "\<not> ?x < PAGE_SIZE" unfolding x using page_offset_lt [OF assms(2) q(1) lt(1)] by blast
      then show ?thesis by (simp add: PAGE_SIZE_def word_less_nat_alt)
    qed
    moreover have "m - w - 1 = m - w - 2 + 1" "m - w = m - w - 2 + 2" "m - w - 2 + 3 \<le> 1024"
      using assms(3,7) w by simp_all
    ultimately have "4096 \<le> unat ?x \<or> unat ?x = 4 * j + i \<and> j \<notin> {0, m - w - 2, m - w - 2 + 1, m - w - 2 + 2}"
      "m - w - 2 + 3 \<le> 1024" by (simp_all only:)
    from clear_of_header [OF ud this i]
    show "4 \<le> slot q j + of_nat i - B" "12 \<le> slot q j + of_nat i - slot B (m - w - 2)"
      unfolding e by blast+
  qed
  with t(1,2,4) show ?thesis by (intro that)
qed

text \<open>The first allocation is the descriptor of the first virtual block, at offset 3944.\<close>

lemma kmalloc_descriptor:
  assumes "heap [(B, 4096)] s" "page_aligned B"
  obtains t where "kmalloc sizeof_vmm_block_desc s = Inr (slot B 986, t)" "\<exists>m. t = s\<lparr>mem := m\<rparr>"
    "heap [(B, of_nat (4 * 984))] t"
    "\<And>q j. page_aligned q \<Longrightarrow> j < 1024 \<Longrightarrow> q \<noteq> B \<or> j \<notin> {0, 984, 985, 986} \<Longrightarrow>
      rd (slot q j) t = rd (slot q j) s"
proof -
  have pre: "heap [(B, of_nat (4 * 1024))] s" "0 < sizeof_vmm_block_desc"
    "unat sizeof_vmm_block_desc \<le> 2 ^ 32 - 8" "(unat sizeof_vmm_block_desc + 7) div 8 * 8 = 4 * 38"
    using assms(1) by (simp_all add: sizeof_vmm_block_desc_def)
  obtain t where "kmalloc sizeof_vmm_block_desc s = Inr (slot B (1024 - 38), t)"
    "heap [(B, of_nat (4 * (1024 - 38 - 2)))] t" "\<exists>mm. t = s\<lparr>mem := mm\<rparr>"
    "\<And>q j. page_aligned q \<Longrightarrow> j < 1024 \<Longrightarrow> q \<noteq> B \<or> j \<notin> {0, 1024 - 38 - 2, 1024 - 38 - 1, 1024 - 38} \<Longrightarrow>
      rd (slot q j) t = rd (slot q j) s"
    by (rule kmalloc_from_page [OF pre(1) assms(2) order_refl pre(2-4)]) (simp, blast)
  then show ?thesis by (intro that [of t]) simp_all
qed

lemma heap_single:
  "heap [(B, n)] s \<longleftrightarrow> block_ok (B, n) \<and> block_list_head s = B \<and> rd (slot B 0) s = n \<and> rd (slot B 1) s = 0"
  by (auto simp: heap_def heap_ok_Cons rd_def slot_def)

lemma vmm_init_steps:
  assumes "heap [(B, 4096)] s" "page_aligned B" "\<forall>i<1024. 3 \<le> i \<longrightarrow> rd (slot B i) s = 0"
    "page_aligned pt" "B \<noteq> pt" "unat pt = 0xC0000000 + 4096 * p" "p < 1020"
    "\<forall>i<1024. bit (rd (slot pt i) s) 0"
  obtains t where "vmm_init pt s = Inr ((), t)" "vmm_ready t" "vmm_free_set t = vmm_page_addr ` {p<..<1021}"
    "heap [(B, of_nat (4 * 984))] t" "rd (page_table (slot B 986)) t = pt"
    "\<And>q j. page_aligned q \<Longrightarrow> j < 1024 \<Longrightarrow> q \<noteq> B \<Longrightarrow> rd (slot q j) t = rd (slot q j) s"
    "\<exists>m. t = s\<lparr>mem := m, vmm_block_list_head := slot B 986, vmm_block_list_tail := slot B 986\<rparr>"
proof -
  let ?b = "slot B 986"
  obtain u where u: "kmalloc sizeof_vmm_block_desc s = Inr (?b, u)" "\<exists>m. u = s\<lparr>mem := m\<rparr>"
    "heap [(B, of_nat (4 * 984))] u"
    "\<And>q j. page_aligned q \<Longrightarrow> j < 1024 \<Longrightarrow> q \<noteq> B \<or> j \<notin> {0, 984, 985, 986} \<Longrightarrow>
      rd (slot q j) u = rd (slot q j) s"
    by (rule kmalloc_descriptor [OF assms(1,2)]) blast
  have ub: "unat ?b = unat B + 3944" using unat_slot [OF assms(2), of 986] by simp
  have sl: "slot ?b i = slot B (986 + i)" for i by (simp add: slot_def)
  have ok: "desc_ok ?b"
    using aligned4_slot [OF assms(2), of 986] page_aligned_le [OF assms(2)] ub
    by (auto simp: desc_ok_def)
  have apart: "\<forall>i<37. \<forall>j<1024. slot ?b i \<noteq> slot pt j"
    using assms(2,4,5) by (simp add: sl slot_eq_iff)
  have present: "\<forall>i<1024. bit (rd (slot pt i) u) 0" using u(4) assms(4,5,8) by simp
  have fresh: "\<forall>i<32. (p + 1) div 32 < i \<longrightarrow> rd (slot ?b i) u = 0"
    using u(4) assms(2,3) by (simp add: sl)
  obtain t where t: "vmm_init_block pt ?b u = Inr ((), t)" "vmm_ready t" "vmm_block_list_head t = ?b"
    "\<forall>k<1024. page_used ?b k t \<longleftrightarrow> k \<le> p"
    "\<And>x. aligned4 x \<Longrightarrow> x \<notin> slot ?b ` {..<37} \<Longrightarrow> rd x t = rd x u"
    "\<exists>m. t = u\<lparr>mem := m, vmm_block_list_head := ?b, vmm_block_list_tail := ?b\<rparr>" "rd (page_table ?b) t = pt"
    by (rule vmm_init_block_ready [OF ok assms(4,6,7) present apart fresh]) blast
  have ret: "vmm_init pt s = Inr ((), t)" using u(1) t(1) ok by (simp add: vmm_init_def desc_ok_def)
  have "{k. k < 1021 \<and> \<not> page_used ?b k t} = {p<..<1021}" using t(4) by auto
  then have free: "vmm_free_set t = vmm_page_addr ` {p<..<1021}" by (simp add: vmm_free_set_def t(3))
  have keep: "rd (slot q j) t = rd (slot q j) u"
    if "page_aligned q" "j < 1024" "q \<noteq> B \<or> j < 986" for q j
  proof (rule t(5) [OF aligned4_slot [OF that(1,2)]])
    show "slot q j \<notin> slot ?b ` {..<37}" using that assms(2) by (auto simp: sl slot_eq_iff)
  qed
  have "block_list_head t = block_list_head u" using t(6) by auto
  then have "heap [(B, of_nat (4 * 984))] t" using u(3) keep [of B 0] keep [of B 1] assms(2) by (simp add: heap_single)
  moreover have "rd (slot q j) t = rd (slot q j) s" if "page_aligned q" "j < 1024" "q \<noteq> B" for q j
    using keep u(4) that by simp
  moreover have "\<exists>m. t = s\<lparr>mem := m, vmm_block_list_head := ?b, vmm_block_list_tail := ?b\<rparr>"
    using t(6) u(2) by auto
  ultimately show ?thesis using ret t(2,7) free by (intro that)
qed

lemma vmm_init_ready:
  assumes "heap [(B, 4096)] s" "page_aligned B" "\<forall>i<1024. 3 \<le> i \<longrightarrow> rd (slot B i) s = 0"
    "page_aligned pt" "B \<noteq> pt" "unat pt = 0xC0000000 + 4096 * p" "p < 1020"
    "\<forall>i<1024. bit (rd (slot pt i) s) 0"
  shows "\<exists>t. vmm_init pt s = Inr ((), t) \<and> vmm_ready t \<and> vmm_free_set t = vmm_page_addr ` {p<..<1021}"
  by (rule vmm_init_steps [OF assms]) blast

text \<open>
  \<^verbatim>\<open>vmm_init\<close>, with the heap as \<^verbatim>\<open>kmalloc_init\<close> leaves it on a zeroed array and the initial page table
  \<open>p\<close> pages above the kernel base, returns; it marks exactly the pages up to and including that table
  as used, and establishes the state in which \<^verbatim>\<open>vmm_alloc_page\<close> serves the pages above it.
\<close>

theorem vmm_init_serves:
  assumes "heap [(B, 4096)] s" "page_aligned B" "\<forall>i<1024. 3 \<le> i \<longrightarrow> rd (slot B i) s = 0"
    "page_aligned pt" "B \<noteq> pt" "unat pt = 0xC0000000 + 4096 * p" "p < 1020"
    "\<forall>i<1024. bit (rd (slot pt i) s) 0"
  shows "\<exists>t. vmm_init pt s = Inr ((), t) \<and> vmm_ready t \<and> vmm_free_set t = vmm_page_addr ` {p<..<1021}"
  using vmm_init_ready [OF assms] .

text \<open>A machine whose memory is zero except for a page table at 0xC0200000 with all pages present.\<close>

definition example_memory :: bytes where
  "example_memory a = (if a - 0xC0200000 < PAGE_SIZE then 1 else 0)"

lemma example_memory_words:
  assumes "page_aligned q" "i < 1024"
  shows "load32 example_memory (slot q i) = (if q = 0xC0200000 then 0x01010101 else 0)"
proof -
  have "example_memory (slot q i + of_nat j) = (if q = 0xC0200000 then 1 else 0)" if "j < 4" for j
  proof -
    have sl: "slot q i + of_nat j = q + of_nat (4 * i + j)" by (simp add: slot_def)
    have "4 * i + j < 4096" "page_aligned 0xC0200000"
      using assms(2) that by (simp_all add: page_aligned_def)
    then have "slot q i + of_nat j - 0xC0200000 < PAGE_SIZE \<longleftrightarrow> 0xC0200000 = q"
      unfolding sl using page_offset_lt assms(1) by blast
    then show ?thesis unfolding example_memory_def by auto
  qed
  from this [of 0] this [of 1] this [of 2] this [of 3] show ?thesis by (simp add: load32_def)
qed

lemma example_boot_words:
  assumes "page_aligned q" "i < 1024" "q \<noteq> 0xC0112000 \<or> 3 \<le> i"
  shows "rd (slot q i) (kmalloc_init example_symbols (s\<lparr>mem := example_memory\<rparr>))
    = (if q = 0xC0200000 then 0x01010101 else 0)"
proof -
  have B: "page_aligned 0xC0112000" by (simp add: page_aligned_def)
  have sl: "0xC0112000 = slot 0xC0112000 0" "0xC0112004 = slot 0xC0112000 1" "0xC0112008 = slot 0xC0112000 2"
    by (simp_all add: slot_def)
  have "rd (slot q i) (kmalloc_init example_symbols (s\<lparr>mem := example_memory\<rparr>)) =
      rd (slot q i) (wr (slot 0xC0112000 2) 0xC0112008 (wr (slot 0xC0112000 1) 0
        (wr (slot 0xC0112000 0) 4096 (s\<lparr>mem := example_memory\<rparr>))))"
    by (simp add: kmalloc_init_def example_symbols_def Let_def BLOCK_HEADER_SIZE_def slot_def rd_def wr_def)
  also have "\<dots> = load32 example_memory (slot q i)"
    using assms B by (auto simp: rd_slot_wr) (simp_all add: rd_def)
  finally show ?thesis using example_memory_words [OF assms(1,2)] by simp
qed

theorem vmm_init_serves_witness:
  "\<forall>s :: vmm_state. \<exists>t. vmm_init 0xC0200000 (kmalloc_init example_symbols (s\<lparr>mem := example_memory\<rparr>))
     = Inr ((), t) \<and> vmm_ready t \<and> vmm_free_set t = vmm_page_addr ` {512<..<1021}"
proof
  fix s :: vmm_state
  let ?s = "kmalloc_init example_symbols (s\<lparr>mem := example_memory\<rparr>)"
  have "page_aligned 0xC0112000" "page_aligned 0xC0200000" by (simp_all add: page_aligned_def)
  then show "\<exists>t. vmm_init 0xC0200000 ?s = Inr ((), t) \<and> vmm_ready t \<and>
      vmm_free_set t = vmm_page_addr ` {512<..<1021}"
    using example_heap(1) [of "s\<lparr>mem := example_memory\<rparr>"]
    by (intro vmm_init_serves [of "0xC0112000"]) (simp_all add: example_boot_words bit_0)
qed

lemma example_vmm:
  obtains t where "vmm_init 0xC0200000 (kmalloc_init example_symbols (s\<lparr>mem := example_memory\<rparr>)) = Inr ((), t)"
    "vmm_ready t" "vmm_free_set t = vmm_page_addr ` {512<..<1021}"
proof -
  have pa: "page_aligned 0xC0112000" "page_aligned 0xC0200000" by (simp_all add: page_aligned_def)
  have "\<exists>t. vmm_init 0xC0200000 (kmalloc_init example_symbols (s\<lparr>mem := example_memory\<rparr>)) = Inr ((), t) \<and>
      vmm_ready t \<and> vmm_free_set t = vmm_page_addr ` {512<..<1021}"
    using example_heap(1) [of "s\<lparr>mem := example_memory\<rparr>"] pa
    by (intro vmm_init_ready [of "0xC0112000"]) (simp_all add: example_boot_words bit_0)
  with that show ?thesis by blast
qed

theorem vmm_alloc_page_distinct_witness:
  "\<forall>s :: vmm_state. \<exists>t ps u. vmm_init 0xC0200000 (kmalloc_init example_symbols (s\<lparr>mem := example_memory\<rparr>)) = Inr ((), t) \<and>
     alloc_many vmm_alloc_page 500 t = Inr (ps, u) \<and> length ps = 500 \<and> distinct ps"
proof
  fix s :: vmm_state
  obtain t where t: "vmm_init 0xC0200000 (kmalloc_init example_symbols (s\<lparr>mem := example_memory\<rparr>)) = Inr ((), t)"
    "vmm_ready t" "vmm_free_set t = vmm_page_addr ` {512<..<1021}" by (rule example_vmm)
  have "inj_on vmm_page_addr {512<..<1021}" by (rule inj_onI) (simp add: vmm_page_addr_inj)
  then have "card (vmm_free_set t) = 508" by (simp add: t(3) card_image)
  then show "\<exists>t ps u. vmm_init 0xC0200000 (kmalloc_init example_symbols (s\<lparr>mem := example_memory\<rparr>)) = Inr ((), t) \<and>
     alloc_many vmm_alloc_page 500 t = Inr (ps, u) \<and> length ps = 500 \<and> distinct ps"
    using vmm_alloc_page_distinct [OF t(2), of 500] t(1) by auto
qed

section \<open>Freeing pages and finding their frames\<close>

lemma vmm_find_block_first:
  assumes "b \<noteq> 0" "load32 m (first_page b) \<le> load32 m (first_page b) + PAGE_TABLE_RANGE - PAGE_SIZE"
  shows "vmm_find_block m page b = Some b"
proof -
  have "page \<ge> load32 m (first_page b) \<or> page \<le> load32 m (first_page b) + PAGE_TABLE_RANGE - PAGE_SIZE"
    using assms(2) by (meson le_cases order_trans)
  then show ?thesis using assms(1) by (subst vmm_find_block.simps) (simp add: Let_def)
qed

lemma kernel_block_range:
  "KERNEL_VIRT_BASE \<le> KERNEL_VIRT_BASE + PAGE_TABLE_RANGE - PAGE_SIZE"
  by (simp add: KERNEL_VIRT_BASE_def PAGE_TABLE_RANGE_def PAGE_TABLE_INDICES_def PAGE_SIZE_def)

text \<open>
  \<^verbatim>\<open>vmm_free_page\<close> of a page of the first block clears exactly the bit of that page, but does not
  count the page as free again: the descriptor's \<^verbatim>\<open>free_pages\<close> keeps its value.
\<close>

theorem vmm_free_page_first_block:
  assumes "vmm_ready s" "k < 1024"
  shows "\<exists>t. vmm_free_page (vmm_page_addr k) s = Inr ((), t) \<and>
    (\<forall>l<1024. page_used (vmm_block_list_head s) l t \<longleftrightarrow> page_used (vmm_block_list_head s) l s \<and> l \<noteq> k) \<and>
    rd (free_pages (vmm_block_list_head s)) t = rd (free_pages (vmm_block_list_head s)) s"
proof -
  let ?b = "vmm_block_list_head s"
  have b: "desc_ok ?b" "load32 (mem s) (first_page ?b) = KERNEL_VIRT_BASE"
    using assms(1) by (simp_all add: vmm_ready_def Let_def rd_def)
  then have f: "vmm_find_block (mem s) p ?b = Some ?b" for p
    by (intro vmm_find_block_first) (simp_all add: desc_ok_def kernel_block_range)
  have "unat (V2P_ADDR (vmm_page_addr k)) = 4096 * k"
    using assms(2) by (simp add: vmm_page_addr_def V2P_ADDR_def PAGE_SIZE_def unat_word_ariths unat_of_nat)
  then have idx: "unat (V2P_ADDR (vmm_page_addr k) div PAGE_SIZE) = k"
    by (simp add: PAGE_SIZE_def unat_div)
  let ?i = "V2P_ADDR (vmm_page_addr k) div PAGE_SIZE" and ?w = "slot ?b (k div 32)"
  have u: "unat (?i div 32) = k div 32" "unat (?i mod 32) = k mod 32"
    using idx by (simp_all only: unat_div unat_mod) simp_all
  have w: "?b + 4 * (?i div 32) = ?w"
    unfolding slot_def word_of_unat [OF u(1)] ..
  have k32: "\<not> 32 \<le> k div 32" using assms(2) by simp
  let ?t = "wr ?w (CLEAR_BIT (rd ?w s) (k mod 32)) s"
  have "vmm_free_page (vmm_page_addr k) s = Inr ((), ?t)"
    using b(1) u k32 by (simp add: vmm_free_page_def f w desc_ok_def VMM_BITMAP_SIZE_def Let_def)
  moreover have "page_used ?b l ?t \<longleftrightarrow> page_used ?b l s \<and> l \<noteq> k" if "l < 1024" for l
  proof -
    have "l div 32 = k div 32 \<and> l mod 32 = k mod 32 \<longleftrightarrow> l = k" by (metis div_mod_decomp)
    moreover have "l div 32 < 37" "k div 32 < 37" using that assms(2) by simp_all
    ultimately show ?thesis by (auto simp: page_used_def rd_desc_wr [OF b(1)] bit_CLEAR_BIT)
  qed
  moreover have "rd (free_pages ?b) ?t = rd (free_pages ?b) s"
    using b(1) k32 by (simp add: desc_fields rd_desc_wr)
  ultimately show ?thesis by blast
qed

theorem vmm_free_page_first_block_witness:
  "\<forall>s :: vmm_state. \<exists>t u. vmm_init 0xC0200000 (kmalloc_init example_symbols (s\<lparr>mem := example_memory\<rparr>)) = Inr ((), t) \<and>
     vmm_free_page (vmm_page_addr 7) t = Inr ((), u) \<and> \<not> page_used (vmm_block_list_head t) 7 u"
proof
  fix s :: vmm_state
  obtain t where t: "vmm_init 0xC0200000 (kmalloc_init example_symbols (s\<lparr>mem := example_memory\<rparr>)) = Inr ((), t)"
    "vmm_ready t" by (rule example_vmm)
  then show "\<exists>t u. vmm_init 0xC0200000 (kmalloc_init example_symbols (s\<lparr>mem := example_memory\<rparr>)) = Inr ((), t) \<and>
     vmm_free_page (vmm_page_addr 7) t = Inr ((), u) \<and> \<not> page_used (vmm_block_list_head t) 7 u"
    using vmm_free_page_first_block [OF t(2), of 7] by auto
qed

text \<open>
  The range check of \<^verbatim>\<open>vmm_get_phys_addr\<close> and \<^verbatim>\<open>vmm_free_page\<close> accepts every address, because it joins
  the two bounds with "or": the frame of any address is looked up in the table of the first block, and
  freeing a page of a later block writes outside the first block's bitmap.
\<close>

theorem vmm_range_check_accepts_all:
  assumes "vmm_ready s"
  shows "vmm_get_phys_addr va s = Inr (frame_addr (pte_phys_addr
      (get_pte (rd (page_table (vmm_block_list_head s)) s) (PAGE_TABLE_INDEX va) s)), s) \<and>
    (KERNEL_VIRT_BASE + PAGE_TABLE_RANGE \<le> va \<longrightarrow> vmm_free_page va s = Inl (Undefined, s))"
proof -
  let ?b = "vmm_block_list_head s"
  have b: "?b \<noteq> 0" "load32 (mem s) (first_page ?b) = KERNEL_VIRT_BASE"
    using assms by (simp_all add: vmm_ready_def Let_def rd_def desc_ok_def)
  then have f: "vmm_find_block (mem s) p ?b = Some ?b" for p
    by (intro vmm_find_block_first) (simp_all add: kernel_block_range)
  have "VMM_BITMAP_SIZE \<le> unat (V2P_ADDR va div PAGE_SIZE div 32)"
    if "KERNEL_VIRT_BASE + PAGE_TABLE_RANGE \<le> va"
  proof -
    have ge: "0xC0400000 \<le> unat va"
      using that by (simp add: KERNEL_VIRT_BASE_def PAGE_TABLE_RANGE_def PAGE_TABLE_INDICES_def
          PAGE_SIZE_def word_le_nat_alt)
    then have "unat (V2P_ADDR va) = unat va - 0xC0000000"
      by (simp add: V2P_ADDR_def KERNEL_VIRT_BASE_def unat_sub_if')
    then show ?thesis using ge by (simp add: VMM_BITMAP_SIZE_def PAGE_SIZE_def unat_div)
  qed
  then show ?thesis using b f by (simp add: vmm_get_phys_addr_def vmm_free_page_def Let_def)
qed

theorem vmm_range_check_accepts_all_witness:
  "\<forall>s :: vmm_state. \<exists>t. vmm_init 0xC0200000 (kmalloc_init example_symbols (s\<lparr>mem := example_memory\<rparr>)) = Inr ((), t) \<and>
     vmm_free_page 0xC0400000 t = Inl (Undefined, t)"
proof
  fix s :: vmm_state
  obtain t where t: "vmm_init 0xC0200000 (kmalloc_init example_symbols (s\<lparr>mem := example_memory\<rparr>)) = Inr ((), t)"
    "vmm_ready t" by (rule example_vmm)
  then show "\<exists>t. vmm_init 0xC0200000 (kmalloc_init example_symbols (s\<lparr>mem := example_memory\<rparr>)) = Inr ((), t) \<and>
     vmm_free_page 0xC0400000 t = Inl (Undefined, t)"
    using vmm_range_check_accepts_all [OF t(2), of "0xC0400000"]
    by (auto simp: KERNEL_VIRT_BASE_def PAGE_TABLE_RANGE_def PAGE_TABLE_INDICES_def PAGE_SIZE_def)
qed

section \<open>Requests the heap cannot serve\<close>

lemma kmalloc_no_fit:
  assumes "heap bs s" "\<forall>y\<in>set bs. \<not> fits n y"
  shows "kmalloc_take n s = Some (0, s)"
proof -
  have "chain (mem s) (block_list_head s) bs 0" "\<forall>x\<in>set bs. fst x \<noteq> 0"
    using assms(1) by (auto simp: heap_def heap_ok_def block_ok_def)
  moreover have "find (fits n) bs = None" using assms(2) by (simp add: find_None_iff)
  ultimately show ?thesis using kmalloc_find_chain [of "mem s" "block_list_head s" bs n]
    by (simp add: kmalloc_take_def)
qed

text \<open>
  When no free block is large enough, \<^verbatim>\<open>kmalloc\<close> takes a page from the virtual page allocator and
  links it behind the last block, but returns NULL: the request fails although the memory for it is
  there now.
\<close>

theorem kmalloc_returns_null_after_growing:
  assumes "heap bs s" "\<forall>y\<in>set bs. \<not> fits (kmalloc_alloc_size sz) y" "0 < sz"
    "vmm_ready s" "vmm_free_set s \<noteq> {}" "block_list_tail s \<noteq> 0"
  shows "\<exists>p t. kmalloc sz s = Inr (0, t) \<and> p \<in> vmm_free_set s \<and> rd (block_list_tail s + 4) t = p"
proof -
  let ?b = "vmm_block_list_head s"
  from assms(5) obtain j where j: "j < 1021" "\<not> page_used ?b j s" by (auto simp: vmm_free_set_def)
  then obtain k where k: "\<not> page_used ?b k s" "\<forall>l<k. page_used ?b l s"
    using exists_least_iff [of "\<lambda>k. \<not> page_used ?b k s"] by metis
  with j have "k < 1021" by (metis not_less less_trans order_le_less)
  then obtain u where u: "vmm_alloc_page s = Inr (vmm_page_addr k, u)" "\<exists>m. u = s\<lparr>mem := m\<rparr>"
    by (rule vmm_alloc_page_ready [OF assms(4) _ k]) blast
  have "sz \<noteq> 0" using assms(3) by auto
  then have "kmalloc sz s = kmalloc_grow (vmm_page_addr k) u"
    using kmalloc_no_fit [OF assms(1,2)] u(1) by (simp add: kmalloc.simps)
  moreover have tl: "block_list_tail u = block_list_tail s" using u(2) by auto
  have "block_list_tail (wr a v r) = block_list_tail r" for a v and r :: "'a vmm_state_scheme"
    by (simp add: wr_def)
  then have "\<exists>t. kmalloc_grow (vmm_page_addr k) u = Inr (0, t) \<and> rd (block_list_tail s + 4) t = vmm_page_addr k"
    using assms(6) tl by (simp add: kmalloc_grow_def Let_def)
  moreover have "vmm_page_addr k \<in> vmm_free_set s" using k \<open>k < 1021\<close> by (auto simp: vmm_free_set_def)
  ultimately show ?thesis by auto
qed

theorem kmalloc_returns_null_after_growing_witness:
  "\<forall>s :: vmm_state. \<exists>t p u. vmm_init 0xC0200000 (kmalloc_init example_symbols (s\<lparr>mem := example_memory\<rparr>)) = Inr ((), t) \<and>
     kmalloc 24 (t\<lparr>block_list_head := 0, block_list_tail := 0xC0112000\<rparr>) = Inr (0, u) \<and>
     rd 0xC0112004 u = p \<and> p \<in> vmm_free_set t"
proof
  fix s :: vmm_state
  obtain t where t: "vmm_init 0xC0200000 (kmalloc_init example_symbols (s\<lparr>mem := example_memory\<rparr>)) = Inr ((), t)"
    "vmm_ready t" "vmm_free_set t = vmm_page_addr ` {512<..<1021}" by (rule example_vmm)
  let ?t = "t\<lparr>block_list_head := 0, block_list_tail := 0xC0112000\<rparr>"
  have "vmm_ready ?t" "vmm_free_set ?t = vmm_free_set t"
    using t(2) by (simp_all add: vmm_ready_def vmm_free_set_def page_used_def rd_def)
  moreover have "heap [] ?t" by (simp add: heap_def)
  moreover have "(513 :: nat) \<in> {512<..<1021}" by simp
  then have "{512<..<1021 :: nat} \<noteq> {}" by blast
  ultimately have "\<exists>p u. kmalloc 24 ?t = Inr (0, u) \<and> p \<in> vmm_free_set t \<and> rd (0xC0112000 + 4) u = p"
    using kmalloc_returns_null_after_growing [of "[]" ?t 24] t(3) by simp
  then show "\<exists>t p u. vmm_init 0xC0200000 (kmalloc_init example_symbols (s\<lparr>mem := example_memory\<rparr>)) = Inr ((), t) \<and>
     kmalloc 24 (t\<lparr>block_list_head := 0, block_list_tail := 0xC0112000\<rparr>) = Inr (0, u) \<and>
     rd 0xC0112004 u = p \<and> p \<in> vmm_free_set t"
    using t(1) by (auto simp: ac_simps)
qed

text \<open>
  A request of more than 4294967288 bytes wraps around to 0 when it is rounded up: \<^verbatim>\<open>kmalloc\<close> returns
  the address just past the first block of at least 40 bytes, as a pointer to that many bytes, and its
  header writes over the word at that address.
\<close>

theorem kmalloc_size_wraps:
  assumes "heap ((b, bsz) # hi) s" "40 \<le> unat bsz" "2 ^ 32 - 8 < unat sz"
  shows "\<exists>t. kmalloc sz s = Inr (b + bsz, t) \<and> rd (b + bsz) t = b + bsz"
proof -
  have ok: "block_ok (b, bsz)" "rd b s = bsz" "kmalloc_find (mem s) 0 (block_list_head s) = Some b"
    using assms(1) by (auto simp: heap_def heap_ok_Cons rd_def block_ok_def kmalloc_find.simps)
  have e: "unat (b + bsz) = unat b + unat bsz" "unat (b + bsz - 8) = unat b + unat bsz - 8"
    using ok(1) assms(2) by (simp_all add: block_ok_def unat_word_ariths unat_sub_if')
  have "unat b mod 8 = 0" "unat bsz mod 8 = 0" using ok(1) by (simp_all add: block_ok_def)
  moreover then have "unat (b + bsz) mod 8 = 0" "unat (b + bsz - 8) mod 8 = 0"
    unfolding e using assms(2) by presburger+
  ultimately have al: "unat b mod 8 = 0" "unat (b + bsz) mod 8 = 0" "unat (b + bsz - 8) mod 8 = 0" by blast+
  have ne: "b \<noteq> b + bsz" "b + bsz \<noteq> b" "b + bsz - 8 \<noteq> b" "b \<noteq> b + bsz - 8" "b + bsz \<noteq> b + bsz - 8" "b + bsz \<noteq> 0"
    using e assms(2) by auto
  have "unat (sz + 7) < 8" using assms(3) unat_less_u32 [of sz]
    by (simp add: unat_word_ariths le_mod_geq)
  then have "unat (drop_bit 3 (sz + 7)) = 0" by (simp only: unat_drop_bit_eq) (simp add: drop_bit_eq_div)
  then have "drop_bit 3 (sz + 7) = 0" by (simp only: unat_eq_zero)
  then have n: "kmalloc_alloc_size sz = 0" by (simp add: kmalloc_alloc_size_def)
  have "unat (bsz - 8) = unat bsz - 8" using assms(2) by (simp add: unat_sub_if')
  then have "SMALLEST_BLOCK_SIZE \<le> bsz - BLOCK_HEADER_SIZE"
    using assms(2) by (simp add: SMALLEST_BLOCK_SIZE_def BLOCK_HEADER_SIZE_def word_le_nat_alt)
  then have take: "kmalloc_take 0 s = Some (kmalloc_split_block b 0 s)"
    using ok ne by (auto simp: kmalloc_take_def block_ok_def)
  obtain t where "kmalloc_split_block b 0 s = (b + bsz, t)" "rd (b + bsz) t = b + bsz"
    using ok(2) ne al by (simp add: kmalloc_split_block_def BLOCK_HEADER_SIZE_def Let_def rd_def wr_def load_store_header)
  moreover have "sz \<noteq> 0" using assms(3) by auto
  ultimately show ?thesis using take n ne by (simp add: kmalloc.simps)
qed

theorem kmalloc_size_wraps_witness:
  "\<forall>s :: vmm_state. \<exists>t. kmalloc 0xFFFFFFFF (kmalloc_init example_symbols s) = Inr (0xC0113000, t) \<and>
     rd 0xC0113000 t = 0xC0113000"
proof
  fix s :: vmm_state
  show "\<exists>t. kmalloc 0xFFFFFFFF (kmalloc_init example_symbols s) = Inr (0xC0113000, t) \<and>
     rd 0xC0113000 t = 0xC0113000"
    using kmalloc_size_wraps [of "0xC0112000" 4096 "[]" "kmalloc_init example_symbols s" "0xFFFFFFFF"]
      example_heap(1) [of s] by simp
qed

section \<open>Heap and page allocator after initialisation\<close>

text \<open>
  The state the kernel runs in once both are initialised: the heap is one block of \<open>m\<close> words at the
  start of its page \<open>B\<close>, the descriptor of the page allocator is at the end of that page, and neither
  that page nor the page table is ever handed out.
\<close>

definition boot_heap :: "u32 \<Rightarrow> nat \<Rightarrow> 'a vmm_state_scheme \<Rightarrow> bool" where
  "boot_heap B m s \<longleftrightarrow> page_aligned B \<and> m \<le> 984 \<and> heap [(B, of_nat (4 * m))] s \<and> vmm_ready s \<and>
     vmm_block_list_head s = slot B 986 \<and> B \<notin> vmm_free_set s \<and>
     rd (page_table (slot B 986)) s \<notin> vmm_free_set s"

text \<open>What these states depend on.\<close>

lemma vmm_ready_cong:
  assumes "vmm_ready s" "vmm_block_list_head t = vmm_block_list_head s"
    "\<And>i. i < 37 \<Longrightarrow> rd (slot (vmm_block_list_head s) i) t = rd (slot (vmm_block_list_head s) i) s"
    "\<And>j. j < 1024 \<Longrightarrow> rd (slot (rd (page_table (vmm_block_list_head s)) s) j) t
      = rd (slot (rd (page_table (vmm_block_list_head s)) s) j) s"
  shows "vmm_ready t" "vmm_free_set t = vmm_free_set s"
    "k < 1024 \<Longrightarrow> page_used (vmm_block_list_head s) k t = page_used (vmm_block_list_head s) k s"
proof -
  let ?b = "vmm_block_list_head s"
  have u: "page_used ?b k t = page_used ?b k s" if "k < 1024" for k
    using assms(3) [of "k div 32"] that by (simp add: page_used_def)
  then show "k < 1024 \<Longrightarrow> page_used ?b k t = page_used ?b k s" .
  have "{k. k < 1024 \<and> \<not> page_used ?b k t} = {k. k < 1024 \<and> \<not> page_used ?b k s}" using u by auto
  moreover have "rd (slot ?b i) t = rd (slot ?b i) s" if "i < 37" for i using assms(3) that .
  ultimately show "vmm_ready t"
    using assms(1,4) by (simp add: vmm_ready_def Let_def assms(2) desc_fields)
  have "{k. k < 1021 \<and> \<not> page_used ?b k t} = {k. k < 1021 \<and> \<not> page_used ?b k s}" using u by auto
  then show "vmm_free_set t = vmm_free_set s" by (simp add: vmm_free_set_def assms(2))
qed

lemma slot_slot: "slot (slot B i) j = slot B (i + j)"
  by (simp add: slot_def algebra_simps)

lemma boot_heap_cong:
  assumes "boot_heap B m s" "block_list_head t = block_list_head s"
    "vmm_block_list_head t = vmm_block_list_head s"
    "\<And>i. i < 1024 \<Longrightarrow> i \<in> {0, 1} \<or> 986 \<le> i \<Longrightarrow> rd (slot B i) t = rd (slot B i) s"
    "\<And>j. j < 1024 \<Longrightarrow> rd (slot (rd (page_table (slot B 986)) s) j) t
      = rd (slot (rd (page_table (slot B 986)) s) j) s"
  shows "boot_heap B m t" "vmm_free_set t = vmm_free_set s"
proof -
  have b: "vmm_ready s" "vmm_block_list_head s = slot B 986"
    using assms(1) by (simp_all add: boot_heap_def)
  have d: "rd (slot (slot B 986) i) t = rd (slot (slot B 986) i) s" if "i < 37" for i
    using assms(4) [of "986 + i"] that by (simp add: slot_slot)
  note c = vmm_ready_cong [OF b(1) assms(3), unfolded b(2), OF d assms(5)]
  show "vmm_free_set t = vmm_free_set s" using c(2) by simp
  moreover have "vmm_ready t" using c(1) by simp
  moreover have "rd (page_table (slot B 986)) t = rd (page_table (slot B 986)) s"
    using d [of 35] by (simp add: desc_fields)
  ultimately show "boot_heap B m t"
    using assms(1-4) by (simp add: boot_heap_def heap_single)
qed

lemma vmm_init_boot:
  assumes "heap [(B, 4096)] s" "page_aligned B" "\<forall>i<1024. 3 \<le> i \<longrightarrow> rd (slot B i) s = 0"
    "page_aligned pt" "unat B < unat pt" "unat pt = 0xC0000000 + 4096 * p" "p < 1020"
    "\<forall>i<1024. bit (rd (slot pt i) s) 0"
  obtains t where "vmm_init pt s = Inr ((), t)" "boot_heap B 984 t" "vmm_free_set t = vmm_page_addr ` {p<..<1021}"
    "rd (page_table (vmm_block_list_head t)) t = pt" "vmm_block_list_head t = slot B 986"
    "\<And>q j. page_aligned q \<Longrightarrow> j < 1024 \<Longrightarrow> q \<noteq> B \<Longrightarrow> rd (slot q j) t = rd (slot q j) s"
    "\<exists>m. t = s\<lparr>mem := m, vmm_block_list_head := slot B 986, vmm_block_list_tail := slot B 986\<rparr>"
proof -
  have "B \<noteq> pt" using assms(5) by auto
  from vmm_init_steps [OF assms(1-4) this assms(6-8)] obtain t where t: "vmm_init pt s = Inr ((), t)" "vmm_ready t"
    "vmm_free_set t = vmm_page_addr ` {p<..<1021}" "heap [(B, of_nat (4 * 984))] t" "rd (page_table (slot B 986)) t = pt"
    "\<And>q j. page_aligned q \<Longrightarrow> j < 1024 \<Longrightarrow> q \<noteq> B \<Longrightarrow> rd (slot q j) t = rd (slot q j) s"
    "\<exists>m. t = s\<lparr>mem := m, vmm_block_list_head := slot B 986, vmm_block_list_tail := slot B 986\<rparr>" by blast
  have hd: "vmm_block_list_head t = slot B 986" using t(7) by auto
  have "q \<notin> vmm_free_set t" if "unat q \<le> unat pt" for q
    using that assms(6,7) by (auto simp: t(3) vmm_page_addr_unat)
  then have "boot_heap B 984 t" using t(2,4,5) assms(2,5) hd by (simp add: boot_heap_def)
  then show ?thesis using t hd by (intro that) simp_all
qed

end
