(* ===== verification/Userspace.thy ===== *)
theory Userspace
  imports Vmm
begin

text \<open>
  The address spaces for user code in \<^verbatim>\<open>kernel/memory/paging.c\<close>: \<^verbatim>\<open>paging_create_userspace\<close>, which builds a
  page directory for a boot module, and \<^verbatim>\<open>paging_add_temp_userspace\<close>, which the kernel calls at boot and
  which opens the kernel's own directory to user code.
\<close>

section \<open>Operations\<close>

definition user_pte :: page_table_entry where
  "user_pte = zero_pte\<lparr>pte_present := True, pte_r_w := True, pte_user := True\<rparr>"

definition user_pde :: page_directory_entry where
  "user_pde = zero_pde\<lparr>pde_present := True, pde_r_w := True, pde_user := True\<rparr>"

definition paging_create_userspace ::
  "user_task_info \<Rightarrow> 'a vmm_state_scheme \<Rightarrow> ('a vmm_state_scheme, u32) result" where
  "paging_create_userspace task s =
     bindR (vmm_alloc_page s) (\<lambda>new_userspace s.
     bindR (vmm_get_phys_addr new_userspace s) (\<lambda>user_page_directory_addr s.
     let s = fold (\<lambda>i s. put_pde new_userspace i (get_pde (kernel_page_directory s) i s) s)
               [PAGE_DIRECTORY_INDEX KERNEL_VIRT_BASE..<PAGE_TABLE_INDICES] s in
     bindR (vmm_alloc_page s) (\<lambda>user_program_pt s.
     bindR (vmm_get_phys_addr user_program_pt s) (\<lambda>user_prog_pt_addr s.
     let s = put_pte user_program_pt 0 (paging_set_page_table_addr user_pte (phys_addr_start task)) s;
         s = put_pde new_userspace 0 (paging_set_page_directory_addr user_pde user_prog_pt_addr) s;
         stack_address_base = KERNEL_VIRT_BASE - PAGE_SIZE;
         stack_page_directory_index = PAGE_DIRECTORY_INDEX stack_address_base;
         stack_page_table_index = PAGE_TABLE_INDEX stack_address_base in
     bindR (vmm_alloc_page s) (\<lambda>user_stack_pt s.
     bindR (vmm_get_phys_addr user_stack_pt s) (\<lambda>user_stack_pt_addr s.
     let s = put_pte user_stack_pt stack_page_table_index
               (paging_set_page_table_addr user_pte (phys_addr_start task)) s;
         s = put_pde new_userspace stack_page_directory_index
               (paging_set_page_directory_addr user_pde user_stack_pt_addr) s
     in Inr (user_page_directory_addr, s)))))))"

definition paging_add_temp_userspace ::
  "'a vmm_state_scheme \<Rightarrow> ('a vmm_state_scheme, unit) result" where
  "paging_add_temp_userspace s =
     bindR (vmm_alloc_page s) (\<lambda>userspace_page_table s.
     let s = fold (\<lambda>i s.
               let entry = paging_set_page_table_addr zero_pte (of_nat i * PAGE_SIZE);
                   entry = entry\<lparr>pte_present := True, pte_r_w := True, pte_user := True,
                     pte_global_translation := True\<rparr>
               in put_pte userspace_page_table i entry s) [0..<1024] s in
     bindR (vmm_get_phys_addr userspace_page_table s) (\<lambda>phys_userspace_page_table s.
     let user_pd_entry = paging_set_page_directory_addr zero_pde phys_userspace_page_table;
         user_pd_entry = user_pd_entry\<lparr>pde_present := True, pde_r_w := True, pde_user := True,
           pde_global_translation := True\<rparr>;
         s = put_pde (kernel_page_directory s) 0 user_pd_entry s;
         stack_address_base = KERNEL_VIRT_BASE - PAGE_SIZE;
         stack_page_directory_index = PAGE_DIRECTORY_INDEX stack_address_base;
         stack_page_table_index = PAGE_TABLE_INDEX stack_address_base in
     bindR (vmm_alloc_page s) (\<lambda>user_stack_pt s.
     bindR (vmm_get_phys_addr user_stack_pt s) (\<lambda>user_stack_pt_addr s.
     bindR (pmm_alloc_page s) (\<lambda>stack_page s.
     let stack_pt_entry = paging_set_page_table_addr (user_pte\<lparr>pte_global_translation := True\<rparr>) stack_page;
         s = put_pte user_stack_pt stack_page_table_index stack_pt_entry s;
         stack_pd_entry = paging_set_page_directory_addr (user_pde\<lparr>pde_global_translation := True\<rparr>) user_stack_pt_addr;
         s = put_pde (kernel_page_directory s) stack_page_directory_index stack_pd_entry s
     in Inr ((), paging_flush_tlb s))))))"

text \<open>The user program of \<^verbatim>\<open>user/main.c\<close>, the boot module these directories are for: it loops for ever.\<close>

definition test_stack :: "'a machine_scheme \<Rightarrow> ('a machine_scheme, u32) result" where
  "test_stack s = Inl (Spin, s)"

definition user_main :: "'a machine_scheme \<Rightarrow> ('a machine_scheme, u32) result" where
  "user_main s = bindR (test_stack s) (\<lambda>_ s. Inr (0, s))"

section \<open>The kernel's address space as these routines find it\<close>

text \<open>
  The page table of the first virtual block maps the kernel's 4 MiB to the physical memory from 0 on, the
  kernel's directory is loaded and enters that table at 0xC0000000, and the descriptor of the block is in none
  of the pages that are written here.
\<close>

definition kernel_space :: "'a vmm_state_scheme \<Rightarrow> bool" where
  "kernel_space s \<longleftrightarrow>
     (let pd = kernel_page_directory s; b = vmm_block_list_head s; pt = rd (page_table b) s in
      vmm_ready s \<and> page_aligned pd \<and> P2V_ADDR (cr3 s) = pd \<and> pd \<noteq> pt \<and>
      rd (slot pd 0x300) s = word_of_pde (kernel_pde (V2P_ADDR pt)) \<and>
      (\<forall>i<1024. rd (slot pt i) s = word_of_pte (kernel_pte (of_nat i * PAGE_SIZE))) \<and>
      pd \<notin> vmm_free_set s \<and> pt \<notin> vmm_free_set s \<and>
      (\<forall>q\<in>insert pd (vmm_free_set s). \<forall>i<37. \<forall>j<1024. slot b i \<noteq> slot q j))"

text \<open>A page that these routines may write: not the page table and not the page of the descriptor.\<close>

definition writable_page :: "u32 \<Rightarrow> 'a vmm_state_scheme \<Rightarrow> bool" where
  "writable_page q s \<longleftrightarrow> page_aligned q \<and> q \<noteq> rd (page_table (vmm_block_list_head s)) s \<and>
     (\<forall>i<37. \<forall>j<1024. slot (vmm_block_list_head s) i \<noteq> slot q j)"

lemma kernel_space_pages:
  assumes "kernel_space s"
  shows "vmm_ready s" "page_aligned (rd (page_table (vmm_block_list_head s)) s)" "desc_ok (vmm_block_list_head s)"
    "q = kernel_page_directory s \<or> q \<in> vmm_free_set s \<Longrightarrow> writable_page q s"
proof -
  show r: "vmm_ready s" using assms by (simp add: kernel_space_def Let_def)
  then show "page_aligned (rd (page_table (vmm_block_list_head s)) s)" "desc_ok (vmm_block_list_head s)"
    by (simp_all add: vmm_ready_def Let_def)
  show "writable_page q s" if "q = kernel_page_directory s \<or> q \<in> vmm_free_set s"
    using assms that vmm_free_set_page(1) by (auto simp: kernel_space_def Let_def writable_page_def)
qed

text \<open>Everything that holds of the state is kept by writes to such pages.\<close>

lemma kernel_space_cong:
  assumes "kernel_space s" "\<exists>m. t = s\<lparr>mem := m\<rparr>"
    "\<And>i. i < 37 \<Longrightarrow> rd (slot (vmm_block_list_head s) i) t = rd (slot (vmm_block_list_head s) i) s"
    "\<And>j. j < 1024 \<Longrightarrow> rd (slot (rd (page_table (vmm_block_list_head s)) s) j) t
      = rd (slot (rd (page_table (vmm_block_list_head s)) s) j) s"
    "rd (slot (kernel_page_directory s) 0x300) t = rd (slot (kernel_page_directory s) 0x300) s"
  shows "kernel_space t" "vmm_free_set t = vmm_free_set s" "rd (page_table (vmm_block_list_head s)) t = rd (page_table (vmm_block_list_head s)) s"
proof -
  have same: "vmm_block_list_head t = vmm_block_list_head s" "kernel_page_directory t = kernel_page_directory s"
    "cr3 t = cr3 s" using assms(2) by auto
  note c = vmm_ready_cong [OF kernel_space_pages(1) [OF assms(1)] same(1) assms(3,4)]
  show f: "vmm_free_set t = vmm_free_set s" using c(2) by simp
  show p: "rd (page_table (vmm_block_list_head s)) t = rd (page_table (vmm_block_list_head s)) s"
    using assms(3) [of 35] by (simp add: desc_fields)
  show "kernel_space t"
    using assms(1,4,5) c(1) by (simp add: kernel_space_def Let_def same f p)
qed

lemma kernel_space_wr:
  assumes "kernel_space s" "writable_page q s" "i < 1024" "q \<noteq> kernel_page_directory s \<or> i \<noteq> 0x300"
  shows "kernel_space (wr (slot q i) v s)" "vmm_free_set (wr (slot q i) v s) = vmm_free_set s"
    "writable_page p (wr (slot q i) v s) = writable_page p s"
    "vmm_block_list_head (wr (slot q i) v s) = vmm_block_list_head s"
    "kernel_page_directory (wr (slot q i) v s) = kernel_page_directory s"
    "pmm (wr (slot q i) v s) = pmm s" "cr3 (wr (slot q i) v s) = cr3 s"
proof -
  let ?t = "wr (slot q i) v s" and ?b = "vmm_block_list_head s"
  note k = kernel_space_pages [OF assms(1)]
  have q: "page_aligned q" "q \<noteq> rd (page_table ?b) s" "\<forall>i<37. \<forall>j<1024. slot ?b i \<noteq> slot q j"
    using assms(2) by (simp_all add: writable_page_def)
  have m: "\<exists>m. ?t = s\<lparr>mem := m\<rparr>" by (auto simp: wr_def)
  have d: "rd (slot ?b j) ?t = rd (slot ?b j) s" if "j < 37" for j
    using q(3) that assms(3) aligned4_slot [OF q(1) assms(3)] aligned4_desc_slot [OF k(3) that]
    by (simp add: rd_wr_aligned) metis
  have pt: "rd (slot (rd (page_table ?b) s) j) ?t = rd (slot (rd (page_table ?b) s) j) s" if "j < 1024" for j
    using q(1,2) k(2) assms(3) that by (simp add: rd_slot_wr)
  have "page_aligned (kernel_page_directory s)" using assms(1) by (simp add: kernel_space_def Let_def)
  then have pd: "rd (slot (kernel_page_directory s) 0x300) ?t = rd (slot (kernel_page_directory s) 0x300) s"
    using q(1) assms(3,4) by (auto simp: rd_slot_wr)
  note c = kernel_space_cong [OF assms(1) m d pt pd]
  show "kernel_space ?t" "vmm_free_set ?t = vmm_free_set s" using c(1,2) by simp_all
  show "vmm_block_list_head ?t = ?b" "kernel_page_directory ?t = kernel_page_directory s" "pmm ?t = pmm s"
    "cr3 ?t = cr3 s" by (simp_all add: wr_def)
  then show "writable_page p ?t = writable_page p s" using c(3) by (simp add: writable_page_def)
qed

lemma notin_desc: "\<forall>i<37. \<forall>j<1024. slot b i \<noteq> slot p j \<Longrightarrow> j < 1024 \<Longrightarrow> slot p j \<notin> slot b ` {..<34}"
proof
  assume a: "\<forall>i<37. \<forall>j<1024. slot b i \<noteq> slot p j" "j < 1024" "slot p j \<in> slot b ` {..<34}"
  from a(3) obtain i where i: "slot p j = slot b i" "i < 34" by auto
  from i(2) have "i < 37" by simp
  with a(1,2) i(1) [symmetric] show False by blast
qed

lemma kernel_space_take:
  assumes "kernel_space s" "vmm_free_set s \<noteq> {}"
  obtains q t where "vmm_alloc_page s = Inr (q, t)" "q \<in> vmm_free_set s" "kernel_space t"
    "vmm_free_set t = vmm_free_set s - {q}" "\<exists>m. t = s\<lparr>mem := m\<rparr>"
    "\<And>p j. writable_page p s \<Longrightarrow> j < 1024 \<Longrightarrow> rd (slot p j) t = rd (slot p j) s"
    "\<And>p. writable_page p t = writable_page p s"
    "\<And>x. aligned4 x \<Longrightarrow> x \<notin> slot (vmm_block_list_head s) ` {..<34} \<Longrightarrow> rd x t = rd x s"
proof -
  let ?b = "vmm_block_list_head s"
  note k = kernel_space_pages [OF assms(1)]
  obtain q t where t: "vmm_alloc_page s = Inr (q, t)" "q \<in> vmm_free_set s" "vmm_ready t"
    "vmm_free_set t = vmm_free_set s - {q}" "\<exists>m. t = s\<lparr>mem := m\<rparr>"
    "\<And>x. aligned4 x \<Longrightarrow> x \<notin> slot ?b ` {..<34} \<Longrightarrow> rd x t = rd x s"
    by (rule vmm_take_page [OF k(1) assms(2)]) blast
  have w: "rd (slot p j) t = rd (slot p j) s" if "writable_page p s" "j < 1024" for p j
    using that aligned4_slot by (intro t(6) notin_desc) (simp_all add: writable_page_def)
  have tab: "rd (slot (rd (page_table ?b) s) j) t = rd (slot (rd (page_table ?b) s) j) s" if "j < 1024" for j
    using k(1) that by (intro t(6) [OF aligned4_slot [OF k(2) that]] notin_desc) (simp_all add: vmm_ready_def Let_def)
  have fld: "rd (page_table ?b) t = rd (page_table ?b) s"
  proof (unfold desc_fields, rule t(6))
    show "aligned4 (slot ?b 35)" by (rule aligned4_desc_slot [OF k(3)]) simp
    show "slot ?b 35 \<notin> slot ?b ` {..<34}" by (auto simp: desc_slot_eq [OF k(3)])
  qed
  have same: "vmm_block_list_head t = ?b" "kernel_page_directory t = kernel_page_directory s" "cr3 t = cr3 s"
    using t(5) by auto
  have pd: "rd (slot (kernel_page_directory s) 0x300) t = rd (slot (kernel_page_directory s) 0x300) s"
    by (rule w) (simp_all add: k(4))
  have "kernel_space t"
    using assms(1) t(3,4) tab pd by (simp add: kernel_space_def Let_def same fld)
  moreover have "writable_page p t = writable_page p s" for p by (simp add: writable_page_def same fld)
  ultimately show ?thesis using t(1,2,4-6) w by (intro that)
qed

text \<open>A page of the first block is at its own frame.\<close>

lemma kernel_space_phys:
  assumes "kernel_space s" "unat q = 0xC0000000 + 4096 * k" "k < 1024"
  shows "vmm_get_phys_addr q s = Inr (V2P_ADDR q, s)"
proof -
  let ?b = "vmm_block_list_head s"
  have r: "vmm_ready s" "\<forall>i<1024. rd (slot (rd (page_table ?b) s) i) s = word_of_pte (kernel_pte (of_nat i * PAGE_SIZE))"
    using assms(1) by (simp_all add: kernel_space_def Let_def)
  have b: "?b \<noteq> 0" "load32 (mem s) (first_page ?b) = KERNEL_VIRT_BASE"
    using r(1) by (simp_all add: vmm_ready_def Let_def rd_def desc_ok_def)
  have i: "PAGE_TABLE_INDEX q = k" using assms(2,3) mod_mult_self4 [of 1024 768 k] by (simp add: unat_PAGE_TABLE_INDEX)
  have "V2P_ADDR q = of_nat k * PAGE_SIZE"
    using assms(2,3) by (simp add: word_unat_eq_iff unat_frame V2P_ADDR_def KERNEL_VIRT_BASE_def unat_sub_if')
  moreover have "vmm_find_block (mem s) q ?b = Some ?b"
    using b by (intro vmm_find_block_first) (simp_all add: kernel_block_range)
  ultimately show ?thesis
    using b(1) r(2) assms(3) kernel_pte_frame [OF assms(3)] by (simp add: vmm_get_phys_addr_def i get_pte_def)
qed

lemma vmm_free_set_unat: "q \<in> vmm_free_set s \<Longrightarrow> \<exists>k<1024. unat q = 0xC0000000 + 4096 * k"
  by (auto simp: vmm_free_set_def vmm_page_addr_unat)

section \<open>Opening the kernel's directory to user code\<close>

text \<open>The processor allows user mode to access an address.\<close>

definition mmu_user :: "'a machine_scheme \<Rightarrow> u32 \<Rightarrow> bool" where
  "mmu_user s va \<longleftrightarrow>
     (let pde = get_pde (P2V_ADDR (cr3 s)) (PAGE_DIRECTORY_INDEX va) s;
          pte = get_pte (P2V_ADDR (frame_addr (pde_phys_addr pde))) (PAGE_TABLE_INDEX va) s
      in pde_present pde \<and> pde_user pde \<and> pte_present pte \<and> pte_user pte)"

definition temp_pte :: "nat \<Rightarrow> page_table_entry" where
  "temp_pte i = (paging_set_page_table_addr zero_pte (of_nat i * PAGE_SIZE))
     \<lparr>pte_present := True, pte_r_w := True, pte_user := True, pte_global_translation := True\<rparr>"

definition temp_pde :: "u32 \<Rightarrow> page_directory_entry" where
  "temp_pde a = (paging_set_page_directory_addr zero_pde a)
     \<lparr>pde_present := True, pde_r_w := True, pde_user := True, pde_global_translation := True\<rparr>"

lemma temp_entries:
  "pte_present (temp_pte i)" "pte_user (temp_pte i)" "pde_present (temp_pde a)" "pde_user (temp_pde a)"
  "page_aligned a \<Longrightarrow> frame_addr (pde_phys_addr (temp_pde a)) = a"
  "i < 1024 \<Longrightarrow> frame_addr (pte_phys_addr (temp_pte i)) = of_nat i * PAGE_SIZE"
  by (simp_all add: temp_pte_def temp_pde_def paging_set_page_table_addr_def paging_set_page_directory_addr_def
      frame_addr_of_aligned page_aligned_frame)

text \<open>Filling a writable page entry by entry.\<close>

lemma kernel_space_fill:
  assumes "kernel_space s" "writable_page q s" "q \<noteq> kernel_page_directory s" "\<forall>i\<in>set xs. i < 1024"
  shows "let t = fold (\<lambda>i s. wr (slot q i) (f i) s) xs s in
    kernel_space t \<and> vmm_free_set t = vmm_free_set s \<and> (\<forall>p. writable_page p t = writable_page p s) \<and>
    kernel_page_directory t = kernel_page_directory s \<and> pmm t = pmm s \<and>
    (\<forall>p j. page_aligned p \<longrightarrow> j < 1024 \<longrightarrow> rd (slot p j) t = (if p = q \<and> j \<in> set xs then f j else rd (slot p j) s))"
  using assms(4)
proof (induction xs rule: rev_induct)
  case Nil
  then show ?case using assms(1) by simp
next
  case (snoc n xs)
  define t where "t = fold (\<lambda>i s. wr (slot q i) (f i) s) xs s"
  have t: "kernel_space t" "vmm_free_set t = vmm_free_set s" "\<And>p. writable_page p t = writable_page p s"
    "kernel_page_directory t = kernel_page_directory s" "pmm t = pmm s"
    "\<And>p j. page_aligned p \<Longrightarrow> j < 1024 \<Longrightarrow> rd (slot p j) t = (if p = q \<and> j \<in> set xs then f j else rd (slot p j) s)"
    using snoc by (simp_all add: Let_def t_def)
  have w: "writable_page q t" "n < 1024" "q \<noteq> kernel_page_directory t \<or> n \<noteq> 0x300"
    using assms(2,3) t(3,4) snoc.prems by simp_all
  note k = kernel_space_wr [OF t(1) w]
  have q: "page_aligned q" using assms(2) by (simp add: writable_page_def)
  have "rd (slot p j) (wr (slot q n) (f n) t) = (if p = q \<and> j \<in> set (xs @ [n]) then f j else rd (slot p j) s)"
    if "page_aligned p" "j < 1024" for p j
    using that q w(2) by (auto simp: rd_slot_wr t(6))
  moreover have "fold (\<lambda>i s. wr (slot q i) (f i) s) (xs @ [n]) s = wr (slot q n) (f n) t" by (simp add: t_def)
  ultimately show ?case using k t(2-5) by (simp add: Let_def)
qed

lemma fold_wr_mem: "\<exists>m. fold (\<lambda>i s. wr (a i) (f i) s) xs s = s\<lparr>mem := m\<rparr>"
proof (induction xs arbitrary: s)
  case Nil
  show ?case by (intro exI [of _ "mem s"]) simp
next
  case (Cons x xs)
  from Cons.IH [of "wr (a x) (f x) s"] show ?case by (auto simp: wr_def)
qed

lemma kernel_space_pmm [simp]: "kernel_space (s\<lparr>pmm := p\<rparr>) = kernel_space s" "writable_page q (s\<lparr>pmm := p\<rparr>) = writable_page q s"
  "vmm_free_set (s\<lparr>pmm := p\<rparr>) = vmm_free_set s"
  by (simp_all add: kernel_space_def writable_page_def Let_def vmm_ready_def vmm_free_set_def page_used_def)

text \<open>The walk for an address whose entries are known.\<close>

lemma mmu_walk:
  assumes "P2V_ADDR (cr3 t) = pd" "rd (slot pd (PAGE_DIRECTORY_INDEX va)) t = word_of_pde e" "pde_present e"
    "frame_addr (pde_phys_addr e) = V2P_ADDR pt" "rd (slot pt (PAGE_TABLE_INDEX va)) t = word_of_pte e'" "pte_present e'"
  shows "mmu_translate t va = Some (frame_addr (pte_phys_addr e') OR (va AND 0xFFF))"
    "mmu_user t va \<longleftrightarrow> pde_user e \<and> pte_user e'"
proof -
  have "get_pde (P2V_ADDR (cr3 t)) (PAGE_DIRECTORY_INDEX va) t = e" by (simp add: get_pde_def assms(1,2))
  moreover from this have "get_pte (P2V_ADDR (frame_addr (pde_phys_addr e))) (PAGE_TABLE_INDEX va) t = e'"
    by (simp add: get_pte_def assms(4,5))
  ultimately show "mmu_translate t va = Some (frame_addr (pte_phys_addr e') OR (va AND 0xFFF))"
    "mmu_user t va \<longleftrightarrow> pde_user e \<and> pte_user e'"
    using assms(3,6) by (simp_all add: mmu_translate_def mmu_user_def)
qed

lemma unat_page_and_offset:
  "unat (of_nat (PAGE_TABLE_INDEX va) * PAGE_SIZE OR (va AND 0xFFF)) = unat va mod 4194304"
proof -
  have i: "PAGE_TABLE_INDEX va < 1024" by (rule PAGE_TABLE_INDEX_lt)
  show ?thesis
    using mod_mult2_eq [of "unat va" 4096 1024]
    by (simp only: page_offset [OF refl page_aligned_frame [OF i]] unat_frame [OF i]) (simp add: unat_PAGE_TABLE_INDEX)
qed

lemma low_page_and_offset: "unat va < 4194304 \<Longrightarrow> of_nat (PAGE_TABLE_INDEX va) * PAGE_SIZE OR (va AND 0xFFF) = va"
  by (simp add: word_unat_eq_iff unat_page_and_offset)

lemma kernel_page_and_offset:
  assumes "PAGE_DIRECTORY_INDEX va = 0x300"
  shows "of_nat (PAGE_TABLE_INDEX va) * PAGE_SIZE OR (va AND 0xFFF) = V2P_ADDR va"
proof -
  have d: "unat va div 4194304 = 768" using assms by (simp add: unat_PAGE_DIRECTORY_INDEX)
  then have "unat (V2P_ADDR va) = unat va - 0xC0000000"
    by (simp add: V2P_ADDR_def KERNEL_VIRT_BASE_def unat_sub_if' word_le_nat_alt)
  moreover have "unat va mod 4194304 = unat va - 0xC0000000"
    using d minus_div_mult_eq_mod [of "unat va" 4194304] by simp
  ultimately show ?thesis by (simp add: word_unat_eq_iff unat_page_and_offset)
qed

lemma user_stack_indices: "PAGE_DIRECTORY_INDEX (KERNEL_VIRT_BASE - PAGE_SIZE) = 767"
  "PAGE_TABLE_INDEX (KERNEL_VIRT_BASE - PAGE_SIZE) = 1023" "PAGE_DIRECTORY_INDEX KERNEL_VIRT_BASE = 768"
  by (simp_all add: unat_PAGE_DIRECTORY_INDEX unat_PAGE_TABLE_INDEX KERNEL_VIRT_BASE_def PAGE_SIZE_def)

lemma fold_temp_pte:
  "fold (\<lambda>i s. let entry = paging_set_page_table_addr zero_pte (of_nat i * PAGE_SIZE);
       entry = entry\<lparr>pte_present := True, pte_r_w := True, pte_user := True, pte_global_translation := True\<rparr>
     in put_pte q i entry s) xs s = fold (\<lambda>i s. wr (slot q i) (word_of_pte (temp_pte i)) s) xs s"
  by (induction xs arbitrary: s) (simp_all add: put_pte_def temp_pte_def Let_def)

text \<open>The page for the table of the first 4 MiB, filled and entered into the kernel's directory.\<close>

lemma open_low_memory:
  assumes "kernel_space s" "vmm_free_set s \<noteq> {}"
  obtains q t where "q \<in> vmm_free_set s" "kernel_space t" "vmm_free_set t = vmm_free_set s - {q}" "pmm t = pmm s"
    "kernel_page_directory t = kernel_page_directory s"
    "writable_page q t" "q \<noteq> kernel_page_directory s"
    "\<And>i. i < 1024 \<Longrightarrow> rd (slot q i) t = word_of_pte (temp_pte i)"
    "rd (slot (kernel_page_directory s) 0) t = word_of_pde (temp_pde (V2P_ADDR q))"
    "\<exists>m. t = s\<lparr>mem := m\<rparr>"
    "\<And>p j. page_aligned p \<Longrightarrow> j < 1024 \<Longrightarrow> p \<noteq> q \<Longrightarrow> p \<noteq> kernel_page_directory s \<Longrightarrow>
      slot p j \<notin> slot (vmm_block_list_head s) ` {..<34} \<Longrightarrow> rd (slot p j) t = rd (slot p j) s"
    "\<And>f. bindR (vmm_alloc_page s) (\<lambda>userspace_page_table s.
       let s = fold (\<lambda>i s.
                 let entry = paging_set_page_table_addr zero_pte (of_nat i * PAGE_SIZE);
                     entry = entry\<lparr>pte_present := True, pte_r_w := True, pte_user := True,
                       pte_global_translation := True\<rparr>
                 in put_pte userspace_page_table i entry s) [0..<1024] s in
       bindR (vmm_get_phys_addr userspace_page_table s) (\<lambda>phys_userspace_page_table s.
       f (put_pde (kernel_page_directory s) 0 (temp_pde phys_userspace_page_table) s))) = f t"
proof -
  let ?pd = "kernel_page_directory s"
  obtain q u where u: "vmm_alloc_page s = Inr (q, u)" "q \<in> vmm_free_set s" "kernel_space u"
    "vmm_free_set u = vmm_free_set s - {q}" "\<exists>m. u = s\<lparr>mem := m\<rparr>" "\<And>p. writable_page p u = writable_page p s"
    "\<And>x. aligned4 x \<Longrightarrow> x \<notin> slot (vmm_block_list_head s) ` {..<34} \<Longrightarrow> rd x u = rd x s"
    by (rule kernel_space_take [OF assms]) (rule that)
  have pd: "kernel_page_directory u = ?pd" "pmm u = pmm s" using u(5) by auto
  have q: "writable_page q u" "q \<noteq> ?pd" "page_aligned q"
    using kernel_space_pages(4) [OF assms(1), of q] assms(1) u(2,6) vmm_free_set_page(1) [OF u(2)]
    by (auto simp: kernel_space_def Let_def)
  define v where "v = fold (\<lambda>i s. wr (slot q i) (word_of_pte (temp_pte i)) s) [0..<1024] u"
  have v: "kernel_space v" "vmm_free_set v = vmm_free_set u" "\<And>p. writable_page p v = writable_page p u"
    "kernel_page_directory v = ?pd" "pmm v = pmm s"
    "\<And>p j. page_aligned p \<Longrightarrow> j < 1024 \<Longrightarrow> rd (slot p j) v = (if p = q \<and> j < 1024 then word_of_pte (temp_pte j) else rd (slot p j) u)"
    using kernel_space_fill [OF u(3) q(1), of "[0..<1024]" "\<lambda>i. word_of_pte (temp_pte i)"] q(2) pd by (simp_all add: Let_def v_def)
  have al: "page_aligned ?pd" using assms(1) by (simp add: kernel_space_def Let_def)
  have wp: "writable_page ?pd v" using kernel_space_pages(4) [OF assms(1), of ?pd] u(6) v(3) by simp
  let ?t = "wr (slot ?pd 0) (word_of_pde (temp_pde (V2P_ADDR q))) v"
  note t = kernel_space_wr [OF v(1) wp, of 0 "word_of_pde (temp_pde (V2P_ADDR q))"]
  obtain k where k: "k < 1024" "unat q = 0xC0000000 + 4096 * k" using vmm_free_set_unat [OF u(2)] by auto
  note ph = kernel_space_phys [OF v(1) k(2,1)]
  show ?thesis
  proof (rule that [of q ?t])
    show "q \<in> vmm_free_set s" "q \<noteq> ?pd" by (rule u(2), rule q(2))
    show "kernel_space ?t" "vmm_free_set ?t = vmm_free_set s - {q}" "pmm ?t = pmm s"
      "kernel_page_directory ?t = ?pd" using t v(2,4,5) u(4) by simp_all
    show "writable_page q ?t" using kernel_space_wr(3) [OF v(1) wp, of 0] q(1) v(3) by simp
    show "rd (slot q i) ?t = word_of_pte (temp_pte i)" if "i < 1024" for i
      using al q(2,3) v(6) that by (auto simp: rd_slot_wr)
    show "rd (slot ?pd 0) ?t = word_of_pde (temp_pde (V2P_ADDR q))" by simp
    have "\<exists>m. v = u\<lparr>mem := m\<rparr>" unfolding v_def by (rule fold_wr_mem)
    with u(5) show "\<exists>m. ?t = s\<lparr>mem := m\<rparr>" by (auto simp: wr_def)
    show "rd (slot p j) ?t = rd (slot p j) s"
      if "page_aligned p" "j < 1024" "p \<noteq> q" "p \<noteq> ?pd" "slot p j \<notin> slot (vmm_block_list_head s) ` {..<34}" for p j
    proof -
      have "rd (slot p j) ?t = rd (slot p j) u" using that al by (simp add: rd_slot_wr v(6))
      also have "\<dots> = rd (slot p j) s" by (rule u(7) [OF aligned4_slot [OF that(1,2)] that(5)])
      finally show ?thesis .
    qed
    show "bindR (vmm_alloc_page s) (\<lambda>userspace_page_table s.
       let s = fold (\<lambda>i s.
                 let entry = paging_set_page_table_addr zero_pte (of_nat i * PAGE_SIZE);
                     entry = entry\<lparr>pte_present := True, pte_r_w := True, pte_user := True,
                       pte_global_translation := True\<rparr>
                 in put_pte userspace_page_table i entry s) [0..<1024] s in
       bindR (vmm_get_phys_addr userspace_page_table s) (\<lambda>phys_userspace_page_table s.
       f (put_pde (kernel_page_directory s) 0 (temp_pde phys_userspace_page_table) s))) = f ?t" for f
      unfolding fold_temp_pte unfolding Let_def u(1) bindR_Inr v_def [symmetric] ph put_pde_def v(4) ..
  qed
qed

text \<open>The entries of both kinds of pages after the whole routine.\<close>

definition stack_pte :: "u32 \<Rightarrow> page_table_entry" where
  "stack_pte f = paging_set_page_table_addr (user_pte\<lparr>pte_global_translation := True\<rparr>) f"

definition stack_pde :: "u32 \<Rightarrow> page_directory_entry" where
  "stack_pde a = paging_set_page_directory_addr (user_pde\<lparr>pde_global_translation := True\<rparr>) a"

lemma temp_userspace_state:
  fixes s :: "'a vmm_state_scheme"
  assumes "kernel_space s" "2 \<le> card (vmm_free_set s)" "pmm_wf (pmm s)"
    "page_free (pmm s) k" "\<forall>l<k. \<not> page_free (pmm s) l"
  obtains q1 q2 t where "paging_add_temp_userspace s = Inr ((), t)" "kernel_space t"
    "kernel_page_directory t = kernel_page_directory s" "page_aligned q1" "page_aligned q2"
    "rd (slot (kernel_page_directory s) 0) t = word_of_pde (temp_pde (V2P_ADDR q1))"
    "\<And>i. i < 1024 \<Longrightarrow> rd (slot q1 i) t = word_of_pte (temp_pte i)"
    "rd (slot (kernel_page_directory s) 767) t = word_of_pde (stack_pde (V2P_ADDR q2))"
    "rd (slot q2 1023) t = word_of_pte (stack_pte (page_addr (pmm s) k))"
    "q1 \<in> vmm_free_set s" "q2 \<in> vmm_free_set s" "vmm_free_set t = vmm_free_set s - {q1, q2}"
    "\<exists>m. t = s\<lparr>pmm := mark_page k (pmm s), mem := m\<rparr>"
    "\<And>p j. page_aligned p \<Longrightarrow> j < 1024 \<Longrightarrow> p \<notin> {q1, q2, kernel_page_directory s} \<Longrightarrow>
      slot p j \<notin> slot (vmm_block_list_head s) ` {..<34} \<Longrightarrow> rd (slot p j) t = rd (slot p j) s"
proof -
  let ?pd = "kernel_page_directory s" and ?f = "page_addr (pmm s) k"
  have ne: "vmm_free_set s \<noteq> {}" using assms(2) by auto
  obtain q1 u where u: "q1 \<in> vmm_free_set s" "kernel_space u" "vmm_free_set u = vmm_free_set s - {q1}" "pmm u = pmm s"
    "kernel_page_directory u = ?pd" "writable_page q1 u" "q1 \<noteq> ?pd"
    "\<And>i. i < 1024 \<Longrightarrow> rd (slot q1 i) u = word_of_pte (temp_pte i)"
    "rd (slot ?pd 0) u = word_of_pde (temp_pde (V2P_ADDR q1))" "\<exists>m. u = s\<lparr>mem := m\<rparr>"
    and ku: "\<And>p j. page_aligned p \<Longrightarrow> j < 1024 \<Longrightarrow> p \<noteq> q1 \<Longrightarrow> p \<noteq> ?pd \<Longrightarrow>
      slot p j \<notin> slot (vmm_block_list_head s) ` {..<34} \<Longrightarrow> rd (slot p j) u = rd (slot p j) s"
    and run: "\<And>f :: 'a vmm_state_scheme \<Rightarrow> ('a vmm_state_scheme, unit) result. bindR (vmm_alloc_page s) (\<lambda>userspace_page_table s.
       let s = fold (\<lambda>i s.
                 let entry = paging_set_page_table_addr zero_pte (of_nat i * PAGE_SIZE);
                     entry = entry\<lparr>pte_present := True, pte_r_w := True, pte_user := True,
                       pte_global_translation := True\<rparr>
                 in put_pte userspace_page_table i entry s) [0..<1024] s in
       bindR (vmm_get_phys_addr userspace_page_table s) (\<lambda>phys_userspace_page_table s.
       f (put_pde (kernel_page_directory s) 0 (temp_pde phys_userspace_page_table) s))) = f u"
    by (rule open_low_memory [OF assms(1) ne]) (rule that)
  have more: "vmm_free_set u \<noteq> {}"
  proof
    assume "vmm_free_set u = {}"
    then have "vmm_free_set s \<subseteq> {q1}" using u(3) by blast
    then have "card (vmm_free_set s) \<le> card {q1}" by (intro card_mono) simp_all
    with assms(2) show False by simp
  qed
  obtain q2 v where v: "vmm_alloc_page u = Inr (q2, v)" "q2 \<in> vmm_free_set u"
    "kernel_space v" "\<exists>m. v = u\<lparr>mem := m\<rparr>" "\<And>p. writable_page p v = writable_page p u"
    "\<And>p j. writable_page p u \<Longrightarrow> j < 1024 \<Longrightarrow> rd (slot p j) v = rd (slot p j) u"
    "vmm_free_set v = vmm_free_set u - {q2}"
    and kv: "\<And>x. aligned4 x \<Longrightarrow> x \<notin> slot (vmm_block_list_head u) ` {..<34} \<Longrightarrow> rd x v = rd x u"
    by (rule kernel_space_take [OF u(2) more]) (rule that)
  have pdn: "?pd \<notin> vmm_free_set s" using assms(1) by (simp add: kernel_space_def Let_def)
  have q2: "writable_page q2 v" "q2 \<noteq> ?pd" "q2 \<noteq> q1" "page_aligned q2"
    using kernel_space_pages(4) [OF u(2) disjI2 [OF v(2)]] v(2,5) u(3) pdn vmm_free_set_page(1) [OF v(2)]
    by (simp, blast, blast, simp)
  have pdw: "writable_page ?pd u" "page_aligned ?pd" "page_aligned q1"
    using kernel_space_pages(4) [OF u(2), of ?pd] u(5) vmm_free_set_page(1) [OF u(1)] by (simp_all add: writable_page_def)
  have sv: "kernel_page_directory v = ?pd" "pmm v = pmm s" using v(4) u(4,5) by auto
  obtain j where j: "j < 1024" "unat q2 = 0xC0000000 + 4096 * j" using vmm_free_set_unat [OF v(2)] by auto
  note ph = kernel_space_phys [OF v(3) j(2,1)]
  let ?w = "v\<lparr>pmm := mark_page k (pmm s)\<rparr>"
  have pm: "pmm_alloc_page v = Inr (?f, ?w)"
    using pmm_alloc_page_found [of v k] assms(3-5) sv(2) by simp
  let ?se = "stack_pte ?f"
  let ?sp = "word_of_pte ?se"
  let ?sd = "stack_pde (V2P_ADDR q2)"
  let ?t = "wr (slot ?pd 767) (word_of_pde ?sd) (wr (slot q2 1023) ?sp ?w)"
  define f where "f = (\<lambda>s :: 'a vmm_state_scheme. bindR (vmm_alloc_page s) (\<lambda>user_stack_pt s.
     bindR (vmm_get_phys_addr user_stack_pt s) (\<lambda>user_stack_pt_addr s.
     bindR (pmm_alloc_page s) (\<lambda>stack_page s.
     let s = put_pte user_stack_pt 1023 (stack_pte stack_page) s
     in Inr ((), paging_flush_tlb (put_pde (kernel_page_directory s) 767
       (stack_pde user_stack_pt_addr) s))))))"
  have "paging_add_temp_userspace s = f u"
    by (rule trans [OF _ run [of f]])
      (simp add: paging_add_temp_userspace_def f_def temp_pde_def stack_pte_def stack_pde_def Let_def user_stack_indices)
  also have "\<dots> = Inr ((), ?t)"
    by (simp add: f_def v(1) ph pm put_pte_def put_pde_def sv(1) paging_flush_tlb_def wr_def)
  finally have ret: "paging_add_temp_userspace s = Inr ((), ?t)" .
  note w1 = kernel_space_wr [of ?w q2 1023, unfolded kernel_space_pmm, OF v(3) q2(1)]
  have kw: "kernel_space ?w" "writable_page q2 ?w" "q2 \<noteq> kernel_page_directory ?w \<or> (1023 :: nat) \<noteq> 0x300"
    "writable_page ?pd ?w" using v(3,5) q2(1) pdw(1) by simp_all
  let ?x = "wr (slot q2 1023) ?sp ?w"
  have x: "kernel_space ?x" "kernel_page_directory ?x = ?pd" "writable_page ?pd ?x"
    using kernel_space_wr [OF kw(1,2) _ kw(3)] kw(4) sv(1) by simp_all
  have kt: "kernel_space ?t"
    by (rule kernel_space_wr(1) [OF x(1,3)]) simp_all
  have kd: "kernel_page_directory ?t = ?pd" by (simp add: wr_def sv(1))
  have rdw: "rd a ?w = rd a v" for a by (simp add: rd_def)
  have "rd (slot ?pd 0) ?t = word_of_pde (temp_pde (V2P_ADDR q1))"
    "\<And>i. i < 1024 \<Longrightarrow> rd (slot q1 i) ?t = word_of_pte (temp_pte i)"
    "rd (slot ?pd 767) ?t = word_of_pde ?sd" "rd (slot q2 1023) ?t = ?sp"
    using pdw q2 u(6-9) v(6) by (simp_all add: rd_slot_wr rdw)
  note ent = this
  have hd: "vmm_block_list_head u = vmm_block_list_head s" using u(10) by auto
  have fs: "vmm_free_set ?t = vmm_free_set s - {q1, q2}"
    using kernel_space_wr(2) [OF x(1,3)] kernel_space_wr(2) [OF kw(1,2) _ kw(3)] u(3) v(7) by auto
  have mm: "\<exists>m. ?t = s\<lparr>pmm := mark_page k (pmm s), mem := m\<rparr>" using u(10) v(4) by (auto simp: wr_def)
  have keep: "rd (slot p j) ?t = rd (slot p j) s"
    if "page_aligned p" "j < 1024" "p \<notin> {q1, q2, ?pd}" "slot p j \<notin> slot (vmm_block_list_head s) ` {..<34}" for p j
  proof -
    have "rd (slot p j) ?t = rd (slot p j) v" using that pdw(2) q2(4) by (auto simp: rd_slot_wr rdw)
    also have "\<dots> = rd (slot p j) u" using that(4) by (intro kv aligned4_slot that(1,2)) (simp add: hd)
    also have "\<dots> = rd (slot p j) s" using that by (intro ku) auto
    finally show ?thesis .
  qed
  have "q2 \<in> vmm_free_set s" using v(2) u(3) by blast
  with ret kt kd pdw(3) q2(4) ent u(1) fs mm keep show ?thesis by (intro that) 
qed

lemma page_aligned_V2P: "page_aligned q \<Longrightarrow> page_aligned (V2P_ADDR q)"
proof -
  assume "page_aligned q"
  moreover have "page_aligned (- KERNEL_VIRT_BASE)" by (simp add: page_aligned_def KERNEL_VIRT_BASE_def)
  ultimately show ?thesis using page_aligned_add [of q "- KERNEL_VIRT_BASE"] by (simp add: V2P_ADDR_def)
qed

lemma stack_entries:
  "pde_present (stack_pde a)" "pde_user (stack_pde a)" "page_aligned a \<Longrightarrow> frame_addr (pde_phys_addr (stack_pde a)) = a"
  "pte_present (stack_pte a)" "pte_user (stack_pte a)" "page_aligned a \<Longrightarrow> frame_addr (pte_phys_addr (stack_pte a)) = a"
  by (simp_all add: stack_pde_def stack_pte_def user_pde_def user_pte_def paging_set_page_directory_addr_def
      paging_set_page_table_addr_def frame_addr_of_aligned)

text \<open>The walk for the page below 0xC0000000, the stack of user code.\<close>

lemma user_stack_page:
  assumes "0xBFFFF000 \<le> unat va" "unat va < 0xC0000000"
  shows "PAGE_DIRECTORY_INDEX va = 767" "PAGE_TABLE_INDEX va = 1023"
proof -
  have "unat va div 4096 = 786431" using assms by (intro div_nat_eqI) simp_all
  then show "PAGE_TABLE_INDEX va = 1023" by (simp add: unat_PAGE_TABLE_INDEX)
  show "PAGE_DIRECTORY_INDEX va = 767" using assms by (simp add: unat_PAGE_DIRECTORY_INDEX div_nat_eqI)
qed

lemma user_stack_translate:
  assumes "P2V_ADDR (cr3 t) = pd" "page_aligned q" "rd (slot pd 767) t = word_of_pde (stack_pde (V2P_ADDR q))"
    "rd (slot q 1023) t = word_of_pte (stack_pte f)" "page_aligned f" "0xBFFFF000 \<le> unat va" "unat va < 0xC0000000"
  shows "mmu_translate t va = Some (f OR (va AND 0xFFF)) \<and> mmu_user t va"
  using mmu_walk [OF assms(1) _ stack_entries(1) stack_entries(3) [OF page_aligned_V2P [OF assms(2)]] _ stack_entries(4), of va]
  by (simp add: user_stack_page [OF assms(6,7)] assms(3-5) stack_entries)

lemma kernel_half_translate:
  assumes "P2V_ADDR (cr3 t) = pd" "page_aligned pt" "rd (slot pd 0x300) t = word_of_pde (kernel_pde (V2P_ADDR pt))"
    "\<forall>i<1024. rd (slot pt i) t = word_of_pte (kernel_pte (of_nat i * PAGE_SIZE))"
    "0xC0000000 \<le> unat va" "unat va < 0xC0400000"
  shows "mmu_translate t va = Some (V2P_ADDR va) \<and> \<not> mmu_user t va"
proof -
  have i: "PAGE_DIRECTORY_INDEX va = 0x300"
    using assms(5,6) by (simp add: unat_PAGE_DIRECTORY_INDEX div_nat_eqI)
  have e: "pde_present (kernel_pde (V2P_ADDR pt))" "\<not> pde_user (kernel_pde (V2P_ADDR pt))"
    "frame_addr (pde_phys_addr (kernel_pde (V2P_ADDR pt))) = V2P_ADDR pt"
    using page_aligned_V2P [OF assms(2)]
    by (simp_all add: kernel_pde_def paging_set_page_directory_addr_def frame_addr_of_aligned zero_pde_def)
  show ?thesis
    using mmu_walk [OF assms(1), of va "kernel_pde (V2P_ADDR pt)" pt "kernel_pte (of_nat (PAGE_TABLE_INDEX va) * PAGE_SIZE)"]
    by (simp add: i e assms(3,4) PAGE_TABLE_INDEX_lt kernel_pte_frame kernel_page_and_offset [OF i])
qed

lemma kernel_space_entries:
  assumes "kernel_space t"
  defines "pt \<equiv> rd (page_table (vmm_block_list_head t)) t"
  shows "P2V_ADDR (cr3 t) = kernel_page_directory t" "page_aligned pt"
    "rd (slot (kernel_page_directory t) 0x300) t = word_of_pde (kernel_pde (V2P_ADDR pt))"
    "\<forall>i<1024. rd (slot pt i) t = word_of_pte (kernel_pte (of_nat i * PAGE_SIZE))"
  using assms kernel_space_pages(2) [OF assms(1)] by (simp_all add: kernel_space_def Let_def)

lemma kernel_space_translate:
  assumes "kernel_space t" "0xC0000000 \<le> unat va" "unat va < 0xC0400000"
  shows "mmu_translate t va = Some (V2P_ADDR va) \<and> \<not> mmu_user t va"
  by (rule kernel_half_translate [OF kernel_space_entries [OF assms(1)] assms(2,3)])

section \<open>A directory for a boot module\<close>

lemma fold_copy_pde:
  assumes "page_aligned d" "page_aligned (kernel_page_directory s)" "d \<noteq> kernel_page_directory s"
    "\<forall>i\<in>set xs. i < 1024 \<and> f i = word_of_pde (get_pde (kernel_page_directory s) i s)"
  shows "fold (\<lambda>i s. put_pde d i (get_pde (kernel_page_directory s) i s) s) xs s = fold (\<lambda>i s. wr (slot d i) (f i) s) xs s"
  using assms
proof (induction xs arbitrary: s)
  case Nil
  then show ?case by simp
next
  case (Cons x xs)
  let ?s = "wr (slot d x) (f x) s"
  have k: "kernel_page_directory (wr (slot d x) v s) = kernel_page_directory s" for v by (simp add: wr_def)
  have g: "get_pde (kernel_page_directory s) i (wr (slot d x) v s) = get_pde (kernel_page_directory s) i s" if "i < 1024" for i v
    using Cons.prems that by (simp add: get_pde_def rd_slot_wr)
  have "fold (\<lambda>i s. put_pde d i (get_pde (kernel_page_directory s) i s) s) xs ?s = fold (\<lambda>i s. wr (slot d i) (f i) s) xs ?s"
    using Cons.prems by (intro Cons.IH) (auto simp: k g)
  then show ?case using Cons.prems by (simp add: put_pde_def)
qed

text \<open>A page for a table: writable, not the kernel's directory, and at its own frame.\<close>

lemma kernel_space_table:
  fixes s :: "'a vmm_state_scheme"
  assumes "kernel_space s" "vmm_free_set s \<noteq> {}"
  obtains q u where "vmm_alloc_page s = Inr (q, u)" "q \<in> vmm_free_set s" "kernel_space u" "vmm_free_set u = vmm_free_set s - {q}"
    "writable_page q u" "q \<noteq> kernel_page_directory s" "page_aligned q" "kernel_page_directory u = kernel_page_directory s"
    "\<And>w :: 'a vmm_state_scheme. kernel_space w \<Longrightarrow> vmm_get_phys_addr q w = Inr (V2P_ADDR q, w)"
    "\<And>p j. writable_page p s \<Longrightarrow> j < 1024 \<Longrightarrow> rd (slot p j) u = rd (slot p j) s"
    "\<And>p. writable_page p u = writable_page p s" "cr3 u = cr3 s"
proof -
  obtain q u where u: "vmm_alloc_page s = Inr (q, u)" "q \<in> vmm_free_set s" "kernel_space u"
    "vmm_free_set u = vmm_free_set s - {q}" "\<exists>m. u = s\<lparr>mem := m\<rparr>"
    "\<And>p j. writable_page p s \<Longrightarrow> j < 1024 \<Longrightarrow> rd (slot p j) u = rd (slot p j) s"
    "\<And>p. writable_page p u = writable_page p s"
    by (rule kernel_space_take [OF assms]) (rule that)
  obtain k where k: "k < 1024" "unat q = 0xC0000000 + 4096 * k" using vmm_free_set_unat [OF u(2)] by auto
  have "writable_page q u" using kernel_space_pages(4) [OF assms(1), of q] u(2,7) by simp
  moreover have "q \<noteq> kernel_page_directory s" using assms(1) u(2) by (auto simp: kernel_space_def Let_def)
  moreover have "kernel_page_directory u = kernel_page_directory s" "cr3 u = cr3 s" using u(5) by auto
  ultimately show ?thesis
    using u(1-4,6,7) vmm_free_set_page(1) [OF u(2)] kernel_space_phys [OF _ k(2,1)] by (intro that [of q u])
qed

text \<open>The entries of the new directory and of its two tables.\<close>

lemma create_userspace_state:
  fixes s :: "'a vmm_state_scheme"
  assumes "kernel_space s" "3 \<le> card (vmm_free_set s)"
  obtains d p2 p3 t where "paging_create_userspace task s = Inr (V2P_ADDR d, t)" "kernel_space t" "{d, p2, p3} \<subseteq> vmm_free_set s"
    "rd (slot d 0) t = word_of_pde (paging_set_page_directory_addr user_pde (V2P_ADDR p2))"
    "rd (slot p2 0) t = word_of_pte (paging_set_page_table_addr user_pte (phys_addr_start task))"
    "rd (slot d 767) t = word_of_pde (paging_set_page_directory_addr user_pde (V2P_ADDR p3))"
    "rd (slot p3 1023) t = word_of_pte (paging_set_page_table_addr user_pte (phys_addr_start task))"
    "rd (slot d 0x300) t = rd (slot (kernel_page_directory t) 0x300) t"
proof -
  let ?pd = "kernel_page_directory s"
  let ?ue = "paging_set_page_table_addr user_pte (phys_addr_start task)"
  have ne: "vmm_free_set s \<noteq> {}" using assms(2) by auto
  have pda: "page_aligned ?pd" using assms(1) by (simp add: kernel_space_def Let_def)
  obtain d u where u: "vmm_alloc_page s = Inr (d, u)" "d \<in> vmm_free_set s" "kernel_space u" "vmm_free_set u = vmm_free_set s - {d}"
    "writable_page d u" "d \<noteq> ?pd" "page_aligned d" "kernel_page_directory u = ?pd"
    and dp: "\<And>w :: 'a vmm_state_scheme. kernel_space w \<Longrightarrow> vmm_get_phys_addr d w = Inr (V2P_ADDR d, w)"
    by (rule kernel_space_table [OF assms(1) ne]) (rule that)
  define f where "f i = word_of_pde (get_pde ?pd i u)" for i
  define xs where "xs = [768..<1024 :: nat]"
  have xs: "set xs = {768..<1024}" by (simp only: xs_def set_upt)
  define v where "v = fold (\<lambda>i s. wr (slot d i) (f i) s) xs u"
  have cp: "fold (\<lambda>i s. put_pde d i (get_pde (kernel_page_directory s) i s) s) xs u = v"
    unfolding v_def using u(6-8) pda by (intro fold_copy_pde) (auto simp: f_def xs)
  have v: "kernel_space v" "vmm_free_set v = vmm_free_set u" "\<And>p. writable_page p v = writable_page p u"
    "kernel_page_directory v = ?pd"
    "\<And>p j. page_aligned p \<Longrightarrow> j < 1024 \<Longrightarrow> rd (slot p j) v = (if p = d \<and> 768 \<le> j then f j else rd (slot p j) u)"
    using kernel_space_fill [OF u(3,5), of xs f] u(6,8) by (simp_all add: Let_def v_def xs)
  have c1: "2 \<le> card (vmm_free_set v)" using assms(2) u(2) by (simp add: v(2) u(4) card_Diff_singleton)
  then have ne1: "vmm_free_set v \<noteq> {}" by auto
  obtain p2 w where w: "vmm_alloc_page v = Inr (p2, w)" "p2 \<in> vmm_free_set v" "kernel_space w" "vmm_free_set w = vmm_free_set v - {p2}"
    "writable_page p2 w" "p2 \<noteq> ?pd" "page_aligned p2" "kernel_page_directory w = ?pd"
    "\<And>p j. writable_page p v \<Longrightarrow> j < 1024 \<Longrightarrow> rd (slot p j) w = rd (slot p j) v" "\<And>p. writable_page p w = writable_page p v"
    and p2p: "\<And>w :: 'a vmm_state_scheme. kernel_space w \<Longrightarrow> vmm_get_phys_addr p2 w = Inr (V2P_ADDR p2, w)"
    by (rule kernel_space_table [OF v(1) ne1, unfolded v(4)]) (rule that)
  let ?x = "wr (slot p2 0) (word_of_pte ?ue) w"
  let ?ye = "word_of_pde (paging_set_page_directory_addr user_pde (V2P_ADDR p2))"
  let ?y = "wr (slot d 0) ?ye ?x"
  have dw: "writable_page d w" using u(5) v(3) w(10) by simp
  note kx = kernel_space_wr [OF w(3,5), where i = 0 and v = "word_of_pte ?ue", unfolded w(8)]
  have x: "kernel_space ?x" "writable_page d ?x" "vmm_free_set ?x = vmm_free_set w" "kernel_page_directory ?x = ?pd"
    using kx w(6) dw by simp_all
  note ky = kernel_space_wr [OF x(1,2), where i = 0 and v = ?ye, unfolded x(4)]
  have y: "kernel_space ?y" "vmm_free_set ?y = vmm_free_set w" "kernel_page_directory ?y = ?pd" "\<And>p. writable_page p ?y = writable_page p w"
    using ky x(3) kx(3) u(6) w(6) by simp_all
  have c2: "1 \<le> card (vmm_free_set ?y)" using c1 w(2) by (simp add: y(2) w(4) card_Diff_singleton)
  then have ne2: "vmm_free_set ?y \<noteq> {}" by auto
  obtain p3 z where z: "vmm_alloc_page ?y = Inr (p3, z)" "p3 \<in> vmm_free_set ?y" "kernel_space z"
    "writable_page p3 z" "p3 \<noteq> ?pd" "page_aligned p3" "kernel_page_directory z = ?pd"
    "\<And>p j. writable_page p ?y \<Longrightarrow> j < 1024 \<Longrightarrow> rd (slot p j) z = rd (slot p j) ?y" "\<And>p. writable_page p z = writable_page p ?y"
    and p3p: "\<And>w :: 'a vmm_state_scheme. kernel_space w \<Longrightarrow> vmm_get_phys_addr p3 w = Inr (V2P_ADDR p3, w)"
    by (rule kernel_space_table [OF y(1) ne2, unfolded y(3)]) (rule that)
  let ?s = "wr (slot p3 1023) (word_of_pte ?ue) z"
  let ?se = "word_of_pde (paging_set_page_directory_addr user_pde (V2P_ADDR p3))"
  let ?t = "wr (slot d 767) ?se ?s"
  note ks = kernel_space_wr [OF z(3,4), where i = 1023 and v = "word_of_pte ?ue", unfolded z(7)]
  have s: "kernel_space ?s" "writable_page d ?s" "kernel_page_directory ?s = ?pd"
    using ks z(5,9) y(4) dw by simp_all
  note kt = kernel_space_wr [OF s(1,2), where i = 767 and v = ?se, unfolded s(3)]
  have t: "kernel_space ?t" "kernel_page_directory ?t = ?pd" using kt by simp_all
  have run: "paging_create_userspace task s = Inr (V2P_ADDR d, ?t)"
    unfolding paging_create_userspace_def Let_def u(1) bindR_Inr dp [OF u(3)] user_stack_indices PAGE_TABLE_INDICES_def xs_def [symmetric] cp w(1)
      p2p [OF w(3)]
    unfolding put_pte_def put_pde_def z(1) bindR_Inr p3p [OF z(3)] ..
  have ds: "d \<in> vmm_free_set s" "p2 \<in> vmm_free_set s" "p3 \<in> vmm_free_set s" "p2 \<noteq> d" "p3 \<noteq> d" "p3 \<noteq> p2"
    using u(2,4) w(2,4) z(2) v(2) y(2) by auto
  have wp: "writable_page ?pd w" "writable_page ?pd ?y" "writable_page d ?y" "writable_page p2 ?y"
    using kernel_space_pages(4) [OF y(1), of ?pd] y(3,4) dw w(5) by simp_all
  show ?thesis
  proof (rule that [OF run t(1)])
    show "{d, p2, p3} \<subseteq> vmm_free_set s" using ds by simp
    show "rd (slot d 0) ?t = ?ye" "rd (slot p2 0) ?t = word_of_pte ?ue" "rd (slot d 767) ?t = ?se" "rd (slot p3 1023) ?t = word_of_pte ?ue"
      using ds(4-6) u(7) w(7) z(6) z(8) [OF wp(3)] z(8) [OF wp(4)] by (simp_all add: rd_slot_wr)
    have "rd (slot d 768) z = f 768"
      using ds(4) u(7) w(7) w(9) [of d 768] u(5) v(3,5) z(8) [OF wp(3)] by (simp add: rd_slot_wr)
    then have "rd (slot d 768) ?t = f 768" using ds(5) u(7) z(6) by (simp add: rd_slot_wr)
    moreover have "rd (slot ?pd 768) ?t = rd (slot ?pd 768) u"
    proof -
      have "writable_page ?pd v" using wp(1) w(10) by simp
      then show ?thesis
        using z(5) z(8) [OF wp(2)] w(6,7,9) u(6,7) z(6) pda v(5) by (simp add: rd_slot_wr)
    qed
    moreover have "f 768 = rd (slot ?pd 768) u"
      using kernel_space_entries(3) [OF u(3)] by (simp add: f_def get_pde_def u(8))
    ultimately show "rd (slot d 0x300) ?t = rd (slot (kernel_page_directory ?t) 0x300) ?t" by (simp add: t(2))
  qed
qed

section \<open>Properties\<close>

text \<open>
  C25: \<^verbatim>\<open>paging_add_temp_userspace\<close> opens the first 4 MiB of physical memory to user code, and a stack page. In
  the kernel's address space, with two free virtual pages and a free frame, it returns; afterwards every
  address below 4 MiB translates to itself and is accessible from user mode (the kernel image is there),
  the page below 0xC0000000 translates to the lowest free frame, also for user mode, and the
  kernel's own addresses translate as before.
\<close>

theorem paging_add_temp_userspace_opens:
  fixes s :: "'a vmm_state_scheme"
  assumes "kernel_space s" "2 \<le> card (vmm_free_set s)" "pmm_wf (pmm s)" "page_aligned (starting_addr (pmm s))"
    "page_free (pmm s) k" "\<forall>l<k. \<not> page_free (pmm s) l"
  shows "\<exists>t. paging_add_temp_userspace s = Inr ((), t) \<and>
    (\<forall>va. (unat va < 4194304 \<longrightarrow> mmu_translate t va = Some va \<and> mmu_user t va) \<and>
      (0xBFFFF000 \<le> unat va \<and> unat va < 0xC0000000 \<longrightarrow>
         mmu_translate t va = Some (page_addr (pmm s) k OR (va AND 0xFFF)) \<and> mmu_user t va) \<and>
      (0xC0000000 \<le> unat va \<and> unat va < 0xC0400000 \<longrightarrow> mmu_translate t va = Some (V2P_ADDR va) \<and> \<not> mmu_user t va))"
proof -
  let ?pd = "kernel_page_directory s" and ?f = "page_addr (pmm s) k"
  obtain q1 q2 t where t: "paging_add_temp_userspace s = Inr ((), t)" "kernel_space t"
    "kernel_page_directory t = ?pd" "page_aligned q1" "page_aligned q2"
    and ent: "rd (slot ?pd 0) t = word_of_pde (temp_pde (V2P_ADDR q1))"
    "\<And>i. i < 1024 \<Longrightarrow> rd (slot q1 i) t = word_of_pte (temp_pte i)"
    "rd (slot ?pd 767) t = word_of_pde (stack_pde (V2P_ADDR q2))"
    "rd (slot q2 1023) t = word_of_pte (stack_pte ?f)"
    by (rule temp_userspace_state [OF assms(1-3,5,6)]) (rule that)
  have cr: "P2V_ADDR (cr3 t) = ?pd" using t(2,3) by (simp add: kernel_space_def Let_def)
  have fa: "page_aligned ?f" using assms(3-5) by (intro page_aligned_page_addr) (simp_all add: page_free_def)
  have low: "mmu_translate t va = Some va \<and> mmu_user t va" if "unat va < 4194304" for va
  proof -
    have "PAGE_DIRECTORY_INDEX va = 0" using that by (simp add: unat_PAGE_DIRECTORY_INDEX)
    then show ?thesis
      using mmu_walk [OF cr _ temp_entries(3) temp_entries(5) [OF page_aligned_V2P [OF t(4)]], of va "temp_pte (PAGE_TABLE_INDEX va)"]
      by (simp add: ent PAGE_TABLE_INDEX_lt temp_entries low_page_and_offset [OF that])
  qed
  have stk: "mmu_translate t va = Some (?f OR (va AND 0xFFF)) \<and> mmu_user t va"
    if "0xBFFFF000 \<le> unat va" "unat va < 0xC0000000" for va
    by (rule user_stack_translate [OF cr t(5) ent(3,4) fa that])
  show ?thesis
    by (rule exI [of _ t]) (use t(1) low stk kernel_space_translate [OF t(2)] in simp)
qed

text \<open>
  C27: the address space built for a boot module. In the kernel's address space with three free pages
  \<^verbatim>\<open>paging_create_userspace\<close> returns the physical address of a new directory. With it loaded the kernel's
  addresses translate as before and are closed to user mode, and page 0 is the module's page, open to user mode; but so is the
  stack page below 0xC0000000: the program's code and its stack are the same page.
\<close>

theorem paging_create_userspace_maps:
  assumes "kernel_space s" "3 \<le> card (vmm_free_set s)" "page_aligned (phys_addr_start task)"
  shows "\<exists>d t. paging_create_userspace task s = Inr (V2P_ADDR d, t) \<and> d \<in> vmm_free_set s \<and>
    (let u = paging_change_page_directory (V2P_ADDR d) t in \<forall>va.
       (0xC0000000 \<le> unat va \<and> unat va < 0xC0400000 \<longrightarrow> mmu_translate u va = Some (V2P_ADDR va) \<and> \<not> mmu_user u va) \<and>
       (unat va < 4096 \<longrightarrow> mmu_translate u va = Some (phys_addr_start task OR (va AND 0xFFF)) \<and> mmu_user u va) \<and>
       (0xBFFFF000 \<le> unat va \<and> unat va < 0xC0000000 \<longrightarrow>
          mmu_translate u va = Some (phys_addr_start task OR (va AND 0xFFF)) \<and> mmu_user u va))"
proof -
  let ?ph = "phys_addr_start task"
  obtain d p2 p3 t where t: "paging_create_userspace task s = Inr (V2P_ADDR d, t)" "kernel_space t" "{d, p2, p3} \<subseteq> vmm_free_set s"
    and ent: "rd (slot d 0) t = word_of_pde (paging_set_page_directory_addr user_pde (V2P_ADDR p2))"
    "rd (slot p2 0) t = word_of_pte (paging_set_page_table_addr user_pte ?ph)"
    "rd (slot d 767) t = word_of_pde (paging_set_page_directory_addr user_pde (V2P_ADDR p3))"
    "rd (slot p3 1023) t = word_of_pte (paging_set_page_table_addr user_pte ?ph)"
    "rd (slot d 0x300) t = rd (slot (kernel_page_directory t) 0x300) t"
    by (rule create_userspace_state [OF assms(1,2)]) (rule that)
  let ?u = "paging_change_page_directory (V2P_ADDR d) t"
  have ru: "rd a ?u = rd a t" and cr: "P2V_ADDR (cr3 ?u) = d" for a
    by (simp_all add: rd_def paging_change_page_directory_def paging_flush_tlb_def)
  have al: "page_aligned p2" "page_aligned p3" using t(3) vmm_free_set_page(1) by auto
  have e: "pde_present (paging_set_page_directory_addr user_pde a)" "pde_user (paging_set_page_directory_addr user_pde a)"
    "pte_present (paging_set_page_table_addr user_pte a)" "pte_user (paging_set_page_table_addr user_pte a)"
    "page_aligned a \<Longrightarrow> frame_addr (pde_phys_addr (paging_set_page_directory_addr user_pde a)) = a"
    "page_aligned a \<Longrightarrow> frame_addr (pte_phys_addr (paging_set_page_table_addr user_pte a)) = a" for a
    by (simp_all add: user_pde_def user_pte_def paging_set_page_directory_addr_def paging_set_page_table_addr_def frame_addr_of_aligned)
  note kt = kernel_space_entries [OF t(2)]
  have hi: "mmu_translate ?u va = Some (V2P_ADDR va) \<and> \<not> mmu_user ?u va"
    if "0xC0000000 \<le> unat va" "unat va < 0xC0400000" for va
    by (rule kernel_half_translate [OF cr kt(2) _ _ that]) (use kt(3,4) ent(5) in \<open>simp_all only: ru\<close>)
  have walk: "mmu_translate ?u va = Some (?ph OR (va AND 0xFFF)) \<and> mmu_user ?u va"
    if "rd (slot d (PAGE_DIRECTORY_INDEX va)) t = word_of_pde (paging_set_page_directory_addr user_pde (V2P_ADDR p))" "page_aligned p"
      "rd (slot p (PAGE_TABLE_INDEX va)) t = word_of_pte (paging_set_page_table_addr user_pte ?ph)" for va p
    using mmu_walk [OF cr _ e(1) e(5) [OF page_aligned_V2P [OF that(2)]] _ e(3), of va] that(1,3) assms(3)
    by (simp add: ru e)
  have lo: "mmu_translate ?u va = Some (?ph OR (va AND 0xFFF)) \<and> mmu_user ?u va" if "unat va < 4096" for va
    using that ent(1,2) by (intro walk [OF _ al(1)]) (simp_all add: unat_PAGE_DIRECTORY_INDEX unat_PAGE_TABLE_INDEX)
  have stk: "mmu_translate ?u va = Some (?ph OR (va AND 0xFFF)) \<and> mmu_user ?u va"
    if "0xBFFFF000 \<le> unat va" "unat va < 0xC0000000" for va
    using user_stack_page [OF that] ent(3,4) by (intro walk [OF _ al(2)]) simp_all
  show ?thesis
    by (rule exI [of _ d], rule exI [of _ t]) (use t(1,3) hi lo stk in \<open>simp add: Let_def\<close>)
qed

end
