(* ===== verification/Bootmem.thy ===== *)
theory Bootmem
  imports Userspace
begin

text \<open>
  How the memory components work together at boot: \<^verbatim>\<open>kmain\<close> of \<^verbatim>\<open>kernel/kernel.c\<close> runs \<^verbatim>\<open>paging_init\<close>,
  \<^verbatim>\<open>kmalloc_init\<close> and \<^verbatim>\<open>vmm_init\<close> on the pool that \<^verbatim>\<open>pmm_init\<close> has set up.
\<close>

definition memory_init :: "symbols \<Rightarrow> 'a vmm_state_scheme \<Rightarrow> ('a vmm_state_scheme, unit) result" where
  "memory_init L s =
     bindR (paging_init L s) (\<lambda>initial_page_table s.
     bindR (kprintf (litn ''[-] Initializing Heap...'') [] s) (\<lambda>_ s.
     let s = kmalloc_init L s in
     bindR (kprintf (litn ''[-] Initializing Virtual Memory Manager...'') [] s) (\<lambda>_ s.
     vmm_init initial_page_table s)))"

text \<open>A message without a conversion is printed, and nothing else changes.\<close>

lemma kprintf_loop_plain:
  assumes "37 \<notin> set xs" "0 \<notin> set xs"
  shows "\<exists>n. kprintf_loop (xs @ [0]) False p i args s = Inr (n, fold tty_putc xs s)"
  using assms by (induction xs arbitrary: p i s) auto

lemma kprintf_message:
  assumes "list_all (\<lambda>c. of_char c \<noteq> (37 :: u8) \<and> of_char c \<noteq> (0 :: u8)) cs"
  obtains n t where "kprintf (litn cs) [] s = Inr (n, t)" "same_kernel s t" "prints s t"
proof -
  have "37 \<notin> set (map of_char cs @ [10 :: u8])" "0 \<notin> set (map of_char cs @ [10 :: u8])"
    using assms by (auto simp: list_all_iff)
  then obtain n where "kprintf (litn cs) [] s = Inr (n, fold tty_putc (map of_char cs @ [10]) s)"
    using kprintf_loop_plain [of "map of_char cs @ [10]" 0 0 "[]" s] by (auto simp: kprintf_def litn_def)
  moreover have "prints s (fold tty_putc (map of_char cs @ [10]) s)" by (auto simp only: prints_def)
  ultimately show ?thesis using prints_same_kernel by (intro that)
qed

lemma same_kernel_fields:
  assumes "same_kernel s t"
  shows "rd a t = rd a s" "mem t = mem s" "cr3 t = cr3 s" "pmm t = pmm s" "kernel_page_directory t = kernel_page_directory s"
    "block_list_head t = block_list_head s" "vmm_block_list_head t = vmm_block_list_head s"
    "int_flag t = int_flag s" "idt_handlers t = idt_handlers s" "vmm_state.more t = vmm_state.more s"
  using assms by (cases s; cases t; simp add: same_kernel_def rd_def)+

text \<open>
  What the boot loader and \<^verbatim>\<open>pmm_init\<close> leave: a pool above the kernel image whose first three frames are free,
  low enough for the first virtual block; the array of the initial heap in the image, a page of its own and zero.
\<close>

definition boot_ready :: "symbols \<Rightarrow> 'a vmm_state_scheme \<Rightarrow> bool" where
  "boot_ready L s \<longleftrightarrow> pmm_wf (pmm s) \<and> page_aligned (starting_addr (pmm s)) \<and>
     unat (starting_addr (pmm s)) \<le> 4096 * 1018 \<and>
     unat (starting_addr (pmm s)) + 4096 * pool_size (pmm s) \<le> 0x40000000 \<and>
     page_free (pmm s) 0 \<and> page_free (pmm s) 1 \<and> page_free (pmm s) 2 \<and>
     page_aligned (sym_kmalloc_init_block L) \<and> 0xC0000000 \<le> unat (sym_kmalloc_init_block L) \<and>
     unat (sym_kmalloc_init_block L) < 0xC0000000 + unat (starting_addr (pmm s)) \<and>
     (\<forall>i<1024. rd (slot (sym_kmalloc_init_block L) i) s = 0) \<and>
     PAGE_DIRECTORY_INDEX (sym_kernel_start_virt L) = 0x300"

lemma rd_kmalloc_init:
  assumes "page_aligned (sym_kmalloc_init_block L)" "page_aligned q" "i < 1024"
    "q \<noteq> sym_kmalloc_init_block L \<or> 3 \<le> i"
  shows "rd (slot q i) (kmalloc_init L s) = rd (slot q i) s"
proof -
  let ?B = "sym_kmalloc_init_block L"
  have "rd (slot q i) (kmalloc_init L s) = rd (slot q i) (wr (slot ?B 2) (BLOCK_HEADER_SIZE + ?B)
      (wr (slot ?B 1) 0 (wr (slot ?B 0) 4096 s)))"
    by (simp add: kmalloc_init_def Let_def slot_def rd_def wr_def)
  also have "\<dots> = rd (slot q i) s" using assms by (auto simp: rd_slot_wr)
  finally show ?thesis .
qed

lemma kmalloc_init_fields:
  "pmm (kmalloc_init L s) = pmm s" "kernel_page_directory (kmalloc_init L s) = kernel_page_directory s"
  "cr3 (kmalloc_init L s) = cr3 s" "int_flag (kmalloc_init L s) = int_flag s"
  "idt_handlers (kmalloc_init L s) = idt_handlers s" "kmalloc_state.more (kmalloc_init L s) = kmalloc_state.more s"
  by (simp_all add: kmalloc_init_def Let_def wr_def)

lemma page_addr_small: "page_addr p 0 = starting_addr p" "page_addr p 1 = starting_addr p + 4096"
  "page_addr p 2 = starting_addr p + 8192"
  by (simp_all add: page_addr_def PAGE_SIZE_def)

lemma memory_init_state:
  assumes "boot_ready L s"
  defines "B \<equiv> sym_kmalloc_init_block L" and "st \<equiv> starting_addr (pmm s)"
  obtains t where "memory_init L s = Inr ((), t)" "kernel_space t" "boot_heap B 984 t"
    "vmm_free_set t = vmm_page_addr ` {unat st div 4096 + 1<..<1021}"
    "pmm t = mark_page 1 (mark_page 0 (pmm s))" "kernel_page_directory t = P2V_ADDR st"
    "rd (page_table (slot B 986)) t = P2V_ADDR (st + 4096)" "int_flag t = int_flag s"
    "idt_handlers t 14 = Paging_page_fault_handler" "vmm_state.more t = vmm_state.more s"
proof -
  have b: "pmm_wf (pmm s)" "page_aligned st" "unat st \<le> 4096 * 1018"
    "unat st + 4096 * pool_size (pmm s) \<le> 0x40000000" "page_free (pmm s) 0" "page_free (pmm s) 1"
    "page_aligned B" "0xC0000000 \<le> unat B" "unat B < 0xC0000000 + unat st" "\<forall>i<1024. rd (slot B i) s = 0"
    "PAGE_DIRECTORY_INDEX (sym_kernel_start_virt L) = 0x300"
    using assms(1) by (simp_all add: boot_ready_def B_def st_def)
  define p where "p = unat st div 4096 + 1"
  have st: "unat st = 4096 * (p - 1)" "1 \<le> p" "p < 1020" using b(2,3) by (auto simp: p_def page_aligned_def)
  let ?pd = "P2V_ADDR st" and ?pt = "P2V_ADDR (st + 4096)"
  have un: "unat ?pd = 0xC0000000 + 4096 * (p - 1)" "unat ?pt = 0xC0000000 + 4096 * p"
    using st by (simp_all add: P2V_ADDR_def KERNEL_VIRT_BASE_def unat_word_ariths)
  have l: "page_free (mark_page 0 (pmm s)) 1" "\<forall>j<1. \<not> page_free (mark_page 0 (pmm s)) j"
    using b(6) by (simp_all add: page_free_mark)
  obtain u where u: "paging_init L s = Inr (?pt, paging_map_kernel L ?pt u)"
    "page_aligned st" "page_aligned (st + 4096)" "pmm u = mark_page 1 (mark_page 0 (pmm s))"
    "kernel_page_directory u = ?pd" "int_flag u = int_flag s" "paging_state.more u = paging_state.more s"
    "\<And>i. i < 1024 \<Longrightarrow> rd (slot ?pd i) u = 0"
    "\<And>q i. page_aligned q \<Longrightarrow> i < 1024 \<Longrightarrow> q \<noteq> ?pd \<Longrightarrow> q \<noteq> ?pt \<Longrightarrow> rd (slot q i) u = rd (slot q i) s"
    by (rule paging_init_steps [where L = L, OF b(1) b(2,4) [unfolded st_def] b(5) _ l, unfolded page_addr_small,
          folded st_def]) (simp, rule that)
  note al = page_aligned_P2V [OF u(2)] page_aligned_P2V [OF u(3)]
  have ne: "?pd \<noteq> ?pt" "B \<noteq> ?pd" "B \<noteq> ?pt" using un b(9) st by (auto dest: arg_cong [where f = unat])
  define v0 where "v0 = paging_map_kernel L ?pt u"
  obtain m1 v where pv: "kprintf (litn ''[-] Initializing Heap...'') [] v0 = Inr (m1, v)" "same_kernel v0 v"
    by (rule kprintf_message [of "''[-] Initializing Heap...''" v0]) simp_all
  note sv = same_kernel_fields [OF pv(2)]
  note m = paging_map_kernel_tables [where L = L, OF al ne(1) u(5,8), folded v0_def]
  have v: "kernel_page_directory v = ?pd" "cr3 v = V2P_ADDR ?pd" "pmm v = mark_page 1 (mark_page 0 (pmm s))"
    "\<And>i. i < 1024 \<Longrightarrow> rd (slot ?pd i) v = (if i = 0x300 then word_of_pde (kernel_pde (V2P_ADDR ?pt)) else 0)"
    "\<And>i. i < 1024 \<Longrightarrow> rd (slot ?pt i) v = word_of_pte (kernel_pte (of_nat i * PAGE_SIZE))"
    "\<And>q i. page_aligned q \<Longrightarrow> q \<noteq> ?pd \<Longrightarrow> q \<noteq> ?pt \<Longrightarrow> i < 1024 \<Longrightarrow> rd (slot q i) v = rd (slot q i) s"
    unfolding sv using m u(4) by (simp_all only: b(11)) (simp add: u(9))
  obtain m2 w where pw: "kprintf (litn ''[-] Initializing Virtual Memory Manager...'') [] (kmalloc_init L v) = Inr (m2, w)"
    "same_kernel (kmalloc_init L v) w"
    by (rule kprintf_message [of "''[-] Initializing Virtual Memory Manager...''" "kmalloc_init L v"]) simp_all
  note sw = same_kernel_fields [OF pw(2)]
  have rw: "rd (slot q i) w = rd (slot q i) v" if "page_aligned q" "i < 1024" "q \<noteq> B \<or> 3 \<le> i" for q i
    unfolding sw(1) by (rule rd_kmalloc_init [OF b(7) [unfolded B_def] that(1,2) that(3) [unfolded B_def]])
  have "unat B mod 4096 mod 8 = unat B mod 8" by (rule mod_mod_cancel) simp
  then have "unat B mod 8 = 0" using b(7) by (simp only: page_aligned_def mod_0)
  moreover have "B \<noteq> 0" using b(8) by auto
  moreover have "unat B + 4096 < 2 ^ 32" using b(3,9) by simp
  ultimately have "heap [(B, 4096)] (kmalloc_init L v)" unfolding B_def by (rule kmalloc_init_heap(1))
  then have heap: "heap [(B, 4096)] w" by (simp add: heap_single sw)
  have zero: "\<forall>i<1024. 3 \<le> i \<longrightarrow> rd (slot B i) w = 0" using rw v(6) b(7,10) ne(2,3) by simp
  have pres: "\<forall>i<1024. bit (rd (slot ?pt i) w) 0"
  proof (intro allI impI)
    fix i :: nat assume i: "i < 1024"
    then have "rd (slot ?pt i) w = word_of_pte (kernel_pte (of_nat i * PAGE_SIZE))" using rw al(2) ne(3) v(5) by simp
    then show "bit (rd (slot ?pt i) w) 0"
      using kernel_pte_frame [OF i] by (metis pte_of_word_of_pte pte_present_bit)
  qed
  have lt: "unat B < unat ?pt" using un(2) b(9) st by simp
  obtain t where t: "vmm_init ?pt w = Inr ((), t)" "boot_heap B 984 t" "vmm_free_set t = vmm_page_addr ` {p<..<1021}"
    "rd (page_table (vmm_block_list_head t)) t = ?pt" "vmm_block_list_head t = slot B 986"
    "\<And>q j. page_aligned q \<Longrightarrow> j < 1024 \<Longrightarrow> q \<noteq> B \<Longrightarrow> rd (slot q j) t = rd (slot q j) w"
    "\<exists>m. t = w\<lparr>mem := m, vmm_block_list_head := slot B 986, vmm_block_list_tail := slot B 986\<rparr>"
    by (rule vmm_init_boot [OF heap b(7) zero al(2) lt un(2) st(3) pres]) blast
  have ret: "memory_init L s = Inr ((), t)" by (simp add: memory_init_def Let_def u(1) t(1) v0_def [symmetric] pv(1) pw(1))
  have kd: "pmm t = mark_page 1 (mark_page 0 (pmm s))" "kernel_page_directory t = ?pd" "cr3 t = V2P_ADDR ?pd"
    using t(7) v(1-3) by (auto simp: sw kmalloc_init_fields)
  have "kernel_space t"
  proof -
    have out: "q \<notin> vmm_free_set t" if "unat q \<le> unat ?pt" for q
      using that un(2) st(3) by (auto simp: t(3) vmm_page_addr_unat)
    have far: "q \<noteq> B" if "q = ?pd \<or> q \<in> vmm_free_set t" for q
      using that ne(2) out [of B] lt by auto
    have desc: "slot (slot B 986) i \<noteq> slot q j"
      if "q = ?pd \<or> q \<in> vmm_free_set t" "i < 37" "j < 1024" for q i j
    proof -
      have "page_aligned q" using that(1) al(1) vmm_free_set_page(1) by blast
      then show ?thesis using far [OF that(1)] b(7) that(2,3) by (simp add: slot_slot slot_eq_iff)
    qed
    have "unat ?pd \<le> unat ?pt" using un by simp
    moreover have "vmm_ready t" using t(2) by (simp add: boot_heap_def)
    moreover have "rd (slot ?pd 0x300) t = word_of_pde (kernel_pde (V2P_ADDR ?pt))"
      using t(6) rw v(4) al(1) ne(2) by simp
    moreover have "\<forall>i<1024. rd (slot ?pt i) t = word_of_pte (kernel_pte (of_nat i * PAGE_SIZE))"
      using t(6) rw v(5) al(2) ne(3) by simp
    ultimately show ?thesis
      unfolding kernel_space_def Let_def t(4) unfolding t(5) kd using al(1) ne(1) out desc by auto
  qed
  moreover have "int_flag t = int_flag s" "idt_handlers t 14 = Paging_page_fault_handler"
    using t(7) m(6,9) u(6) by (auto simp: sw kmalloc_init_fields sv)
  moreover have "rd (page_table (slot B 986)) t = ?pt" using t(4,5) by simp
  moreover have "vmm_state.more t = vmm_state.more s"
  proof -
    have k: "kmalloc_state.more x = kmalloc_state.more y \<Longrightarrow> vmm_state.more x = vmm_state.more y"
      "paging_state.more x = paging_state.more y \<Longrightarrow> vmm_state.more x = vmm_state.more y" for x y :: "'a vmm_state_scheme"
      by (cases x; cases y; simp)+
    have "vmm_state.more t = vmm_state.more w" using t(7) by auto
    also have "\<dots> = vmm_state.more v" using sw(10) k(1) [OF kmalloc_init_fields(6)] by simp
    also have "\<dots> = vmm_state.more u" using sv(10) k(2) [OF paging_map_kernel_more] by (simp add: v0_def)
    also have "\<dots> = vmm_state.more s" using k(2) [OF u(7)] .
    finally show ?thesis .
  qed
  ultimately show ?thesis using ret t(2,3) kd(1,2) by (intro that [of t]) (simp_all add: p_def)
qed

section \<open>Properties\<close>

text \<open>
  C7: booting the memory components establishes the states their operations rely on. From what the boot loader
  and \<^verbatim>\<open>pmm_init\<close> leave, the three initialisations return; the heap is then one block of 3936 bytes, the
  page allocator is ready with every page above the page tables, and the processor maps the kernel's 4 MiB to physical
  memory from address 0, for the kernel only.
\<close>

theorem memory_init_establishes:
  assumes "boot_ready L s"
  shows "\<exists>t. memory_init L s = Inr ((), t) \<and> heap [(sym_kmalloc_init_block L, 3936)] t \<and> vmm_ready t \<and>
    vmm_free_set t = vmm_page_addr ` {unat (starting_addr (pmm s)) div 4096 + 1<..<1021} \<and>
    (\<forall>va. 0xC0000000 \<le> unat va \<and> unat va < 0xC0400000 \<longrightarrow> mmu_translate t va = Some (V2P_ADDR va) \<and> \<not> mmu_user t va)"
proof -
  obtain t where t: "memory_init L s = Inr ((), t)" "kernel_space t" "boot_heap (sym_kmalloc_init_block L) 984 t"
    "vmm_free_set t = vmm_page_addr ` {unat (starting_addr (pmm s)) div 4096 + 1<..<1021}"
    by (rule memory_init_state [OF assms]) (rule that)
  then show ?thesis using kernel_space_translate [OF t(2)] by (auto simp: boot_heap_def)
qed

lemma mark_page_least:
  assumes "page_free p 0" "page_free p 1" "page_free p 2"
  shows "page_free (mark_page 1 (mark_page 0 p)) 2" "\<forall>l<2. \<not> page_free (mark_page 1 (mark_page 0 p)) l"
  using assms by (auto simp: page_free_mark less_Suc_eq numeral_2_eq_2)

text \<open>
  The two page allocators own the same memory. After boot the frame behind the first page that
  \<^verbatim>\<open>vmm_alloc_page\<close> hands out is still free in the frame allocator: it is the very next frame that
  \<^verbatim>\<open>pmm_alloc_page\<close> returns, so a stack of one task and a page of another can be the same memory.
\<close>

theorem boot_pages_alias_frames:
  assumes "boot_ready L s"
  shows "\<exists>t q u v. memory_init L s = Inr ((), t) \<and> vmm_alloc_page t = Inr (q, u) \<and>
    mmu_translate u q = Some (V2P_ADDR q) \<and> pmm_alloc_page u = Inr (V2P_ADDR q, v)"
proof -
  let ?st = "starting_addr (pmm s)" and ?p = "unat (starting_addr (pmm s)) div 4096 + 1"
  have b: "pmm_wf (pmm s)" "page_aligned ?st" "unat ?st \<le> 4096 * 1018"
    "page_free (pmm s) 0" "page_free (pmm s) 1" "page_free (pmm s) 2"
    using assms by (simp_all add: boot_ready_def)
  have st: "unat ?st = 4096 * (?p - 1)" "?p < 1020" using b(2,3) by (auto simp: page_aligned_def)
  obtain t where t: "memory_init L s = Inr ((), t)" "kernel_space t"
    "vmm_free_set t = vmm_page_addr ` {?p<..<1021}" "pmm t = mark_page 1 (mark_page 0 (pmm s))"
    by (rule memory_init_state [OF assms]) (rule that)
  have mem: "vmm_page_addr (?p + 1) \<in> vmm_free_set t" unfolding t(3) using st(2) by (intro imageI) auto
  then have ne: "vmm_free_set t \<noteq> {}" by blast
  obtain q u where u: "vmm_alloc_page t = Inr (q, u)" "q \<in> vmm_free_set t" "\<exists>m. u = t\<lparr>mem := m\<rparr>"
    "\<forall>p\<in>vmm_free_set t. unat q \<le> unat p"
    by (rule vmm_take_page [OF kernel_space_pages(1) [OF t(2)] ne]) blast
  obtain k where k: "q = vmm_page_addr k" "?p < k" "k < 1021" using u(2) unfolding t(3) by auto
  have "unat q \<le> unat (vmm_page_addr (?p + 1))" using u(4) mem by blast
  then have "k = ?p + 1" using k st(2) by (simp add: vmm_page_addr_unat)
  then have q: "unat q = 0xC0000000 + 4096 * (?p + 1)" using k(1,3) by (simp add: vmm_page_addr_unat)
  have "V2P_ADDR q = page_addr (pmm s) 2"
    using q st by (simp add: page_addr_small word_unat_eq_iff V2P_ADDR_def KERNEL_VIRT_BASE_def unat_sub_if' unat_word_ariths)
  moreover have "pmm u = mark_page 1 (mark_page 0 (pmm s))" using u(3) t(4) by auto
  then have "\<exists>v. pmm_alloc_page u = Inr (page_addr (pmm s) 2, v)"
    using pmm_alloc_page_found [of u 2] b(1) mark_page_least [OF b(4-6)] by simp
  moreover have "mmu_translate u q = Some (V2P_ADDR q)"
  proof -
    obtain q' u' where u': "vmm_alloc_page t = Inr (q', u')" "kernel_space u'"
      by (rule kernel_space_take [OF t(2) ne]) blast
    then have "kernel_space u" using u(1) by simp
    then show ?thesis using kernel_space_translate [of u q] q st(2) by simp
  qed
  ultimately show ?thesis using t(1) u(1) by metis
qed

text \<open>A machine with zeroed memory and a fresh pool of 64 frames above 2 MiB.\<close>

definition example_boot :: "'a vmm_state_scheme \<Rightarrow> 'a vmm_state_scheme" where
  "example_boot s = s\<lparr>pmm := example_pool\<lparr>bitmap := \<lambda>_. 0\<rparr>, mem := (\<lambda>_. 0)\<rparr>"

lemma example_boot_ready: "boot_ready example_symbols (example_boot s)"
  by (simp add: boot_ready_def example_boot_def example_pool_def example_symbols_def pmm_wf_def pool_size_def
      PMM_BITMAP_WORDS_def page_aligned_def page_free_def rd_def load32_def unat_PAGE_DIRECTORY_INDEX)

theorem memory_init_establishes_witness:
  "\<forall>s :: vmm_state. \<exists>t. memory_init example_symbols (example_boot s) = Inr ((), t) \<and>
     heap [(0xC0112000, 3936)] t \<and> mmu_translate t 0xC0101234 = Some 0x00101234"
proof
  fix s :: vmm_state
  have "sym_kmalloc_init_block example_symbols = 0xC0112000" by (simp add: example_symbols_def)
  moreover have "V2P_ADDR 0xC0101234 = 0x00101234" by (simp add: V2P_ADDR_def KERNEL_VIRT_BASE_def)
  ultimately show "\<exists>t. memory_init example_symbols (example_boot s) = Inr ((), t) \<and>
     heap [(0xC0112000, 3936)] t \<and> mmu_translate t 0xC0101234 = Some 0x00101234"
    using memory_init_establishes [OF example_boot_ready [of s]] by force
qed

theorem boot_pages_alias_frames_witness:
  "\<forall>s :: vmm_state. \<exists>t q u v. memory_init example_symbols (example_boot s) = Inr ((), t) \<and>
     vmm_alloc_page t = Inr (q, u) \<and> mmu_translate u q = Some (V2P_ADDR q) \<and> pmm_alloc_page u = Inr (V2P_ADDR q, v)"
  using boot_pages_alias_frames [OF example_boot_ready] by blast

text \<open>The example after booting has 507 free pages and its third frame free.\<close>

lemma example_boot_memory:
  obtains t where "memory_init example_symbols (example_boot s) = Inr ((), t)" "kernel_space t" "3 \<le> card (vmm_free_set t)"
    "pmm_wf (pmm t)" "page_aligned (starting_addr (pmm t))" "page_free (pmm t) 2" "\<forall>l<2. \<not> page_free (pmm t) l"
proof -
  let ?s = "example_boot s"
  have f: "pmm_wf (pmm ?s)" "page_aligned (starting_addr (pmm ?s))" "page_free (pmm ?s) 0" "page_free (pmm ?s) 1"
    "page_free (pmm ?s) 2" "unat (starting_addr (pmm ?s)) div 4096 + 1 = 513"
    using example_boot_ready [of s] by (simp_all add: boot_ready_def) (simp_all add: example_boot_def example_pool_def)
  obtain t where t: "memory_init example_symbols ?s = Inr ((), t)" "kernel_space t"
    "vmm_free_set t = vmm_page_addr ` {513<..<1021}" "pmm t = mark_page 1 (mark_page 0 (pmm ?s))"
    by (rule memory_init_state [OF example_boot_ready [of s], unfolded f(6)]) (rule that)
  have "inj_on vmm_page_addr {513<..<1021}" by (rule inj_onI) (simp add: vmm_page_addr_inj)
  then have "3 \<le> card (vmm_free_set t)" unfolding t(3) by (simp add: card_image)
  moreover have "pmm_wf (pmm t)" "page_aligned (starting_addr (pmm t))"
    using f(1,2) by (simp_all add: t(4)) (simp add: mark_page_def)
  moreover have "page_free (pmm t) 2" "\<forall>l<2. \<not> page_free (pmm t) l"
    using mark_page_least [OF f(3-5)] by (simp_all only: t(4))
  ultimately show ?thesis using t(1,2) by (intro that)
qed

theorem paging_add_temp_userspace_opens_witness:
  "\<forall>s :: vmm_state. \<exists>t u. memory_init example_symbols (example_boot s) = Inr ((), t) \<and>
     paging_add_temp_userspace t = Inr ((), u) \<and> mmu_translate u 0x00101234 = Some 0x00101234 \<and> mmu_user u 0x00101234"
proof
  fix s :: vmm_state
  obtain t where t: "memory_init example_symbols (example_boot s) = Inr ((), t)" "kernel_space t" "3 \<le> card (vmm_free_set t)"
    "pmm_wf (pmm t)" "page_aligned (starting_addr (pmm t))" "page_free (pmm t) 2" "\<forall>l<2. \<not> page_free (pmm t) l"
    by (rule example_boot_memory)
  have "2 \<le> card (vmm_free_set t)" using t(3) by simp
  then obtain u where "paging_add_temp_userspace t = Inr ((), u)"
    "mmu_translate u 0x00101234 = Some 0x00101234 \<and> mmu_user u 0x00101234"
    using paging_add_temp_userspace_opens [OF t(2) _ t(4-7)] by force
  with t(1) show "\<exists>t u. memory_init example_symbols (example_boot s) = Inr ((), t) \<and>
     paging_add_temp_userspace t = Inr ((), u) \<and> mmu_translate u 0x00101234 = Some 0x00101234 \<and> mmu_user u 0x00101234"
    by blast
qed

theorem paging_create_userspace_maps_witness:
  "\<forall>s :: vmm_state. \<exists>t d u. memory_init example_symbols (example_boot s) = Inr ((), t) \<and>
     paging_create_userspace \<lparr>starting_eip = 0, phys_addr_start = 0x300000, phys_addr_end = 0x300100, uti_len = 0x100\<rparr> t
       = Inr (V2P_ADDR d, u) \<and>
     mmu_translate (paging_change_page_directory (V2P_ADDR d) u) 0 = Some 0x300000 \<and>
     mmu_translate (paging_change_page_directory (V2P_ADDR d) u) 0xBFFFF000 = Some 0x300000"
proof
  fix s :: vmm_state
  let ?i = "\<lparr>starting_eip = 0, phys_addr_start = 0x300000, phys_addr_end = 0x300100, uti_len = 0x100\<rparr>"
  obtain t where t: "memory_init example_symbols (example_boot s) = Inr ((), t)" "kernel_space t" "3 \<le> card (vmm_free_set t)"
    by (rule example_boot_memory)
  have "page_aligned (phys_addr_start ?i)" by (simp add: page_aligned_def)
  from paging_create_userspace_maps [OF t(2,3) this]
  obtain d u where u: "paging_create_userspace ?i t = Inr (V2P_ADDR d, u)"
    "\<And>va. unat va < 4096 \<Longrightarrow>
      mmu_translate (paging_change_page_directory (V2P_ADDR d) u) va = Some (0x300000 OR (va AND 0xFFF))"
    "\<And>va. 0xBFFFF000 \<le> unat va \<Longrightarrow> unat va < 0xC0000000 \<Longrightarrow>
      mmu_translate (paging_change_page_directory (V2P_ADDR d) u) va = Some (0x300000 OR (va AND 0xFFF))"
    by (auto simp: Let_def)
  show "\<exists>t d u. memory_init example_symbols (example_boot s) = Inr ((), t) \<and> paging_create_userspace ?i t = Inr (V2P_ADDR d, u) \<and>
     mmu_translate (paging_change_page_directory (V2P_ADDR d) u) 0 = Some 0x300000 \<and>
     mmu_translate (paging_change_page_directory (V2P_ADDR d) u) 0xBFFFF000 = Some 0x300000"
    by (intro exI [of _ t] exI [of _ d] exI [of _ u]) (simp add: t(1) u)
qed

end
