(* ===== verification/Gdt.thy ===== *)
theory Gdt
  imports Vmm
begin

text \<open>
  The segment descriptors and the task state segment of \<^verbatim>\<open>kernel/memory/gdt.c\<close>: how a descriptor
  spreads base and limit over its fields, the six descriptors of the kernel, and the kernel stack
  pointer that the scheduler leaves for the next interrupt from user mode.
\<close>

section \<open>State\<close>

record access_byte =
  ab_accessed :: bool
  ab_r_w :: bool
  ab_dc :: bool
  ab_e :: bool
  ab_s :: bool
  ab_dpl :: "2 word"
  ab_p :: bool

record limit_and_flags =
  lf_segment_limit_2 :: "4 word"
  lf_res :: bool
  lf_l :: bool
  lf_db :: bool
  lf_g :: bool

record gdt_entry =
  segment_limit_1 :: u16
  base_1 :: u16
  base_2 :: u8
  access_byte :: access_byte
  limit_and_flags :: limit_and_flags
  base_3 :: u8

record gdt_pointer =
  gdt_size :: u16
  gdt_addr :: u32

record tss =
  tss_back_link :: u32
  tss_esp0 :: u32
  tss_ss0 :: u32
  tss_esp1 :: u32
  tss_ss1 :: u32
  tss_esp2 :: u32
  tss_ss2 :: u32
  tss_cr3 :: u32
  tss_eip :: u32
  tss_eflags :: u32
  tss_eax :: u32
  tss_ecx :: u32
  tss_edx :: u32
  tss_ebx :: u32
  tss_esp :: u32
  tss_ebp :: u32
  tss_esi :: u32
  tss_edi :: u32
  tss_es :: u32
  tss_cs :: u32
  tss_ss :: u32
  tss_ds :: u32
  tss_fs :: u32
  tss_gs :: u32
  tss_ldt :: u32
  tss_io_map_offset :: u32

record gdt_state = vmm_state +
  global_descriptor_table :: "nat \<Rightarrow> gdt_entry"
  gdt_descriptor :: gdt_pointer
  tss_region :: tss

definition GDT_KERNEL_CODE_SEG :: u32 where "GDT_KERNEL_CODE_SEG = 0x08"
definition GDT_KERNEL_DATA_SEG :: u32 where "GDT_KERNEL_DATA_SEG = 0x10"
definition GDT_TSS_SEG :: u32 where "GDT_TSS_SEG = 0x18"
definition GDT_USER_CODE_SEG :: u32 where "GDT_USER_CODE_SEG = 0x23"
definition GDT_USER_DATA_SEG :: u32 where "GDT_USER_DATA_SEG = 0x2B"

section \<open>Operations\<close>

text \<open>A byte read as the bit fields of the two structures, lowest bit first.\<close>

definition access_byte_of :: "u8 \<Rightarrow> access_byte" where
  "access_byte_of w = \<lparr>ab_accessed = bit w 0, ab_r_w = bit w 1, ab_dc = bit w 2, ab_e = bit w 3,
     ab_s = bit w 4, ab_dpl = ucast (drop_bit 5 w), ab_p = bit w 7\<rparr>"

definition limit_and_flags_of :: "u8 \<Rightarrow> limit_and_flags" where
  "limit_and_flags_of w = \<lparr>lf_segment_limit_2 = ucast w, lf_res = bit w 4, lf_l = bit w 5,
     lf_db = bit w 6, lf_g = bit w 7\<rparr>"

definition gdt_create_entry :: "u32 \<Rightarrow> u32 \<Rightarrow> u8 \<Rightarrow> u8 \<Rightarrow> gdt_entry" where
  "gdt_create_entry segment_limit base access flags =
     (let flags_and_limit = (drop_bit 16 segment_limit AND 0x0F) OR (push_bit 4 (ucast flags) AND 0xF0)
      in \<lparr>segment_limit_1 = ucast (0xFFFF AND segment_limit),
          base_1 = ucast (0x00FFFF AND base),
          base_2 = ucast (drop_bit 16 (0xFF0000 AND base)),
          access_byte = access_byte_of access,
          limit_and_flags = limit_and_flags_of (ucast flags_and_limit),
          base_3 = ucast (drop_bit 24 (base AND 0xFF000000))\<rparr>)"

definition sizeof_tss :: u32 where
  "sizeof_tss = 128"

definition gdt_init :: "symbols \<Rightarrow> 'a gdt_state_scheme \<Rightarrow> u32 \<times> 'a gdt_state_scheme" where
  "gdt_init L s =
     (let t = global_descriptor_table s;
          t = t(0 := gdt_create_entry 0 0 0 0);
          t = t(1 := gdt_create_entry 0xFFFFF 0 0x9A 0xC);
          t = t(2 := gdt_create_entry 0xFFFFF 0 0x92 0xC);
          t = t(3 := gdt_create_entry sizeof_tss (sym_tss_region L) 0x89 0);
          t = t(4 := gdt_create_entry 0xFFFFF 0 0xFA 0xC);
          t = t(5 := gdt_create_entry 0xFFFFF 0 0xF2 0xC);
          num_gdt_entries = 6;
          s = s\<lparr>global_descriptor_table := t,
                 gdt_descriptor := \<lparr>gdt_size = num_gdt_entries * 8, gdt_addr = sym_gdt L\<rparr>,
                 tss_region := (tss_region s)\<lparr>tss_ss0 := GDT_KERNEL_DATA_SEG\<rparr>\<rparr>
      in (sym_gdt_descriptor L, s))"

definition gdt_update_tss :: "u32 \<Rightarrow> 'a gdt_state_scheme \<Rightarrow> 'a gdt_state_scheme" where
  "gdt_update_tss user_kernel_stack s =
     s\<lparr>tss_region := (tss_region s)\<lparr>tss_esp0 := user_kernel_stack\<rparr>\<rparr>"

section \<open>Descriptors as the processor reads them\<close>

definition entry_base :: "gdt_entry \<Rightarrow> u32" where
  "entry_base e = ucast (base_1 e) OR push_bit 16 (ucast (base_2 e)) OR push_bit 24 (ucast (base_3 e))"

definition entry_limit :: "gdt_entry \<Rightarrow> u32" where
  "entry_limit e = ucast (segment_limit_1 e) OR push_bit 16 (ucast (lf_segment_limit_2 (limit_and_flags e)))"

text \<open>The last byte offset of the segment, in units of a byte or of a page.\<close>

definition entry_last_offset :: "gdt_entry \<Rightarrow> nat" where
  "entry_last_offset e = (if lf_g (limit_and_flags e) then 4096 * unat (entry_limit e) + 4095
     else unat (entry_limit e))"

text \<open>The entry a selector names, and its requested privilege level.\<close>

definition selected :: "u32 \<Rightarrow> 'a gdt_state_scheme \<Rightarrow> gdt_entry" where
  "selected sel s = global_descriptor_table s (unat (drop_bit 3 sel))"

text \<open>A present, writable or readable 32-bit segment of all 4 GiB, and a present task state segment.\<close>

definition flat_segment :: "gdt_entry \<Rightarrow> bool \<Rightarrow> 2 word \<Rightarrow> bool" where
  "flat_segment e code dpl \<longleftrightarrow> entry_base e = 0 \<and> entry_last_offset e = 2 ^ 32 - 1 \<and>
     ab_p (access_byte e) \<and> ab_s (access_byte e) \<and> ab_r_w (access_byte e) \<and>
     lf_db (limit_and_flags e) \<and> \<not> lf_l (limit_and_flags e) \<and>
     ab_e (access_byte e) = code \<and> ab_dpl (access_byte e) = dpl"

definition tss_segment :: "gdt_entry \<Rightarrow> u32 \<Rightarrow> bool" where
  "tss_segment e addr \<longleftrightarrow> entry_base e = addr \<and> \<not> ab_s (access_byte e) \<and> ab_e (access_byte e) \<and>
     \<not> ab_dc (access_byte e) \<and> \<not> ab_r_w (access_byte e) \<and> ab_accessed (access_byte e) \<and>
     ab_p (access_byte e) \<and> ab_dpl (access_byte e) = 0"

lemmas gdt_selectors = GDT_KERNEL_CODE_SEG_def GDT_KERNEL_DATA_SEG_def GDT_TSS_SEG_def
  GDT_USER_CODE_SEG_def GDT_USER_DATA_SEG_def

lemma gdt_masks:
  "(0xFFFF :: u32) = mask 16" "(0xFF0000 :: u32) = push_bit 16 (mask 8)"
  "(0xFF000000 :: u32) = push_bit 24 (mask 8)" "(0x0F :: u32) = mask 4" "(0xF0 :: u32) = push_bit 4 (mask 4)"
  by (simp_all add: mask_eq_exp_minus_1)

lemma gdt_entry_base: "entry_base (gdt_create_entry limit base a f) = base"
proof (rule bit_word_eqI)
  fix n assume "n < LENGTH(32)"
  then consider "n < 16" | "16 \<le> n" "n < 24" | "24 \<le> n" "n < 32" by force
  then show "bit (entry_base (gdt_create_entry limit base a f)) n = bit base n"
    unfolding entry_base_def gdt_create_entry_def Let_def gdt_masks
    by cases (auto simp: bit_simps)
qed

lemma gdt_entry_limit:
  assumes "limit < 2 ^ 20"
  shows "entry_limit (gdt_create_entry limit base a f) = limit"
proof (rule bit_word_eqI)
  fix n assume n: "n < LENGTH(32)"
  have high: "\<not> bit limit n" if "20 \<le> n"
  proof -
    have "limit = take_bit 20 limit" using less_mask_eq [OF assms] by (simp add: take_bit_eq_mask)
    then have "bit limit n \<longleftrightarrow> n < 20 \<and> bit limit n" by (metis bit_take_bit_iff)
    with that show ?thesis by simp
  qed
  from n consider "n < 16" | "16 \<le> n" "n < 20" | "20 \<le> n" "n < 32" by force
  then show "bit (entry_limit (gdt_create_entry limit base a f)) n = bit limit n"
    unfolding entry_limit_def gdt_create_entry_def limit_and_flags_of_def Let_def gdt_masks
    by cases (auto simp: bit_simps high)
qed

lemma gdt_entry_flags:
  "lf_g (limit_and_flags (gdt_create_entry limit base a f)) = bit f 3"
  "lf_db (limit_and_flags (gdt_create_entry limit base a f)) = bit f 2"
  "lf_l (limit_and_flags (gdt_create_entry limit base a f)) = bit f 1"
  "access_byte (gdt_create_entry limit base a f) = access_byte_of a"
  unfolding gdt_create_entry_def limit_and_flags_of_def Let_def gdt_masks
  by (auto simp: bit_simps)

text \<open>
  C32: after \<^verbatim>\<open>gdt_init\<close> the selectors of the kernel name the right segments: code and data of ring 0 and of
  ring 3 are flat 4 GiB segments from address 0 and present, with the privilege level the selector
  requests, and the task state selector names an available 32-bit task state segment at the address of
  \<^verbatim>\<open>tss_region\<close>, whose ring 0 stack segment is the kernel's data segment.
\<close>

theorem gdt_init_segments:
  "let t = snd (gdt_init L s) in
     flat_segment (selected GDT_KERNEL_CODE_SEG t) True (ucast GDT_KERNEL_CODE_SEG) \<and>
     flat_segment (selected GDT_KERNEL_DATA_SEG t) False (ucast GDT_KERNEL_DATA_SEG) \<and>
     flat_segment (selected GDT_USER_CODE_SEG t) True (ucast GDT_USER_CODE_SEG) \<and>
     flat_segment (selected GDT_USER_DATA_SEG t) False (ucast GDT_USER_DATA_SEG) \<and>
     tss_segment (selected GDT_TSS_SEG t) (sym_tss_region L) \<and>
     tss_ss0 (tss_region t) = GDT_KERNEL_DATA_SEG"
proof -
  define t where "t = snd (gdt_init L s)"
  have sel: "selected GDT_KERNEL_CODE_SEG t = gdt_create_entry 0xFFFFF 0 0x9A 0xC"
    "selected GDT_KERNEL_DATA_SEG t = gdt_create_entry 0xFFFFF 0 0x92 0xC"
    "selected GDT_USER_CODE_SEG t = gdt_create_entry 0xFFFFF 0 0xFA 0xC"
    "selected GDT_USER_DATA_SEG t = gdt_create_entry 0xFFFFF 0 0xF2 0xC"
    "selected GDT_TSS_SEG t = gdt_create_entry sizeof_tss (sym_tss_region L) 0x89 0"
    by (simp_all add: t_def selected_def gdt_init_def Let_def gdt_selectors)
  have "tss_ss0 (tss_region t) = GDT_KERNEL_DATA_SEG"
    by (simp add: t_def gdt_init_def Let_def)
  moreover have "entry_last_offset (gdt_create_entry 0xFFFFF 0 a 0xC) = 2 ^ 32 - 1" for a
    by (simp add: entry_last_offset_def gdt_entry_limit gdt_entry_flags)
  moreover have "(ucast (0x23 :: u32) :: 2 word) = 3" "(ucast (0x2B :: u32) :: 2 word) = 3"
    "(ucast (0x08 :: u32) :: 2 word) = 0" "(ucast (0x10 :: u32) :: 2 word) = 0" by simp_all
  ultimately show ?thesis
    unfolding t_def [symmetric] Let_def flat_segment_def tss_segment_def sel gdt_entry_base gdt_entry_flags
    by (simp add: gdt_selectors access_byte_of_def)
qed

end
