(* ===== verification/Task.thy ===== *)
theory Task
  imports Gdt
begin

text \<open>
  Tasks and the scheduler: \<^verbatim>\<open>kernel/task/task.c\<close>, \<^verbatim>\<open>kernel/task/scheduler.c\<close> and the stack code of
  \<^verbatim>\<open>kernel/task/task_switch.asm\<close>. Task structures and trap frames live in the byte memory. The tasks
  form a ring through \<^verbatim>\<open>next_task\<close>; the abstract state is the list of the tasks in the order of the
  ring.
\<close>

section \<open>State and layout\<close>

text \<open>Offsets of \<^verbatim>\<open>struct task\<close>; \<^verbatim>\<open>is_user\<close> is a single byte.\<close>

definition task_trapframe :: "u32 \<Rightarrow> u32" where "task_trapframe t = t + 4"
definition task_page_directory_phys :: "u32 \<Rightarrow> u32" where "task_page_directory_phys t = t + 8"
definition task_pid :: "u32 \<Rightarrow> u32" where "task_pid t = t + 12"
definition task_is_user :: "u32 \<Rightarrow> u32" where "task_is_user t = t + 16"
definition task_kernel_stack_base :: "u32 \<Rightarrow> u32" where "task_kernel_stack_base t = t + 24"
definition task_next_task :: "u32 \<Rightarrow> u32" where "task_next_task t = t + 36"

definition sizeof_task :: u32 where "sizeof_task = 40"

text \<open>Offsets of \<^verbatim>\<open>struct trapframe\<close>.\<close>

definition tf_ds :: "u32 \<Rightarrow> u32" where "tf_ds f = f"
definition tf_eip :: "u32 \<Rightarrow> u32" where "tf_eip f = f + 44"
definition tf_cs :: "u32 \<Rightarrow> u32" where "tf_cs f = f + 48"
definition tf_eflags :: "u32 \<Rightarrow> u32" where "tf_eflags f = f + 52"
definition tf_esp :: "u32 \<Rightarrow> u32" where "tf_esp f = f + 56"
definition tf_ss :: "u32 \<Rightarrow> u32" where "tf_ss f = f + 60"

definition sizeof_trapframe :: u32 where "sizeof_trapframe = 64"

text \<open>The registers a return from an interrupt loads.\<close>

record cpu_regs =
  r_ds :: u32
  r_edi :: u32
  r_esi :: u32
  r_ebp :: u32
  r_ebx :: u32
  r_edx :: u32
  r_ecx :: u32
  r_eax :: u32
  r_eip :: u32
  r_cs :: u32
  r_eflags :: u32
  r_esp :: u32
  r_ss :: u32

record task_state = gdt_state +
  current_task :: u32
  task_list_head :: u32
  task_list_tail :: u32
  scheduler_initialized :: bool
  cpu :: cpu_regs

text \<open>
  Whether a routine returns to its caller, or the processor goes on in the trap frame of another task.
\<close>

datatype control = Return | Resume

section \<open>Operations\<close>

definition task_init :: "'a task_state_scheme \<Rightarrow> ('a task_state_scheme, unit) result" where
  "task_init s =
     bindR (kmalloc sizeof_task s) (\<lambda>boot_task s.
     if boot_task = 0 then Inl (Undefined, s)
     else
       let s = wr (task_pid boot_task) 0 s;
           s = wr (task_next_task boot_task) boot_task s;
           s = wr (task_page_directory_phys boot_task) (kernel_page_directory s) s
       in Inr ((), s\<lparr>current_task := boot_task, task_list_head := boot_task,
                     task_list_tail := boot_task\<rparr>))"

definition task_update_trapframe :: "u32 \<Rightarrow> 'a task_state_scheme \<Rightarrow> 'a task_state_scheme" where
  "task_update_trapframe tf s =
     (if current_task s \<noteq> 0 then wr (task_trapframe (current_task s)) tf s else s)"

text \<open>The last lines of both creation routines: the process number and the place in the ring.\<close>

definition task_append :: "u32 \<Rightarrow> 'a task_state_scheme \<Rightarrow> 'a task_state_scheme" where
  "task_append new_task s =
     (let s = (if task_list_tail s \<noteq> 0 then
                 (let s = wr (task_pid new_task) (rd (task_pid (task_list_tail s)) s + 1) s
                  in wr (task_next_task (task_list_tail s)) new_task s)
               else s)
      in s\<lparr>task_list_tail := new_task\<rparr>)"

definition task_create_kernel :: "symbols \<Rightarrow> 'a task_state_scheme \<Rightarrow> ('a task_state_scheme, unit) result" where
  "task_create_kernel L s =
     bindR (kmalloc sizeof_task s) (\<lambda>new_task s.
     if new_task = 0 then Inl (Undefined, s)
     else
       let s = wr (task_next_task new_task) (task_list_head s) s;
           s = wr (task_page_directory_phys new_task) (kernel_page_directory s) s
       in bindR (vmm_alloc_page s) (\<lambda>alloc_stack s.
          let s = clear_page alloc_stack s;
              s = wr (task_kernel_stack_base new_task) (alloc_stack + PAGE_SIZE) s;
              s = wr (task_trapframe new_task)
                    (rd (task_kernel_stack_base new_task) s - (sizeof_trapframe - 8)) s;
              s = wr (tf_eip (rd (task_trapframe new_task) s)) (sym_task_test L) s;
              s = wr (tf_eflags (rd (task_trapframe new_task) s)) 0x2 s;
              s = wr (tf_cs (rd (task_trapframe new_task) s)) GDT_KERNEL_CODE_SEG s;
              s = wr (tf_ds (rd (task_trapframe new_task) s)) GDT_KERNEL_DATA_SEG s
          in Inr ((), task_append new_task s)))"

definition task_create_user :: "symbols \<Rightarrow> 'a task_state_scheme \<Rightarrow> ('a task_state_scheme, unit) result" where
  "task_create_user L s =
     bindR (kmalloc sizeof_task s) (\<lambda>new_task s.
     if new_task = 0 then Inl (Undefined, s)
     else
       let s = s\<lparr>mem := (mem s)(task_is_user new_task := 1)\<rparr>;
           s = wr (task_next_task new_task) (task_list_head s) s
       in bindR (vmm_alloc_page s) (\<lambda>page s.
          let s = wr (task_kernel_stack_base new_task) (page + PAGE_SIZE) s;
              s = clear_page (rd (task_kernel_stack_base new_task) s - PAGE_SIZE) s;
              s = wr (task_trapframe new_task)
                    (rd (task_kernel_stack_base new_task) s - sizeof_trapframe) s;
              s = wr (tf_eip (rd (task_trapframe new_task) s)) (sym_task_userspace L) s;
              s = wr (tf_eflags (rd (task_trapframe new_task) s)) 0x2 s;
              s = wr (tf_cs (rd (task_trapframe new_task) s)) GDT_USER_CODE_SEG s;
              s = wr (tf_ds (rd (task_trapframe new_task) s)) GDT_USER_DATA_SEG s;
              s = wr (tf_ss (rd (task_trapframe new_task) s)) GDT_USER_DATA_SEG s;
              s = wr (tf_esp (rd (task_trapframe new_task) s)) KERNEL_VIRT_BASE s
          in Inr ((), task_append new_task s)))"

text \<open>
  \<^verbatim>\<open>task_switch_asm\<close>: the stack pointer is set to the trap frame of the next task, the saved registers
  are popped, the interrupt flag is set in the saved flags, and \<^verbatim>\<open>iret\<close> pops instruction pointer, code
  segment and flags, and on a return to ring 3 also the stack.
\<close>

definition iret :: "u32 \<Rightarrow> cpu_regs \<Rightarrow> 'a machine_scheme \<Rightarrow> cpu_regs" where
  "iret esp r s =
     (let r = r\<lparr>r_eip := rd esp s, r_cs := rd (esp + 4) s, r_eflags := rd (esp + 8) s\<rparr>
      in if r_cs r AND 3 = 3 then r\<lparr>r_esp := rd (esp + 12) s, r_ss := rd (esp + 16) s\<rparr>
         else r\<lparr>r_esp := esp + 12\<rparr>)"

definition task_switch_asm :: "u32 \<Rightarrow> 'a task_state_scheme \<Rightarrow> 'a task_state_scheme" where
  "task_switch_asm next_task s =
     (let s = cli s;
          s = s\<lparr>current_task := next_task\<rparr>;
          esp = rd (task_trapframe next_task) s;
          r = (cpu s)\<lparr>r_ds := rd esp s, r_edi := rd (esp + 4) s, r_esi := rd (esp + 8) s,
                r_ebp := rd (esp + 12) s, r_ebx := rd (esp + 20) s, r_edx := rd (esp + 24) s,
                r_ecx := rd (esp + 28) s, r_eax := rd (esp + 32) s\<rparr>;
          esp = esp + 4 + 32 + 8;
          s = wr (esp + 8) (rd (esp + 8) s OR 0x200) s;
          r = iret esp r s
      in s\<lparr>cpu := r, int_flag := bit (r_eflags r) 9\<rparr>)"

definition scheduler_init :: "'a task_state_scheme \<Rightarrow> 'a task_state_scheme" where
  "scheduler_init s = s\<lparr>scheduler_initialized := True\<rparr>"

definition scheduler :: "'a task_state_scheme \<Rightarrow> control \<times> 'a task_state_scheme" where
  "scheduler s =
     (if \<not> scheduler_initialized s then (Return, s)
      else if current_task s = 0 \<or> rd (task_next_task (current_task s)) s = 0 then (Return, s)
      else
        let next_task = rd (task_next_task (current_task s)) s;
            s = (if mem s (task_is_user next_task) \<noteq> 0
                 then gdt_update_tss (rd (task_kernel_stack_base next_task) s) s else s)
        in (Resume, task_switch_asm (rd (task_next_task (current_task s)) s) s))"

section \<open>The ring of tasks\<close>

definition task_ring :: "u32 list \<Rightarrow> 'a task_state_scheme \<Rightarrow> bool" where
  "task_ring ts s \<longleftrightarrow> ts \<noteq> [] \<and> distinct ts \<and> 0 \<notin> set ts \<and>
     (\<forall>i<length ts. rd (task_next_task (ts ! i)) s = ts ! (Suc i mod length ts)) \<and>
     task_list_head s = hd ts \<and> task_list_tail s = last ts"

text \<open>The one word of a trap frame that a switch writes is none of the pointers of the ring.\<close>

definition frames_apart :: "u32 list \<Rightarrow> 'a machine_scheme \<Rightarrow> bool" where
  "frames_apart ts s \<longleftrightarrow> (\<forall>t\<in>set ts. \<forall>u\<in>set ts.
     apart32 (tf_eflags (rd (task_trapframe t) s)) (task_next_task u) \<and>
     apart32 (tf_eflags (rd (task_trapframe t) s)) (task_trapframe u))"

definition schedulable :: "u32 list \<Rightarrow> 'a task_state_scheme \<Rightarrow> bool" where
  "schedulable ts s \<longleftrightarrow> task_ring ts s \<and> frames_apart ts s \<and> scheduler_initialized s"

lemma task_switch_fields:
  "current_task (task_switch_asm t s) = t"
  "task_list_head (task_switch_asm t s) = task_list_head s"
  "task_list_tail (task_switch_asm t s) = task_list_tail s"
  "scheduler_initialized (task_switch_asm t s) = scheduler_initialized s"
  "tss_region (task_switch_asm t s) = tss_region s"
  by (simp_all add: task_switch_asm_def Let_def cli_def wr_def)

lemma rd_task_updates [simp]:
  "rd a (s\<lparr>current_task := x\<rparr>) = rd a s" "rd a (s\<lparr>cpu := r\<rparr>) = rd a s"
  "rd a (s\<lparr>int_flag := b\<rparr>) = rd a s" "rd a (cli s) = rd a s" "rd a (s\<lparr>task_list_tail := x\<rparr>) = rd a s"
  "rd a (gdt_update_tss k s) = rd a s"
  by (simp_all add: rd_def cli_def gdt_update_tss_def)

lemma mem_task_switch:
  "mem (task_switch_asm t s) = mem (wr (tf_eflags (rd (task_trapframe t) s))
     (rd (tf_eflags (rd (task_trapframe t) s)) s OR 0x200) s)"
  by (simp add: task_switch_asm_def Let_def tf_eflags_def wr_def rd_def cli_def add.commute)

lemma rd_task_switch:
  assumes "apart32 (tf_eflags (rd (task_trapframe t) s)) a"
  shows "rd a (task_switch_asm t s) = rd a s"
  using rd_wr_apart [OF assms, of _ s] by (simp add: rd_def mem_task_switch)

lemma iret_eflags: "r_eflags (iret esp r s) = rd (esp + 8) s"
  by (simp add: iret_def Let_def)

lemma task_switch_interrupts: "int_flag (task_switch_asm t s)"
proof -
  have "(0x200 :: u32) = push_bit 9 1" by simp
  then have "bit (w OR 0x200) 9" for w :: u32 by (simp only: bit_or_iff bit_push_bit_iff) simp
  then show ?thesis by (simp add: task_switch_asm_def Let_def iret_eflags)
qed

text \<open>The registers of a saved context, as they stand in its frame, and what a return loads from it.\<close>

definition user_mode :: "cpu_regs \<Rightarrow> bool" where
  "user_mode r \<longleftrightarrow> r_cs r AND 3 = 3"

text \<open>The words of a frame: the processor pushes the old stack only when the privilege level changes.\<close>

definition frame_size :: "cpu_regs \<Rightarrow> nat" where
  "frame_size r = (if user_mode r then 16 else 14)"

definition frame_saved :: "u32 \<Rightarrow> u32 \<Rightarrow> cpu_regs \<Rightarrow> 'a machine_scheme \<Rightarrow> bool" where
  "frame_saved tf n r s \<longleftrightarrow> rd tf s = r_ds r \<and> rd (tf + 4) s = r_edi r \<and> rd (tf + 8) s = r_esi r \<and>
     rd (tf + 12) s = r_ebp r \<and> rd (tf + 20) s = r_ebx r \<and> rd (tf + 24) s = r_edx r \<and>
     rd (tf + 28) s = r_ecx r \<and> rd (tf + 32) s = r_eax r \<and> rd (tf + 36) s = n \<and> rd (tf + 44) s = r_eip r \<and>
     rd (tf + 48) s = r_cs r \<and> rd (tf + 52) s = r_eflags r \<and>
     (user_mode r \<longrightarrow> rd (tf + 56) s = r_esp r \<and> rd (tf + 60) s = r_ss r)"

lemma frame_saved_cong:
  assumes "frame_saved tf n r s" "\<And>i. i < frame_size r \<Longrightarrow> rd (tf + 4 * of_nat i) t = rd (tf + 4 * of_nat i) s"
  shows "frame_saved tf n r t"
  using assms(1) assms(2) [of 0] assms(2) [of 1] assms(2) [of 2] assms(2) [of 3] assms(2) [of 5] assms(2) [of 6]
    assms(2) [of 7] assms(2) [of 8] assms(2) [of 9] assms(2) [of 11] assms(2) [of 12] assms(2) [of 13]
    assms(2) [of 14] assms(2) [of 15]
  by (simp add: frame_saved_def frame_size_def)

text \<open>The registers after leaving the kernel through a frame, with \<open>r0\<close> those before.\<close>

definition resumed :: "u32 \<Rightarrow> cpu_regs \<Rightarrow> cpu_regs \<Rightarrow> cpu_regs" where
  "resumed tf r r0 = r\<lparr>r_esp := if user_mode r then r_esp r else tf + 56,
     r_ss := if user_mode r then r_ss r else r_ss r0\<rparr>"

lemma task_switch_cpu:
  assumes "frame_saved tf n r s" "rd (task_trapframe t) s = tf"
  shows "cpu (task_switch_asm t s) = (resumed tf r (cpu s))\<lparr>r_eflags := r_eflags r OR 0x200\<rparr>"
proof -
  let ?s = "s\<lparr>int_flag := False, current_task := t\<rparr>"
  let ?w = "wr (tf + 52) (rd (tf + 52) s OR 0x200) ?s"
  have "apart32 (tf + 52) (tf + 44)" "apart32 (tf + 52) (tf + 48)" "apart32 (tf + 52) (tf + 56)"
    "apart32 (tf + 52) (tf + 60)"
    by (simp_all add: apart32_def)
  then have "rd (tf + 44) ?w = r_eip r" "rd (tf + 48) ?w = r_cs r"
    "user_mode r \<Longrightarrow> rd (tf + 56) ?w = r_esp r \<and> rd (tf + 60) ?w = r_ss r"
    "rd (tf + 52) ?w = r_eflags r OR 0x200"
    using assms(1) by (simp_all add: rd_wr_apart frame_saved_def)
  then show ?thesis
    using assms
    by (simp add: task_switch_asm_def Let_def cli_def frame_saved_def resumed_def user_mode_def iret_def add.commute)
qed

lemma gdt_update_tss_fields:
  "current_task (gdt_update_tss k s) = current_task s" "task_list_head (gdt_update_tss k s) = task_list_head s"
  "task_list_tail (gdt_update_tss k s) = task_list_tail s"
  "scheduler_initialized (gdt_update_tss k s) = scheduler_initialized s"
  by (simp_all add: gdt_update_tss_def)

lemma ring_next_mem: "task_ring ts s \<Longrightarrow> i < length ts \<Longrightarrow> ts ! (Suc i mod length ts) \<in> set ts"
  by (simp add: task_ring_def)

lemma scheduler_next:
  assumes "schedulable ts s" "i < length ts" "current_task s = ts ! i"
  obtains t where "scheduler s = (Resume, t)" "schedulable ts t"
    "current_task t = ts ! (Suc i mod length ts)" "int_flag t"
    "mem s (task_is_user (current_task t)) \<noteq> 0 \<Longrightarrow>
       tss_esp0 (tss_region t) = rd (task_kernel_stack_base (current_task t)) s"
    "\<And>x. x \<in> set ts \<Longrightarrow> rd (task_trapframe x) t = rd (task_trapframe x) s" "port_out t = port_out s"
    "task_state.more t = task_state.more s"
proof -
  let ?n = "ts ! (Suc i mod length ts)"
  have ring: "task_ring ts s" and fr: "frames_apart ts s" and init: "scheduler_initialized s"
    using assms(1) by (simp_all add: schedulable_def)
  have nx: "rd (task_next_task (ts ! i)) s = ?n" "0 \<notin> set ts" "ts ! i \<in> set ts" "?n \<in> set ts"
    using ring assms(2) by (simp_all add: task_ring_def)
  then have nz: "ts ! i \<noteq> 0" "?n \<noteq> 0" by metis+
  define u where "u = (if mem s (task_is_user ?n) \<noteq> 0
    then gdt_update_tss (rd (task_kernel_stack_base ?n) s) s else s)"
  have u: "rd a u = rd a s" "current_task u = current_task s" "task_list_head u = task_list_head s"
    "task_list_tail u = task_list_tail s" "scheduler_initialized u = scheduler_initialized s" for a
    by (simp_all add: u_def gdt_update_tss_fields)
  let ?t = "task_switch_asm ?n u"
  have "scheduler s = (Resume, ?t)"
    using init nz nx(1) u by (simp add: scheduler_def Let_def assms(3) u_def [symmetric])
  moreover have keep: "rd (task_next_task x) ?t = rd (task_next_task x) s"
    "rd (task_trapframe x) ?t = rd (task_trapframe x) s" if "x \<in> set ts" for x
    using fr nx(4) that u by (simp_all add: frames_apart_def rd_task_switch)
  then have "schedulable ts ?t"
    using ring fr init u by (simp add: schedulable_def task_ring_def frames_apart_def task_switch_fields)
  moreover have "mem s (task_is_user ?n) \<noteq> 0 \<Longrightarrow> tss_esp0 (tss_region ?t) = rd (task_kernel_stack_base ?n) s"
    by (simp add: task_switch_fields u_def gdt_update_tss_def)
  moreover have "port_out ?t = port_out s" "task_state.more ?t = task_state.more s"
    by (simp_all add: task_switch_asm_def Let_def cli_def wr_def u_def gdt_update_tss_def)
  ultimately show ?thesis
    using that [of ?t] task_switch_interrupts [of ?n u] keep(2) by (simp add: task_switch_fields)
qed

text \<open>The state after a number of timer interrupts, and the tasks that were given the processor.\<close>

primrec schedule :: "nat \<Rightarrow> 'a task_state_scheme \<Rightarrow> 'a task_state_scheme" where
  "schedule 0 s = s"
| "schedule (Suc n) s = snd (scheduler (schedule n s))"

lemma round_robin:
  assumes "schedulable ts s" "i < length ts" "current_task s = ts ! i"
  shows "schedulable ts (schedule n s) \<and> current_task (schedule n s) = ts ! ((i + n) mod length ts)"
proof (induction n)
  case 0
  then show ?case using assms by simp
next
  case (Suc n)
  have "(i + n) mod length ts < length ts" using assms(2) by (intro mod_less_divisor) linarith
  then obtain t where "scheduler (schedule n s) = (Resume, t)" "schedulable ts t"
    "current_task t = ts ! (Suc ((i + n) mod length ts) mod length ts)"
    using Suc by (auto elim: scheduler_next)
  then show ?case by (simp add: mod_Suc_eq)
qed

text \<open>
  C9: the scheduler is fair. On a ring of tasks it always finds another task to resume, with
  interrupts on; after \<open>n\<close> calls the current task is the one \<open>n\<close> places further on in the ring, and the
  ring is intact. So every task runs again after as many calls as there are tasks, and none waits
  longer.
\<close>

theorem scheduler_round_robin:
  assumes "schedulable ts s" "i < length ts" "current_task s = ts ! i"
  shows "schedulable ts (schedule n s) \<and> current_task (schedule n s) = ts ! ((i + n) mod length ts) \<and>
    fst (scheduler (schedule n s)) = Resume \<and> int_flag (schedule (Suc n) s)"
proof -
  note inv = round_robin [OF assms, of n]
  have "(i + n) mod length ts < length ts" using assms(2) by (intro mod_less_divisor) linarith
  with inv obtain t where "scheduler (schedule n s) = (Resume, t)" "int_flag t"
    by (auto elim: scheduler_next)
  with inv show ?thesis by simp
qed

lemma all_less_two: "(\<forall>i<Suc (Suc 0). P i) \<longleftrightarrow> P 0 \<and> P (Suc 0)"
  by (auto simp: less_Suc_eq)

text \<open>Two tasks at 0x1000 and 0x2000 with trap frames at 0x3000 and 0x3100.\<close>

definition example_tasks :: "'a task_state_scheme \<Rightarrow> 'a task_state_scheme" where
  "example_tasks s = (wr 0x1024 0x2000 (wr 0x2024 0x1000 (wr 0x1004 0x3000 (wr 0x2004 0x3100 s))))
     \<lparr>task_list_head := 0x1000, task_list_tail := 0x2000, current_task := 0x1000,
      scheduler_initialized := True\<rparr>"

lemma example_tasks_current: "current_task (example_tasks s) = 0x1000"
  by (simp add: example_tasks_def)

lemma example_tasks_schedulable: "schedulable [0x1000, 0x2000] (example_tasks s)"
proof -
  have "rd a (example_tasks s) = rd a (wr 0x1024 0x2000 (wr 0x2024 0x1000 (wr 0x1004 0x3000 (wr 0x2004 0x3100 s))))"
    for a by (simp add: example_tasks_def rd_def)
  then have "rd 0x1024 (example_tasks s) = 0x2000" "rd 0x2024 (example_tasks s) = 0x1000"
    "rd 0x1004 (example_tasks s) = 0x3000" "rd 0x2004 (example_tasks s) = 0x3100"
    by (simp_all add: rd_wr_apart apart32_def)
  then show ?thesis
    by (simp add: schedulable_def task_ring_def frames_apart_def all_less_two task_next_task_def
        task_trapframe_def tf_eflags_def apart32_def example_tasks_def [of s])
qed

theorem scheduler_round_robin_witness:
  "\<forall>s :: task_state. current_task (schedule 3 (example_tasks s)) = 0x2000 \<and> fst (scheduler (schedule 3 (example_tasks s))) = Resume"
proof
  fix s :: task_state
  show "current_task (schedule 3 (example_tasks s)) = 0x2000 \<and>
      fst (scheduler (schedule 3 (example_tasks s))) = Resume"
    using scheduler_round_robin [OF example_tasks_schedulable [of s], of 0 3]
    by (simp add: example_tasks_current numeral_2_eq_2 [symmetric])
qed

end
