(* ===== verification/TaskCreate.thy ===== *)
theory TaskCreate
  imports Task
begin

text \<open>
  What task creation does to memory: the task structure comes from the kernel heap, the stack from the page
  allocator, and the new task is linked into the ring with a trap frame at the top of its stack from which the
  processor starts the task's function.
\<close>

section \<open>Layout\<close>

text \<open>A task structure at word \<open>k\<close> of a page, and a frame at word \<open>j\<close>.\<close>

lemma task_slots:
  "task_trapframe (slot B k) = slot B (k + 1)" "task_page_directory_phys (slot B k) = slot B (k + 2)"
  "task_pid (slot B k) = slot B (k + 3)" "task_kernel_stack_base (slot B k) = slot B (k + 6)"
  "task_next_task (slot B k) = slot B (k + 9)" "task_is_user (slot B k) = slot B (k + 4)"
  by (simp_all add: slot_def task_trapframe_def task_page_directory_phys_def task_pid_def
      task_kernel_stack_base_def task_next_task_def task_is_user_def)

lemma frame_slots:
  "tf_ds (slot B j) = slot B j" "tf_eip (slot B j) = slot B (j + 11)" "tf_cs (slot B j) = slot B (j + 12)"
  "tf_eflags (slot B j) = slot B (j + 13)" "tf_esp (slot B j) = slot B (j + 14)" "tf_ss (slot B j) = slot B (j + 15)"
  by (simp_all add: slot_def tf_ds_def tf_eip_def tf_cs_def tf_eflags_def tf_esp_def tf_ss_def)

lemma stack_frames:
  "q + PAGE_SIZE - (sizeof_trapframe - 8) = slot q 1010" "q + PAGE_SIZE - sizeof_trapframe = slot q 1008"
  "q + PAGE_SIZE - PAGE_SIZE = q"
  by (simp_all add: slot_def PAGE_SIZE_def sizeof_trapframe_def)

section \<open>The heap with tasks in it\<close>

text \<open>The free block of the heap has \<open>m\<close> words; the tasks stand above it in the same page, at the words \<open>ks\<close>.\<close>

definition task_heap :: "u32 \<Rightarrow> nat \<Rightarrow> nat list \<Rightarrow> 'a task_state_scheme \<Rightarrow> bool" where
  "task_heap B m ks s \<longleftrightarrow> boot_heap B m s \<and> (\<forall>k\<in>set ks. m + 2 \<le> k \<and> k + 10 \<le> 986) \<and>
     sorted_wrt (\<lambda>a b. b + 10 \<le> a) ks \<and> task_ring (map (slot B) ks) s"

lemma boot_heap_pages:
  assumes "boot_heap B m s"
  shows "page_aligned B" "m \<le> 984" "vmm_ready s" "vmm_block_list_head s = slot B 986"
    "page_aligned (rd (page_table (slot B 986)) s)" "rd (page_table (slot B 986)) s \<noteq> B"
    "q \<in> vmm_free_set s \<Longrightarrow> page_aligned q \<and> q \<noteq> B \<and> q \<noteq> rd (page_table (slot B 986)) s"
proof -
  show b: "page_aligned B" "m \<le> 984" "vmm_ready s" "vmm_block_list_head s = slot B 986"
    using assms by (simp_all add: boot_heap_def)
  let ?pt = "rd (page_table (slot B 986)) s"
  have a: "page_aligned ?pt" "\<forall>i<37. \<forall>j<1024. slot (slot B 986) i \<noteq> slot ?pt j"
    using b(3,4) by (simp_all add: vmm_ready_def Let_def)
  then show "page_aligned ?pt" by simp
  have "slot (slot B 986) 0 \<noteq> slot ?pt 986" using a(2) by simp
  then show "?pt \<noteq> B" by (auto simp: slot_slot)
  show "q \<in> vmm_free_set s \<Longrightarrow> page_aligned q \<and> q \<noteq> B \<and> q \<noteq> ?pt"
    using assms vmm_free_set_page(1) by (auto simp: boot_heap_def)
qed

text \<open>Words that may be written without disturbing heap and page allocator.\<close>

definition outside_heap :: "u32 \<Rightarrow> u32 \<Rightarrow> nat \<Rightarrow> 'a vmm_state_scheme \<Rightarrow> bool" where
  "outside_heap B q j s \<longleftrightarrow> page_aligned q \<and> j < 1024 \<and> q \<noteq> rd (page_table (slot B 986)) s \<and>
     (q = B \<longrightarrow> 2 \<le> j \<and> j < 986)"

lemma boot_heap_keep:
  assumes "boot_heap B m s"
    "block_list_head t = block_list_head s \<and> vmm_block_list_head t = vmm_block_list_head s"
    "\<And>q j. page_aligned q \<Longrightarrow> j < 1024 \<Longrightarrow> \<not> outside_heap B q j s \<Longrightarrow> rd (slot q j) t = rd (slot q j) s"
  shows "boot_heap B m t" "vmm_free_set t = vmm_free_set s" "outside_heap B q j t = outside_heap B q j s"
proof -
  note p = boot_heap_pages [OF assms(1)]
  let ?pt = "rd (page_table (slot B 986)) s"
  have hd: "block_list_head t = block_list_head s" "vmm_block_list_head t = vmm_block_list_head s"
    using assms(2) by simp_all
  have low: "rd (slot B i) t = rd (slot B i) s" if "i < 1024" "i \<in> {0, 1} \<or> 986 \<le> i" for i
    using assms(3) [OF p(1) that(1)] that(2) by (auto simp: outside_heap_def)
  have tab: "rd (slot ?pt j) t = rd (slot ?pt j) s" if "j < 1024" for j
    using assms(3) [OF p(5) that] by (simp add: outside_heap_def)
  show "boot_heap B m t" "vmm_free_set t = vmm_free_set s"
    using boot_heap_cong [OF assms(1) hd low tab] by simp_all
  have "rd (page_table (slot B 986)) t = ?pt" using low [of 1021] by (simp add: desc_fields slot_slot)
  then show "outside_heap B q j t = outside_heap B q j s" by (simp add: outside_heap_def)
qed

lemma boot_heap_wr:
  assumes "boot_heap B m s" "outside_heap B q j s"
  shows "boot_heap B m (wr (slot q j) v s)" "vmm_free_set (wr (slot q j) v s) = vmm_free_set s"
    "outside_heap B p i (wr (slot q j) v s) = outside_heap B p i s"
proof -
  let ?t = "wr (slot q j) v s"
  have m: "block_list_head ?t = block_list_head s \<and> vmm_block_list_head ?t = vmm_block_list_head s"
    by (simp add: wr_def)
  have k: "rd (slot p i) (wr (slot q j) v s) = rd (slot p i) s"
    if "page_aligned p" "i < 1024" "\<not> outside_heap B p i s" for p i
    using assms(2) that by (auto simp: rd_slot_wr outside_heap_def)
  show "boot_heap B m (wr (slot q j) v s)" "vmm_free_set (wr (slot q j) v s) = vmm_free_set s"
    "outside_heap B p i (wr (slot q j) v s) = outside_heap B p i s"
    by (rule boot_heap_keep [OF assms(1) m k]; assumption)+
qed

lemma boot_heap_clear:
  assumes "boot_heap B m s" "page_aligned q" "q \<noteq> B" "q \<noteq> rd (page_table (slot B 986)) s"
  shows "boot_heap B m (clear_page q s)" "vmm_free_set (clear_page q s) = vmm_free_set s"
    "outside_heap B p i (clear_page q s) = outside_heap B p i s"
proof -
  let ?t = "clear_page q s"
  have m: "block_list_head ?t = block_list_head s \<and> vmm_block_list_head ?t = vmm_block_list_head s"
    by (simp add: clear_page_def)
  have k: "rd (slot p i) (clear_page q s) = rd (slot p i) s"
    if "page_aligned p" "i < 1024" "\<not> outside_heap B p i s" for p i
    using assms(2-4) that by (auto simp: rd_slot_clear_page outside_heap_def)
  show "boot_heap B m (clear_page q s)" "vmm_free_set (clear_page q s) = vmm_free_set s"
    "outside_heap B p i (clear_page q s) = outside_heap B p i s"
    by (rule boot_heap_keep [OF assms(1) m k]; assumption)+
qed

section \<open>The two allocations\<close>

lemma kmalloc_task:
  assumes "boot_heap B m s" "20 \<le> m"
  obtains t where "kmalloc sizeof_task s = Inr (slot B (m - 10), t)" "boot_heap B (m - 12) t"
    "vmm_free_set t = vmm_free_set s" "\<exists>mm. t = s\<lparr>mem := mm\<rparr>" "slot B (m - 10) \<noteq> 0"
    "\<And>q j. page_aligned q \<Longrightarrow> j < 1024 \<Longrightarrow> q \<noteq> B \<or> j \<notin> {0, m - 12, m - 11, m - 10} \<Longrightarrow>
      rd (slot q j) t = rd (slot q j) s"
    "\<And>p i. outside_heap B p i t = outside_heap B p i s"
proof -
  note p = boot_heap_pages [OF assms(1)]
  let ?pt = "rd (page_table (slot B 986)) s"
  have h: "heap [(B, of_nat (4 * m))] s" "m \<le> 1024" using assms(1) p(2) by (simp_all add: boot_heap_def)
  have sz: "0 < sizeof_task" "unat sizeof_task \<le> 2 ^ 32 - 8" "(unat sizeof_task + 7) div 8 * 8 = 4 * 10"
    by (simp_all add: sizeof_task_def)
  obtain t where t: "kmalloc sizeof_task s = Inr (slot B (m - 10), t)"
    "heap [(B, of_nat (4 * (m - 10 - 2)))] t" "\<exists>mm. t = s\<lparr>mem := mm\<rparr>"
    "\<And>q j. page_aligned q \<Longrightarrow> j < 1024 \<Longrightarrow> q \<noteq> B \<or> j \<notin> {0, m - 10 - 2, m - 10 - 1, m - 10} \<Longrightarrow>
      rd (slot q j) t = rd (slot q j) s"
    by (rule kmalloc_from_page [OF h(1) p(1) h(2) sz]) (use assms(2) in simp, blast)
  have keep: "rd (slot q j) t = rd (slot q j) s"
    if "page_aligned q" "j < 1024" "q \<noteq> B \<or> j \<notin> {0, m - 12, m - 11, m - 10}" for q j
    using t(4) that by simp
  have hd: "vmm_block_list_head t = vmm_block_list_head s" using t(3) by auto
  have d: "rd (slot (slot B 986) i) t = rd (slot (slot B 986) i) s" if "i < 37" for i
  proof -
    have "986 + i \<notin> {0, m - 12, m - 11, m - 10}" using p(2) by auto
    then show ?thesis using keep [of B "986 + i"] p(1) that by (simp add: slot_slot)
  qed
  have tab: "rd (slot ?pt j) t = rd (slot ?pt j) s" if "j < 1024" for j
    using keep [of ?pt j] p(5,6) that by simp
  note c = vmm_ready_cong [OF p(3) hd, unfolded p(4), OF d tab]
  have pt: "rd (page_table (slot B 986)) t = ?pt" using d [of 35] by (simp add: desc_fields)
  have "boot_heap B (m - 12) t"
    using assms t(2) c(1,2) hd p by (simp add: boot_heap_def pt)
  moreover have "slot B (m - 10) \<noteq> 0"
  proof
    assume "slot B (m - 10) = 0"
    then have "unat (slot B (m - 10)) = 0" by simp
    moreover have "m - 10 < 1024" using p(2) by simp
    ultimately show False using unat_slot [OF p(1), of "m - 10"] assms(2) by simp
  qed
  ultimately show ?thesis
    using t(1,3) c(2) keep pt by (intro that [of t]) (simp_all add: outside_heap_def)
qed

lemma vmm_task_stack:
  assumes "boot_heap B m s" "vmm_free_set s \<noteq> {}"
  obtains q t where "vmm_alloc_page s = Inr (q, t)" "q \<in> vmm_free_set s" "boot_heap B m t"
    "vmm_free_set t = vmm_free_set s - {q}" "\<exists>mm. t = s\<lparr>mem := mm\<rparr>"
    "\<And>p j. page_aligned p \<Longrightarrow> j < 1024 \<Longrightarrow> p \<noteq> B \<or> j \<notin> {986..<1020} \<Longrightarrow> rd (slot p j) t = rd (slot p j) s"
    "rd (page_table (slot B 986)) t = rd (page_table (slot B 986)) s" "\<forall>p\<in>vmm_free_set s. unat q \<le> unat p"
proof -
  note p = boot_heap_pages [OF assms(1)]
  obtain q t where t: "vmm_alloc_page s = Inr (q, t)" "q \<in> vmm_free_set s" "vmm_ready t"
    "vmm_free_set t = vmm_free_set s - {q}" "\<exists>m. t = s\<lparr>mem := m\<rparr>"
    "\<And>x. aligned4 x \<Longrightarrow> x \<notin> slot (vmm_block_list_head s) ` {..<34} \<Longrightarrow> rd x t = rd x s"
    "\<forall>p\<in>vmm_free_set s. unat q \<le> unat p"
    by (rule vmm_take_page [OF p(3) assms(2)]) (rule that)
  have keep: "rd (slot r j) t = rd (slot r j) s" if "page_aligned r" "j < 1024" "r \<noteq> B \<or> j \<notin> {986..<1020}" for r j
  proof (rule t(6) [OF aligned4_slot [OF that(1,2)]])
    show "slot r j \<notin> slot (vmm_block_list_head s) ` {..<34}"
      using that p(1) by (auto simp: p(4) slot_slot slot_eq_iff)
  qed
  have "block_list_head t = block_list_head s" "vmm_block_list_head t = vmm_block_list_head s" using t(5) by auto
  moreover have pt: "rd (page_table (slot B 986)) t = rd (page_table (slot B 986)) s"
    using keep [of B 1021] p(1) by (simp add: desc_fields slot_slot)
  ultimately have "boot_heap B m t"
    using assms(1) t(3,4) keep [of B 0] keep [of B 1] p(1) by (simp add: boot_heap_def heap_single)
  then show ?thesis using t(1,2,4,5,7) pt keep by (intro that [of q t])
qed

section \<open>Linking into the ring\<close>

lemma task_ring_heap:
  assumes "page_aligned B" "task_ring (map (slot B) ks) s" "\<forall>k\<in>set ks. k + 10 \<le> 986"
  shows "ks \<noteq> []" "distinct ks" "task_list_tail s = slot B (last ks)" "task_list_head s = slot B (hd ks)"
    "task_list_tail s \<noteq> 0" "last ks \<in> set ks"
  using assms by (auto simp: task_ring_def last_map hd_map distinct_map)

text \<open>
  \<^verbatim>\<open>task_append\<close> closes the ring through the new task, when the task points to the head already, and
  numbers it.
\<close>

lemma task_append_ring:
  assumes "page_aligned B" "task_ring (map (slot B) ks) s" "\<forall>k\<in>set ks. n + 10 \<le> k \<and> k + 10 \<le> 986" "n \<noteq> 0"
    "slot B n \<noteq> 0" "rd (task_next_task (slot B n)) s = task_list_head s"
  defines "t \<equiv> task_append (slot B n) s"
  shows "task_ring (map (slot B) (ks @ [n])) t"
    "rd (task_pid (slot B n)) t = rd (task_pid (slot B (last ks))) s + 1"
    "\<And>q j. page_aligned q \<Longrightarrow> j < 1024 \<Longrightarrow> q \<noteq> B \<or> j \<notin> {n + 3, last ks + 9} \<Longrightarrow> rd (slot q j) t = rd (slot q j) s"
    "\<exists>m. t = s\<lparr>mem := m, task_list_tail := slot B n\<rparr>"
proof -
  note r = task_ring_heap [OF assms(1,2)]
  have l: "last ks \<in> set ks" "ks \<noteq> []" "distinct ks" "task_list_tail s = slot B (last ks)" "task_list_tail s \<noteq> 0"
    "task_list_head s = slot B (hd ks)"
    using r assms(3) by blast+
  have b: "n + 10 \<le> last ks" "last ks + 10 \<le> 986" using assms(3) l(1) by auto
  have t: "t = (wr (slot B (last ks + 9)) (slot B n)
      (wr (slot B (n + 3)) (rd (slot B (last ks + 3)) s + 1) s))\<lparr>task_list_tail := slot B n\<rparr>"
    using l(4,5) task_slots [of B "last ks"] task_slots [of B n]
    by (simp add: t_def task_append_def Let_def) (simp add: wr_def)
  have rt: "rd (slot q j) t = (if q = B \<and> j = last ks + 9 then slot B n
      else if q = B \<and> j = n + 3 then rd (slot B (last ks + 3)) s + 1 else rd (slot q j) s)"
    if "page_aligned q" "j < 1024" for q j
    using that assms(1) b by (auto simp: t rd_slot_wr)
  show "rd (task_pid (slot B n)) t = rd (task_pid (slot B (last ks))) s + 1"
    using b assms(1) by (simp add: task_slots rt)
  show "\<And>q j. page_aligned q \<Longrightarrow> j < 1024 \<Longrightarrow> q \<noteq> B \<or> j \<notin> {n + 3, last ks + 9} \<Longrightarrow> rd (slot q j) t = rd (slot q j) s"
    by (auto simp: rt)
  show "\<exists>m. t = s\<lparr>mem := m, task_list_tail := slot B n\<rparr>" by (auto simp: t wr_def)
  show "task_ring (map (slot B) (ks @ [n])) t"
    unfolding task_ring_def
  proof (intro conjI)
    have inj: "inj_on (slot B) (set (ks @ [n]))"
    proof (rule inj_onI)
      fix x y assume "x \<in> set (ks @ [n])" "y \<in> set (ks @ [n])" "slot B x = slot B y"
      moreover from this have "x < 1024" "y < 1024" using assms(3) b by auto
      ultimately show "x = y" using assms(1) by (simp add: slot_eq_iff)
    qed
    have n: "n \<notin> set ks" using assms(3) by auto
    then show "distinct (map (slot B) (ks @ [n]))" using l(3) inj by (simp add: distinct_map)
    show "map (slot B) (ks @ [n]) \<noteq> []" by simp
    show "0 \<notin> set (map (slot B) (ks @ [n]))" using assms(2,5) by (auto simp: task_ring_def)
    show "task_list_head t = hd (map (slot B) (ks @ [n]))" using l(2,6) by (simp add: t wr_def hd_map)
    show "task_list_tail t = last (map (slot B) (ks @ [n]))" by (simp add: t wr_def)
    show "\<forall>i<length (map (slot B) (ks @ [n])). rd (task_next_task (map (slot B) (ks @ [n]) ! i)) t =
        map (slot B) (ks @ [n]) ! (Suc i mod length (map (slot B) (ks @ [n])))"
    proof (intro allI impI)
      fix i assume i: "i < length (map (slot B) (ks @ [n]))"
      consider "i = length ks" | "i + 1 = length ks" | "i + 1 < length ks" using i by fastforce
      then show "rd (task_next_task (map (slot B) (ks @ [n]) ! i)) t =
          map (slot B) (ks @ [n]) ! (Suc i mod length (map (slot B) (ks @ [n])))"
      proof cases
        case 1
        then show ?thesis
          using l(2,6) assms(6) b assms(1)
          by (simp add: nth_append task_slots rt hd_conv_nth)
      next
        case 2
        then have "i = length ks - 1" by simp
        then have "ks ! i = last ks" using l(2) by (simp add: last_conv_nth)
        then show ?thesis using 2 b assms(1) by (simp add: nth_append task_slots rt)
      next
        case 3
        then have k: "ks ! i \<in> set ks" "ks ! i \<noteq> last ks"
          using l(2,3) by (auto simp: last_conv_nth nth_eq_iff_index_eq)
        have "rd (task_next_task (slot B (ks ! i))) t = rd (task_next_task (slot B (ks ! i))) s"
          using k b assms(1,3) by (auto simp: task_slots rt)
        also have "\<dots> = slot B (ks ! Suc i)" using assms(2) 3 by (simp add: task_ring_def)
        finally show ?thesis using 3 by (simp add: nth_append)
      qed
    qed
  qed
qed

text \<open>
  From the state after the two allocations (\<open>s\<close>) to the state with the new task filled in (\<open>u\<close>) only its
  ten words and its stack page \<open>q\<close> change; then linking it gives the heap with one more task.
\<close>

lemma task_linked:
  assumes "boot_heap B m s" "task_ring (map (slot B) ks) s"
    "\<forall>k\<in>set ks. n + 10 \<le> k \<and> k + 10 \<le> 986" "n = m + 2" "slot B n \<noteq> 0"
    "page_aligned q" "q \<noteq> B" "q \<noteq> rd (page_table (slot B 986)) s"
    "\<forall>p j. page_aligned p \<longrightarrow> j < 1024 \<longrightarrow> p \<noteq> q \<longrightarrow> p \<noteq> B \<or> j \<notin> {n..<n + 10} \<longrightarrow>
      rd (slot p j) u = rd (slot p j) s"
    "rd (slot B (n + 9)) u = task_list_head s" "\<exists>mm. u = s\<lparr>mem := mm\<rparr>"
    "sorted_wrt (\<lambda>a b. b + 10 \<le> a) ks"
  defines "t \<equiv> task_append (slot B n) u"
  shows "task_heap B m (ks @ [n]) t" "vmm_free_set t = vmm_free_set s"
    "rd (task_pid (slot B n)) t = rd (task_pid (slot B (last ks))) s + 1"
    "\<And>j. j < 1024 \<Longrightarrow> rd (slot q j) t = rd (slot q j) u"
    "\<And>j. j < 10 \<Longrightarrow> j \<noteq> 3 \<Longrightarrow> rd (slot B (n + j)) t = rd (slot B (n + j)) u"
    "\<exists>mm. t = s\<lparr>mem := mm, task_list_tail := slot B n\<rparr>"
    "\<And>k i. k \<in> set ks \<Longrightarrow> i < 9 \<Longrightarrow> rd (slot B (k + i)) t = rd (slot B (k + i)) s"
    "\<And>x j. page_aligned x \<Longrightarrow> j < 1024 \<Longrightarrow> x \<noteq> q \<Longrightarrow> x \<noteq> B \<or> 1020 \<le> j \<Longrightarrow> rd (slot x j) t = rd (slot x j) s"
proof -
  note p = boot_heap_pages [OF assms(1)]
  note r = task_ring_heap [OF p(1) assms(2)]
  have lk: "last ks \<in> set ks" "ks \<noteq> []" using r assms(3) by blast+
  then have b: "n + 10 \<le> last ks" "last ks + 10 \<le> 986" using assms(3) by auto
  have old: "rd (slot B (k + i)) u = rd (slot B (k + i)) s" if "k \<in> set ks" "i < 10" for k i
  proof (rule assms(9) [rule_format, OF p(1)])
    have "n + 10 \<le> k" "k + 10 \<le> 986" using assms(3) that(1) by auto
    then show "k + i < 1024" "B \<noteq> B \<or> k + i \<notin> {n..<n + 10}" using that(2) by auto
  qed (use assms(7) in auto)
  have nxt: "rd (task_next_task (map (slot B) ks ! i)) u = rd (task_next_task (map (slot B) ks ! i)) s"
    if "i < length ks" for i
    using old [of "ks ! i" 9] that by (simp add: task_slots)
  have f: "task_list_head u = task_list_head s" "task_list_tail u = task_list_tail s"
    using assms(11) by auto
  have "task_ring (map (slot B) ks) u" using assms(2) nxt f by (simp add: task_ring_def)
  note a = task_append_ring [OF p(1) this assms(3) _ assms(5), folded t_def]
  have n0: "n \<noteq> 0" and h: "rd (task_next_task (slot B n)) u = task_list_head u"
    using assms(4,10) f by (simp_all add: task_slots)
  note a = a [OF n0 h]
  show pid: "rd (task_pid (slot B n)) t = rd (task_pid (slot B (last ks))) s + 1"
    using a(2) old [OF lk(1), of 3] by (simp add: task_slots)
  show "\<And>j. j < 1024 \<Longrightarrow> rd (slot q j) t = rd (slot q j) u" using a(3) assms(6,7) by blast
  show "\<And>j. j < 10 \<Longrightarrow> j \<noteq> 3 \<Longrightarrow> rd (slot B (n + j)) t = rd (slot B (n + j)) u"
    using a(3) [OF p(1)] b by simp
  show "\<exists>mm. t = s\<lparr>mem := mm, task_list_tail := slot B n\<rparr>" using a(4) assms(11) by auto
  show "rd (slot x j) t = rd (slot x j) s" if "page_aligned x" "j < 1024" "x \<noteq> q" "x \<noteq> B \<or> 1020 \<le> j" for x j
  proof -
    have "rd (slot x j) t = rd (slot x j) u" using that b by (intro a(3)) auto
    also have "\<dots> = rd (slot x j) s" using that b by (intro assms(9) [rule_format]) auto
    finally show ?thesis .
  qed
  have hd: "block_list_head t = block_list_head s \<and> vmm_block_list_head t = vmm_block_list_head s"
    using a(4) assms(11) by auto
  have keep: "rd (slot x j) t = rd (slot x j) s" if "page_aligned x" "j < 1024" "\<not> outside_heap B x j s" for x j
  proof -
    have x: "x = B \<longrightarrow> j < 2 \<or> 986 \<le> j" "x \<noteq> q" using that assms(6-8) p(6) by (auto simp: outside_heap_def)
    then have "rd (slot x j) t = rd (slot x j) u" using b assms(4) by (intro a(3) [OF that(1,2)]) auto
    also have "\<dots> = rd (slot x j) s" using x b assms(4) by (intro assms(9) [rule_format, OF that(1,2)]) auto
    finally show ?thesis .
  qed
  show "vmm_free_set t = vmm_free_set s" using boot_heap_keep(2) [OF assms(1) hd keep] .
  have "\<forall>k\<in>set (ks @ [n]). m + 2 \<le> k \<and> k + 10 \<le> 986" using assms(3,4) b by auto
  moreover have "sorted_wrt (\<lambda>a b. b + 10 \<le> a) (ks @ [n])"
    using assms(3,12) by (simp add: sorted_wrt_append)
  ultimately show "task_heap B m (ks @ [n]) t"
    using boot_heap_keep(1) [OF assms(1) hd keep] a(1) by (simp add: task_heap_def)
  show "rd (slot B (k + i)) t = rd (slot B (k + i)) s" if "k \<in> set ks" "i < 9" for k i
  proof -
    have "ks = butlast ks @ [last ks]" using lk(2) by simp
    then have "k = last ks \<or> last ks + 10 \<le> k"
      using assms(12) that(1) by (metis Un_iff empty_iff empty_set insert_iff list.simps(15) set_append sorted_wrt_append)
    moreover have "n + 10 \<le> k" "k + 10 \<le> 986" using assms(3) that(1) by auto
    ultimately have "rd (slot B (k + i)) t = rd (slot B (k + i)) u"
      using that(2) by (intro a(3) [OF p(1)]) auto
    then show ?thesis using old [OF that(1), of i] that(2) by simp
  qed
qed

section \<open>Creating tasks\<close>

text \<open>The state between the two allocations: the head and the page directory may be written before the stack exists.\<close>

lemma task_allocated:
  assumes "task_heap B m ks s" "20 \<le> m" "vmm_free_set s \<noteq> {}" "n = m - 10"
  obtains s1 where "kmalloc sizeof_task s = Inr (slot B n, s1)" "slot B n \<noteq> 0" "boot_heap B (m - 12) s1"
    "vmm_free_set s1 = vmm_free_set s" "\<exists>mm. s1 = s\<lparr>mem := mm\<rparr>"
    "\<And>p i. page_aligned p \<Longrightarrow> i < 1024 \<Longrightarrow> p \<noteq> B \<or> n + 10 \<le> i \<Longrightarrow> rd (slot p i) s1 = rd (slot p i) s"
proof -
  have h: "boot_heap B m s" using assms(1) by (simp add: task_heap_def)
  obtain t where t: "kmalloc sizeof_task s = Inr (slot B (m - 10), t)" "boot_heap B (m - 12) t"
    "vmm_free_set t = vmm_free_set s" "\<exists>mm. t = s\<lparr>mem := mm\<rparr>" "slot B (m - 10) \<noteq> 0"
    "\<And>q j. page_aligned q \<Longrightarrow> j < 1024 \<Longrightarrow> q \<noteq> B \<or> j \<notin> {0, m - 12, m - 11, m - 10} \<Longrightarrow>
      rd (slot q j) t = rd (slot q j) s"
    by (rule kmalloc_task [OF h assms(2)]) blast
  have "rd (slot p i) t = rd (slot p i) s" if "page_aligned p" "i < 1024" "p \<noteq> B \<or> n + 10 \<le> i" for p i
    using that assms(2,4) by (intro t(6)) auto
  then show ?thesis using t(1-5) assms(4) by (intro that [of t]) simp_all
qed

lemma task_stack_allocated:
  assumes "task_heap B m ks s" "20 \<le> m" "vmm_free_set s \<noteq> {}" "n = m - 10"
    "boot_heap B (m - 12) s1" "vmm_free_set s1 = vmm_free_set s" "\<exists>mm. s1 = s\<lparr>mem := mm\<rparr>"
    "\<forall>p i. page_aligned p \<longrightarrow> i < 1024 \<longrightarrow> p \<noteq> B \<or> n + 10 \<le> i \<longrightarrow> rd (slot p i) s1 = rd (slot p i) s"
    "s2 = wr (slot B (n + a)) v (wr (slot B (n + b)) w s1)" "a < 10" "b < 10"
  obtains q s3 where "vmm_alloc_page s2 = Inr (q, s3)" "q \<in> vmm_free_set s" "boot_heap B (m - 12) s3"
    "vmm_free_set s3 = vmm_free_set s - {q}" "\<exists>mm. s3 = s\<lparr>mem := mm\<rparr>" "page_aligned q" "q \<noteq> B"
    "q \<noteq> rd (page_table (slot B 986)) s3"
    "\<And>p j. page_aligned p \<Longrightarrow> j < 1024 \<Longrightarrow> p \<noteq> B \<or> j \<notin> {986..<1020} \<Longrightarrow> rd (slot p j) s3 = rd (slot p j) s2"
    "task_ring (map (slot B) ks) s3" "sorted_wrt (\<lambda>a b. b + 10 \<le> a) ks"
    "\<And>k i. k \<in> set ks \<Longrightarrow> i < 10 \<Longrightarrow> rd (slot B (k + i)) s3 = rd (slot B (k + i)) s"
    "\<And>p j. page_aligned p \<Longrightarrow> j < 1024 \<Longrightarrow> p \<noteq> B \<or> 1020 \<le> j \<Longrightarrow> rd (slot p j) s3 = rd (slot p j) s"
    "\<forall>p\<in>vmm_free_set s. unat q \<le> unat p"
proof -
  note p = boot_heap_pages [OF assms(5)]
  have n: "n + 12 \<le> 986" "2 \<le> n" using assms(1,2,4) by (auto simp: task_heap_def boot_heap_def)
  have o: "outside_heap B B (n + i) s1" if "i < 10" for i
    using that n p(1,6) by (auto simp: outside_heap_def)
  have "boot_heap B (m - 12) s2 \<and> vmm_free_set s2 = vmm_free_set s"
  proof -
    let ?w = "wr (slot B (n + b)) w s1"
    have "boot_heap B (m - 12) ?w" "vmm_free_set ?w = vmm_free_set s1" "outside_heap B B (n + a) ?w"
      using boot_heap_wr [OF assms(5) o [OF assms(11)]] o [OF assms(10)] by simp_all
    then show ?thesis
      using assms(6) boot_heap_wr(1,2) [of B "m - 12" ?w B "n + a"] by (simp add: assms(9))
  qed
  then have s2: "boot_heap B (m - 12) s2" "vmm_free_set s2 = vmm_free_set s" by simp_all
  have s2m: "\<exists>mm. s2 = s\<lparr>mem := mm\<rparr>" using assms(7) by (auto simp: assms(9) wr_def)
  have s2k: "rd (slot p i) s2 = rd (slot p i) s" if "page_aligned p" "i < 1024" "p \<noteq> B \<or> n + 10 \<le> i" for p i
    using assms(8,10,11) that p(1) n(1) by (auto simp: assms(9) rd_slot_wr)
  have ne: "vmm_free_set s2 \<noteq> {}" using assms(3) s2(2) by simp
  obtain q s3 where s3: "vmm_alloc_page s2 = Inr (q, s3)" "q \<in> vmm_free_set s2" "boot_heap B (m - 12) s3"
    "vmm_free_set s3 = vmm_free_set s2 - {q}" "\<exists>mm. s3 = s2\<lparr>mem := mm\<rparr>"
    "\<And>p j. page_aligned p \<Longrightarrow> j < 1024 \<Longrightarrow> p \<noteq> B \<or> j \<notin> {986..<1020} \<Longrightarrow> rd (slot p j) s3 = rd (slot p j) s2"
    "rd (page_table (slot B 986)) s3 = rd (page_table (slot B 986)) s2" "\<forall>p\<in>vmm_free_set s2. unat q \<le> unat p"
    by (rule vmm_task_stack [OF s2(1) ne]) (rule that)
  note p = boot_heap_pages [OF s2(1)]
  have q: "page_aligned q" "q \<noteq> B" "q \<noteq> rd (page_table (slot B 986)) s3"
    using p(7) [OF s3(2)] s3(7) by simp_all
  have ks: "m + 2 \<le> k" "k + 10 \<le> 986" if "k \<in> set ks" for k
    using that assms(1) by (simp_all add: task_heap_def)
  have old: "rd (slot B (k + i)) s3 = rd (slot B (k + i)) s" if "k \<in> set ks" "i < 10" for k i
  proof -
    have k: "k + i < 986" "n + 10 \<le> k + i" using ks [OF that(1)] that(2) assms(2,4) by auto
    then have "rd (slot B (k + i)) s3 = rd (slot B (k + i)) s2" by (intro s3(6) [OF p(1)]) auto
    also have "\<dots> = rd (slot B (k + i)) s" using k by (intro s2k [OF p(1)]) auto
    finally show ?thesis .
  qed
  have far: "rd (slot p j) s3 = rd (slot p j) s" if "page_aligned p" "j < 1024" "p \<noteq> B \<or> 1020 \<le> j" for p j
  proof -
    have "rd (slot p j) s3 = rd (slot p j) s2" using that by (intro s3(6)) auto
    also have "\<dots> = rd (slot p j) s" using that n by (intro s2k) auto
    finally show ?thesis .
  qed
  have f: "task_list_head s3 = task_list_head s" "task_list_tail s3 = task_list_tail s"
    using s3(5) s2m by auto
  have nxt: "rd (task_next_task (map (slot B) ks ! i)) s3 = rd (task_next_task (map (slot B) ks ! i)) s"
    if "i < length ks" for i
    using old [of "ks ! i" 9] that by (simp add: task_slots)
  have "task_ring (map (slot B) ks) s3"
    using assms(1) nxt f by (simp add: task_heap_def task_ring_def)
  moreover have "\<exists>mm. s3 = s\<lparr>mem := mm\<rparr>" using s3(5) s2m by auto
  ultimately show ?thesis
    using s3(1-4,6,8) q old assms(1) s2(2) far by (intro that [of q s3]) (simp_all add: task_heap_def)
qed

lemma ucast_load32: "ucast (load32 m a) = m a"
  by (rule bit_word_eqI) (auto simp: load32_def bit_simps)

lemma bit_u8: "8 \<le> n \<Longrightarrow> \<not> bit (w :: u8) n"
  using bit_imp_le_length by fastforce

lemma store32_load32: "store32 m a (load32 m a) = m"
proof -
  have "ucast (drop_bit 8 (load32 m a)) = m (a + 1)" "ucast (drop_bit 16 (load32 m a)) = m (a + 2)"
    "ucast (drop_bit 24 (load32 m a)) = m (a + 3)"
    by (auto intro!: bit_word_eqI simp: load32_def bit_simps bit_u8)
  then show ?thesis by (simp add: store32_def ucast_load32 fun_upd_idem)
qed

lemma store32_byte: "store32 (m(a := b)) a v = store32 m a v"
  by (auto simp: store32_def)

text \<open>A store of one byte, seen as a store of its word.\<close>

lemma byte_write_wr:
  obtains v where "s\<lparr>mem := (mem s)(a := b)\<rparr> = wr a v s" "ucast v = (b :: u8)"
proof -
  define v where "v = load32 ((mem s)(a := b)) a"
  have "s\<lparr>mem := (mem s)(a := b)\<rparr> = wr a v s"
    using store32_byte [of "mem s" a b v] by (simp add: wr_def v_def store32_load32)
  moreover have "ucast v = b" by (simp add: v_def ucast_load32)
  ultimately show ?thesis by (rule that)
qed

lemma ucast_rd: "ucast (rd a s) = mem s a"
  by (simp add: rd_def ucast_load32)

lemma task_create_kernel_aux:
  assumes "task_heap B m ks s" "20 \<le> m" "vmm_free_set s \<noteq> {}" "n = m - 10"
  obtains q t where "task_create_kernel L s = Inr ((), t)" "q \<in> vmm_free_set s"
    "task_heap B (m - 12) (ks @ [n]) t" "vmm_free_set t = vmm_free_set s - {q}"
    "rd (task_pid (slot B n)) t = rd (task_pid (slot B (last ks))) s + 1"
    "rd (task_trapframe (slot B n)) t = slot q 1010"
    "rd (task_page_directory_phys (slot B n)) t = kernel_page_directory s"
    "rd (task_kernel_stack_base (slot B n)) t = q + PAGE_SIZE"
    "\<And>j. j < 1024 \<Longrightarrow> rd (slot q j) t = (case map_of [(1021, sym_task_test L), (1023, 2),
       (1022, GDT_KERNEL_CODE_SEG), (1010, GDT_KERNEL_DATA_SEG)] j of None \<Rightarrow> 0 | Some v \<Rightarrow> v)"
    "\<exists>mm. t = s\<lparr>mem := mm, task_list_tail := slot B n\<rparr>"
    "\<And>k i. k \<in> set ks \<Longrightarrow> i < 9 \<Longrightarrow> rd (slot B (k + i)) t = rd (slot B (k + i)) s"
    "\<And>x j. page_aligned x \<Longrightarrow> j < 1024 \<Longrightarrow> x \<noteq> q \<Longrightarrow> x \<noteq> B \<or> 1020 \<le> j \<Longrightarrow> rd (slot x j) t = rd (slot x j) s"
    "\<forall>p\<in>vmm_free_set s. unat q \<le> unat p"
proof -
  obtain s1 where s1: "kmalloc sizeof_task s = Inr (slot B n, s1)" "slot B n \<noteq> 0" "boot_heap B (m - 12) s1"
    "vmm_free_set s1 = vmm_free_set s" "\<exists>mm. s1 = s\<lparr>mem := mm\<rparr>"
    "\<And>p i. page_aligned p \<Longrightarrow> i < 1024 \<Longrightarrow> p \<noteq> B \<or> n + 10 \<le> i \<Longrightarrow> rd (slot p i) s1 = rd (slot p i) s"
    by (rule task_allocated [OF assms]) blast
  note p = boot_heap_pages [OF s1(3)]
  have m: "m \<le> 984" using assms(1) by (simp add: task_heap_def boot_heap_def)
  have n: "n + 12 \<le> 986" "2 \<le> n" "n = (m - 12) + 2" using m assms(2,4) by auto
  define s2 where "s2 = wr (slot B (n + 2)) (kernel_page_directory s) (wr (slot B (n + 9)) (task_list_head s) s1)"
  obtain q s3 where s3: "vmm_alloc_page s2 = Inr (q, s3)" "q \<in> vmm_free_set s" "boot_heap B (m - 12) s3"
    "vmm_free_set s3 = vmm_free_set s - {q}" "\<exists>mm. s3 = s\<lparr>mem := mm\<rparr>" and q: "page_aligned q" "q \<noteq> B"
    "q \<noteq> rd (page_table (slot B 986)) s3"
    and s3k: "\<And>p j. page_aligned p \<Longrightarrow> j < 1024 \<Longrightarrow> p \<noteq> B \<or> j \<notin> {986..<1020} \<Longrightarrow> rd (slot p j) s3 = rd (slot p j) s2"
    and ring: "task_ring (map (slot B) ks) s3" and srt: "sorted_wrt (\<lambda>a b. b + 10 \<le> a) ks"
    and old: "\<And>k i. k \<in> set ks \<Longrightarrow> i < 10 \<Longrightarrow> rd (slot B (k + i)) s3 = rd (slot B (k + i)) s"
    and far: "\<And>p j. page_aligned p \<Longrightarrow> j < 1024 \<Longrightarrow> p \<noteq> B \<or> 1020 \<le> j \<Longrightarrow> rd (slot p j) s3 = rd (slot p j) s"
    and least: "\<forall>p\<in>vmm_free_set s. unat q \<le> unat p"
    by (rule task_stack_allocated [OF assms s1(3-5) _ s2_def]) (use s1(6) in blast, simp, simp, rule that)
  define u where "u = wr (slot q 1010) GDT_KERNEL_DATA_SEG (wr (slot q 1022) GDT_KERNEL_CODE_SEG (wr (slot q 1023) 2
    (wr (slot q 1021) (sym_task_test L) (wr (slot B (n + 1)) (slot q 1010) (wr (slot B (n + 6)) (q + PAGE_SIZE)
      (clear_page q s3))))))"
  define t where "t = task_append (slot B n) u"
  have s2h: "task_list_head s1 = task_list_head s" "kernel_page_directory s1 = kernel_page_directory s"
    "kernel_page_directory (wr (slot B (n + 9)) (task_list_head s) s1) = kernel_page_directory s"
    using s1(5) by (auto simp: wr_def)
  have call: "task_create_kernel L s = Inr ((), t)"
    using s1(1,2) s3(1) q(1,2) p(1) n(1) s2h
    by (simp add: task_create_kernel_def Let_def task_slots frame_slots stack_frames rd_slot_wr
        s2_def [symmetric] u_def t_def del: add_2_eq_Suc')
  have u: "rd (slot x j) u = rd (slot x j) s3"
    if "page_aligned x" "j < 1024" "x \<noteq> q" "x \<noteq> B \<or> j \<notin> {n + 1, n + 6}" for x j
    using that q(1,2) p(1) n(1) by (auto simp: u_def rd_slot_wr rd_slot_clear_page)
  have ks: "\<forall>k\<in>set ks. n + 10 \<le> k \<and> k + 10 \<le> 986"
    using assms(1,2,4) by (auto simp: task_heap_def)
  have u9: "rd (slot B (n + 9)) u = task_list_head s3"
    using u [of B "n + 9"] s3k [of B "n + 9"] s3(5) q(1,2) p(1) n(1)
    by (auto simp: s2_def rd_slot_wr simp del: add_2_eq_Suc')
  have um: "\<exists>mm. u = s3\<lparr>mem := mm\<rparr>" by (auto simp: u_def wr_def clear_page_def)
  have uf: "\<forall>x j. page_aligned x \<longrightarrow> j < 1024 \<longrightarrow> x \<noteq> q \<longrightarrow> x \<noteq> B \<or> j \<notin> {n..<n + 10} \<longrightarrow>
      rd (slot x j) u = rd (slot x j) s3"
    using u by fastforce
  note l = task_linked [OF s3(3) ring ks n(3) s1(2) q uf u9 um srt, folded t_def]
  have s0: "s3\<lparr>mem := x, task_list_tail := y\<rparr> = s\<lparr>mem := x, task_list_tail := y\<rparr>" for x y
    using s3(5) by auto
  have lk: "last ks \<in> set ks" using task_ring_heap(6) [OF p(1) ring] ks by blast
  have b: "rd (slot B (n + i)) t = rd (slot B (n + i)) u" if "i < 10" "i \<noteq> 3" for i using l(5) that .
  show ?thesis
  proof (rule that [OF call s3(2) l(1) l(2) [unfolded s3(4)]])
    show "rd (task_pid (slot B n)) t = rd (task_pid (slot B (last ks))) s + 1"
      using l(3) old [OF lk, of 3] by (simp add: task_slots)
    show "rd (task_trapframe (slot B n)) t = slot q 1010"
      "rd (task_kernel_stack_base (slot B n)) t = q + PAGE_SIZE"
      "rd (task_page_directory_phys (slot B n)) t = kernel_page_directory s"
      using b [of 1] b [of 2] b [of 6] s3k [of B "n + 2"] q(1,2) p(1) n(1)
      by (simp_all add: task_slots u_def s2_def rd_slot_wr rd_slot_clear_page del: add_2_eq_Suc' One_nat_def add_Suc_right)
    show "rd (slot q j) t = (case map_of [(1021, sym_task_test L), (1023, 2),
       (1022, GDT_KERNEL_CODE_SEG), (1010, GDT_KERNEL_DATA_SEG)] j of None \<Rightarrow> 0 | Some v \<Rightarrow> v)" if "j < 1024" for j
      using l(4) [OF that] that q(1,2) p(1) n(1) by (simp add: u_def rd_slot_wr rd_slot_clear_page)
    show "\<exists>mm. t = s\<lparr>mem := mm, task_list_tail := slot B n\<rparr>" using l(6) by (simp add: s0)
    show "rd (slot B (k + i)) t = rd (slot B (k + i)) s" if "k \<in> set ks" "i < 9" for k i
      using l(7) [OF that] old [OF that(1), of i] that(2) by simp
    show "rd (slot x j) t = rd (slot x j) s" if "page_aligned x" "j < 1024" "x \<noteq> q" "x \<noteq> B \<or> 1020 \<le> j" for x j
      using l(8) [OF that] far [OF that(1,2,4)] by simp
    show "\<forall>p\<in>vmm_free_set s. unat q \<le> unat p" by (rule least)
  qed
qed

lemma task_create_user_aux:
  assumes "task_heap B m ks s" "20 \<le> m" "vmm_free_set s \<noteq> {}" "n = m - 10"
  obtains q t where "task_create_user L s = Inr ((), t)" "q \<in> vmm_free_set s"
    "task_heap B (m - 12) (ks @ [n]) t" "vmm_free_set t = vmm_free_set s - {q}"
    "rd (task_pid (slot B n)) t = rd (task_pid (slot B (last ks))) s + 1"
    "rd (task_trapframe (slot B n)) t = slot q 1008"
    "mem t (task_is_user (slot B n)) = 1"
    "rd (task_kernel_stack_base (slot B n)) t = q + PAGE_SIZE"
    "\<And>j. j < 1024 \<Longrightarrow> rd (slot q j) t = (case map_of [(1019, sym_task_userspace L), (1021, 2),
       (1020, GDT_USER_CODE_SEG), (1008, GDT_USER_DATA_SEG), (1023, GDT_USER_DATA_SEG), (1022, KERNEL_VIRT_BASE)] j of None \<Rightarrow> 0 | Some v \<Rightarrow> v)"
    "\<exists>mm. t = s\<lparr>mem := mm, task_list_tail := slot B n\<rparr>"
    "\<And>k i. k \<in> set ks \<Longrightarrow> i < 9 \<Longrightarrow> rd (slot B (k + i)) t = rd (slot B (k + i)) s"
    "\<And>x j. page_aligned x \<Longrightarrow> j < 1024 \<Longrightarrow> x \<noteq> q \<Longrightarrow> x \<noteq> B \<or> 1020 \<le> j \<Longrightarrow> rd (slot x j) t = rd (slot x j) s"
    "\<forall>p\<in>vmm_free_set s. unat q \<le> unat p"
proof -
  obtain s1 where s1: "kmalloc sizeof_task s = Inr (slot B n, s1)" "slot B n \<noteq> 0" "boot_heap B (m - 12) s1"
    "vmm_free_set s1 = vmm_free_set s" "\<exists>mm. s1 = s\<lparr>mem := mm\<rparr>"
    "\<And>p i. page_aligned p \<Longrightarrow> i < 1024 \<Longrightarrow> p \<noteq> B \<or> n + 10 \<le> i \<Longrightarrow> rd (slot p i) s1 = rd (slot p i) s"
    by (rule task_allocated [OF assms]) blast
  note p = boot_heap_pages [OF s1(3)]
  have m: "m \<le> 984" using assms(1) by (simp add: task_heap_def boot_heap_def)
  have n: "n + 12 \<le> 986" "2 \<le> n" "n = (m - 12) + 2" using m assms(2,4) by auto
  obtain v where v: "s1\<lparr>mem := (mem s1)(slot B (n + 4) := 1)\<rparr> = wr (slot B (n + 4)) v s1" "ucast v = (1 :: u8)"
    by (rule byte_write_wr)
  define s2 where "s2 = wr (slot B (n + 9)) (task_list_head s) (wr (slot B (n + 4)) v s1)"
  obtain q s3 where s3: "vmm_alloc_page s2 = Inr (q, s3)" "q \<in> vmm_free_set s" "boot_heap B (m - 12) s3"
    "vmm_free_set s3 = vmm_free_set s - {q}" "\<exists>mm. s3 = s\<lparr>mem := mm\<rparr>" and q: "page_aligned q" "q \<noteq> B"
    "q \<noteq> rd (page_table (slot B 986)) s3"
    and s3k: "\<And>p j. page_aligned p \<Longrightarrow> j < 1024 \<Longrightarrow> p \<noteq> B \<or> j \<notin> {986..<1020} \<Longrightarrow> rd (slot p j) s3 = rd (slot p j) s2"
    and ring: "task_ring (map (slot B) ks) s3" and srt: "sorted_wrt (\<lambda>a b. b + 10 \<le> a) ks"
    and old: "\<And>k i. k \<in> set ks \<Longrightarrow> i < 10 \<Longrightarrow> rd (slot B (k + i)) s3 = rd (slot B (k + i)) s"
    and far: "\<And>p j. page_aligned p \<Longrightarrow> j < 1024 \<Longrightarrow> p \<noteq> B \<or> 1020 \<le> j \<Longrightarrow> rd (slot p j) s3 = rd (slot p j) s"
    and least: "\<forall>p\<in>vmm_free_set s. unat q \<le> unat p"
    by (rule task_stack_allocated [OF assms s1(3-5) _ s2_def]) (use s1(6) in blast, simp, simp, rule that)
  define u where "u = wr (slot q 1022) KERNEL_VIRT_BASE (wr (slot q 1023) GDT_USER_DATA_SEG
    (wr (slot q 1008) GDT_USER_DATA_SEG (wr (slot q 1020) GDT_USER_CODE_SEG (wr (slot q 1021) 2
    (wr (slot q 1019) (sym_task_userspace L) (wr (slot B (n + 1)) (slot q 1008)
      (clear_page q (wr (slot B (n + 6)) (q + PAGE_SIZE) s3))))))))"
  define t where "t = task_append (slot B n) u"
  have s2h: "task_list_head (wr (slot B (n + 4)) v s1) = task_list_head s" "task_list_head s1 = task_list_head s"
    using s1(5) by (auto simp: wr_def)
  have call: "task_create_user L s = Inr ((), t)"
    using s1(1,2) s3(1) q(1,2) p(1) n(1) s2h v(1)
    by (simp add: task_create_user_def Let_def task_slots frame_slots stack_frames rd_slot_wr rd_slot_clear_page
        s2_def [symmetric] u_def t_def del: add_2_eq_Suc')
  have u: "rd (slot x j) u = rd (slot x j) s3"
    if "page_aligned x" "j < 1024" "x \<noteq> q" "x \<noteq> B \<or> j \<notin> {n + 1, n + 6}" for x j
    using that q(1,2) p(1) n(1) by (auto simp: u_def rd_slot_wr rd_slot_clear_page)
  have ks: "\<forall>k\<in>set ks. n + 10 \<le> k \<and> k + 10 \<le> 986"
    using assms(1,2,4) by (auto simp: task_heap_def)
  have u9: "rd (slot B (n + 9)) u = task_list_head s3"
    using u [of B "n + 9"] s3k [of B "n + 9"] s3(5) q(1,2) p(1) n(1)
    by (auto simp: s2_def rd_slot_wr simp del: add_2_eq_Suc')
  have um: "\<exists>mm. u = s3\<lparr>mem := mm\<rparr>" by (auto simp: u_def wr_def clear_page_def)
  have uf: "\<forall>x j. page_aligned x \<longrightarrow> j < 1024 \<longrightarrow> x \<noteq> q \<longrightarrow> x \<noteq> B \<or> j \<notin> {n..<n + 10} \<longrightarrow>
      rd (slot x j) u = rd (slot x j) s3"
    using u by fastforce
  note l = task_linked [OF s3(3) ring ks n(3) s1(2) q uf u9 um srt, folded t_def]
  have s0: "s3\<lparr>mem := x, task_list_tail := y\<rparr> = s\<lparr>mem := x, task_list_tail := y\<rparr>" for x y
    using s3(5) by auto
  have lk: "last ks \<in> set ks" using task_ring_heap(6) [OF p(1) ring] ks by blast
  have b: "rd (slot B (n + i)) t = rd (slot B (n + i)) u" if "i < 10" "i \<noteq> 3" for i using l(5) that .
  show ?thesis
  proof (rule that [OF call s3(2) l(1) l(2) [unfolded s3(4)]])
    show "rd (task_pid (slot B n)) t = rd (task_pid (slot B (last ks))) s + 1"
      using l(3) old [OF lk, of 3] by (simp add: task_slots)
    show "rd (task_trapframe (slot B n)) t = slot q 1008"
      "rd (task_kernel_stack_base (slot B n)) t = q + PAGE_SIZE"
      using b [of 1] b [of 6] q(1,2) p(1) n(1)
      by (simp_all add: task_slots u_def s2_def rd_slot_wr rd_slot_clear_page del: add_2_eq_Suc' One_nat_def add_Suc_right)
    have "rd (slot B (n + 4)) t = v"
      using b [of 4] s3k [of B "n + 4"] q(1,2) p(1) n(1)
      by (simp add: u_def s2_def rd_slot_wr rd_slot_clear_page)
    then show "mem t (task_is_user (slot B n)) = 1"
      using v(2) ucast_rd [of "slot B (n + 4)" t] by (simp add: task_slots)
    show "rd (slot q j) t = (case map_of [(1019, sym_task_userspace L), (1021, 2),
       (1020, GDT_USER_CODE_SEG), (1008, GDT_USER_DATA_SEG), (1023, GDT_USER_DATA_SEG), (1022, KERNEL_VIRT_BASE)] j of None \<Rightarrow> 0 | Some v \<Rightarrow> v)" if "j < 1024" for j
      using l(4) [OF that] that q(1,2) p(1) n(1) by (simp add: u_def rd_slot_wr rd_slot_clear_page)
    show "\<exists>mm. t = s\<lparr>mem := mm, task_list_tail := slot B n\<rparr>" using l(6) by (simp add: s0)
    show "rd (slot B (k + i)) t = rd (slot B (k + i)) s" if "k \<in> set ks" "i < 9" for k i
      using l(7) [OF that] old [OF that(1), of i] that(2) by simp
    show "rd (slot x j) t = rd (slot x j) s" if "page_aligned x" "j < 1024" "x \<noteq> q" "x \<noteq> B \<or> 1020 \<le> j" for x j
      using l(8) [OF that] far [OF that(1,2,4)] by simp
    show "\<forall>p\<in>vmm_free_set s. unat q \<le> unat p" by (rule least)
  qed
qed

section \<open>Properties\<close>

text \<open>The registers a new task starts with.\<close>

definition kernel_start :: "symbols \<Rightarrow> cpu_regs" where
  "kernel_start L = \<lparr>r_ds = GDT_KERNEL_DATA_SEG, r_edi = 0, r_esi = 0, r_ebp = 0, r_ebx = 0, r_edx = 0, r_ecx = 0,
     r_eax = 0, r_eip = sym_task_test L, r_cs = GDT_KERNEL_CODE_SEG, r_eflags = 2, r_esp = 0, r_ss = 0\<rparr>"

definition user_start :: "symbols \<Rightarrow> cpu_regs" where
  "user_start L = \<lparr>r_ds = GDT_USER_DATA_SEG, r_edi = 0, r_esi = 0, r_ebp = 0, r_ebx = 0, r_edx = 0, r_ecx = 0,
     r_eax = 0, r_eip = sym_task_userspace L, r_cs = GDT_USER_CODE_SEG, r_eflags = 2, r_esp = KERNEL_VIRT_BASE,
     r_ss = GDT_USER_DATA_SEG\<rparr>"

lemma slot_frame_word: "slot q j + 4 * of_nat i = slot q (j + i)"
  by (simp add: slot_def algebra_simps)

lemma frame_saved_slots:
  assumes "rd (slot q j) s = r_ds r" "rd (slot q (j + 1)) s = r_edi r" "rd (slot q (j + 2)) s = r_esi r"
    "rd (slot q (j + 3)) s = r_ebp r" "rd (slot q (j + 5)) s = r_ebx r" "rd (slot q (j + 6)) s = r_edx r"
    "rd (slot q (j + 7)) s = r_ecx r" "rd (slot q (j + 8)) s = r_eax r" "rd (slot q (j + 9)) s = n"
    "rd (slot q (j + 11)) s = r_eip r" "rd (slot q (j + 12)) s = r_cs r" "rd (slot q (j + 13)) s = r_eflags r"
    "user_mode r \<Longrightarrow> rd (slot q (j + 14)) s = r_esp r \<and> rd (slot q (j + 15)) s = r_ss r"
  shows "frame_saved (slot q j) n r s"
proof -
  note sl = slot_frame_word [of q j]
  show ?thesis
    using assms sl [of 1] sl [of 2] sl [of 3] sl [of 5] sl [of 6] sl [of 7] sl [of 8] sl [of 9] sl [of 11] sl [of 12] sl [of 13]
      sl [of 14] sl [of 15] by (simp add: frame_saved_def del: add_2_eq_Suc' One_nat_def add_Suc_right)
qed

lemma start_modes: "\<not> user_mode (kernel_start L)" "user_mode (user_start L)"
  by (simp_all add: user_mode_def kernel_start_def user_start_def GDT_KERNEL_CODE_SEG_def GDT_USER_CODE_SEG_def)

text \<open>The words that creation leaves in the stack of a task are the frame of its start.\<close>

lemma kernel_start_frame:
  assumes "\<And>j. j < 1024 \<Longrightarrow> rd (slot q j) t = (case map_of [(1021, sym_task_test L), (1023, 2),
       (1022, GDT_KERNEL_CODE_SEG), (1010, GDT_KERNEL_DATA_SEG)] j of None \<Rightarrow> 0 | Some v \<Rightarrow> v)"
  shows "frame_saved (slot q 1010) 0 (kernel_start L) t"
  using start_modes(1) [of L] by (intro frame_saved_slots) (simp_all add: assms kernel_start_def)

lemma user_start_frame:
  assumes "\<And>j. j < 1024 \<Longrightarrow> rd (slot q j) t = (case map_of [(1019, sym_task_userspace L), (1021, 2),
       (1020, GDT_USER_CODE_SEG), (1008, GDT_USER_DATA_SEG), (1023, GDT_USER_DATA_SEG), (1022, KERNEL_VIRT_BASE)] j
       of None \<Rightarrow> 0 | Some v \<Rightarrow> v)"
  shows "frame_saved (slot q 1008) 0 (user_start L) t"
  by (intro frame_saved_slots) (simp_all add: assms user_start_def)

text \<open>
  C12: a kernel task is created ready to run. On a heap with tasks in it \<^verbatim>\<open>task_create_kernel\<close> returns; it
  takes the task from the heap and one page \<open>q\<close> from the page allocator for the stack, the ring has the new task at
  its end with the next process number, and the older tasks keep their frames and stacks. The first switch to the task
  enters \<^verbatim>\<open>task_test\<close> in ring 0 with interrupts on and an empty stack ending at the end of its page.
\<close>

theorem task_create_kernel_starts:
  assumes "task_heap B m ks s" "20 \<le> m" "vmm_free_set s \<noteq> {}"
  shows "\<exists>q t. task_create_kernel L s = Inr ((), t) \<and> q \<in> vmm_free_set s \<and> vmm_free_set t = vmm_free_set s - {q} \<and>
    task_heap B (m - 12) (ks @ [m - 10]) t \<and>
    rd (task_pid (slot B (m - 10))) t = rd (task_pid (slot B (last ks))) s + 1 \<and>
    (\<forall>k\<in>set ks. \<forall>i<9. rd (slot B (k + i)) t = rd (slot B (k + i)) s) \<and>
    cpu (task_switch_asm (slot B (m - 10)) t) =
      (kernel_start L)\<lparr>r_eflags := 0x202, r_esp := q + PAGE_SIZE, r_ss := r_ss (cpu s)\<rparr>"
proof -
  obtain q t where t: "task_create_kernel L s = Inr ((), t)" "q \<in> vmm_free_set s"
    "task_heap B (m - 12) (ks @ [m - 10]) t" "vmm_free_set t = vmm_free_set s - {q}"
    "rd (task_pid (slot B (m - 10))) t = rd (task_pid (slot B (last ks))) s + 1"
    "rd (task_trapframe (slot B (m - 10))) t = slot q 1010"
    and w: "\<And>j. j < 1024 \<Longrightarrow> rd (slot q j) t = (case map_of [(1021, sym_task_test L), (1023, 2),
       (1022, GDT_KERNEL_CODE_SEG), (1010, GDT_KERNEL_DATA_SEG)] j of None \<Rightarrow> 0 | Some v \<Rightarrow> v)"
    and m: "\<exists>mm. t = s\<lparr>mem := mm, task_list_tail := slot B (m - 10)\<rparr>"
    and old: "\<And>k i. k \<in> set ks \<Longrightarrow> i < 9 \<Longrightarrow> rd (slot B (k + i)) t = rd (slot B (k + i)) s"
    by (rule task_create_kernel_aux [OF assms refl]) (rule that)
  from task_switch_cpu [OF kernel_start_frame [OF w] t(6)] start_modes(1) [of L] m
  have "cpu (task_switch_asm (slot B (m - 10)) t) =
      (kernel_start L)\<lparr>r_eflags := 0x202, r_esp := q + PAGE_SIZE, r_ss := r_ss (cpu s)\<rparr>"
    by (auto simp: resumed_def kernel_start_def slot_def PAGE_SIZE_def)
  with t(1-5) old show ?thesis by blast
qed

text \<open>
  C13: a user task is created ready to run in ring 3. As for a kernel task, with the task marked as a user task and the
  kernel stack for its interrupts recorded; the first switch enters \<^verbatim>\<open>task_userspace\<close> in ring 3 with the
  user segments, interrupts on and the stack below the kernel's half of the address space.
\<close>

theorem task_create_user_starts:
  assumes "task_heap B m ks s" "20 \<le> m" "vmm_free_set s \<noteq> {}"
  shows "\<exists>q t. task_create_user L s = Inr ((), t) \<and> q \<in> vmm_free_set s \<and> vmm_free_set t = vmm_free_set s - {q} \<and>
    task_heap B (m - 12) (ks @ [m - 10]) t \<and>
    rd (task_pid (slot B (m - 10))) t = rd (task_pid (slot B (last ks))) s + 1 \<and>
    mem t (task_is_user (slot B (m - 10))) = 1 \<and> rd (task_kernel_stack_base (slot B (m - 10))) t = q + PAGE_SIZE \<and>
    (\<forall>k\<in>set ks. \<forall>i<9. rd (slot B (k + i)) t = rd (slot B (k + i)) s) \<and>
    cpu (task_switch_asm (slot B (m - 10)) t) = (user_start L)\<lparr>r_eflags := 0x202\<rparr>"
proof -
  obtain q t where t: "task_create_user L s = Inr ((), t)" "q \<in> vmm_free_set s"
    "task_heap B (m - 12) (ks @ [m - 10]) t" "vmm_free_set t = vmm_free_set s - {q}"
    "rd (task_pid (slot B (m - 10))) t = rd (task_pid (slot B (last ks))) s + 1"
    "rd (task_trapframe (slot B (m - 10))) t = slot q 1008"
    and u: "mem t (task_is_user (slot B (m - 10))) = 1" "rd (task_kernel_stack_base (slot B (m - 10))) t = q + PAGE_SIZE"
    and w: "\<And>j. j < 1024 \<Longrightarrow> rd (slot q j) t = (case map_of [(1019, sym_task_userspace L), (1021, 2),
       (1020, GDT_USER_CODE_SEG), (1008, GDT_USER_DATA_SEG), (1023, GDT_USER_DATA_SEG), (1022, KERNEL_VIRT_BASE)] j
       of None \<Rightarrow> 0 | Some v \<Rightarrow> v)"
    and old: "\<And>k i. k \<in> set ks \<Longrightarrow> i < 9 \<Longrightarrow> rd (slot B (k + i)) t = rd (slot B (k + i)) s"
    by (rule task_create_user_aux [OF assms refl]) (rule that)
  from task_switch_cpu [OF user_start_frame [OF w] t(6)] start_modes(2) [of L]
  have "cpu (task_switch_asm (slot B (m - 10)) t) = (user_start L)\<lparr>r_eflags := 0x202\<rparr>"
    by (simp add: resumed_def) (simp add: user_start_def)
  with t(1-5) u old show ?thesis by blast
qed

end
