(* ===== verification/Pic.thy ===== *)
theory Pic
  imports Task
begin

text \<open>
  The timer of \<^verbatim>\<open>kernel/interrupt/pic.c\<close>, which counts ticks and calls the scheduler, and the two test
  tasks of \<^verbatim>\<open>kernel/task/task.c\<close>, one of which watches the tick counter.
\<close>

section \<open>State and operations\<close>

record pic_state = task_state +
  tick :: u32
  pic_print :: bool

definition pic_callback :: "'a pic_state_scheme \<Rightarrow> control \<times> 'a pic_state_scheme" where
  "pic_callback s =
     (let s = s\<lparr>tick := tick s + 1\<rparr>;
          s = (if pic_print s then
                 (let s = tty_printstr (lit ''Tick: '') s;
                      s = tty_printint (tick s) s
                  in tty_putc 10 s)
               else s)
      in scheduler s)"

definition pic_get_tick :: "'a pic_state_scheme \<Rightarrow> u32" where
  "pic_get_tick s = tick s"

text \<open>A division by zero is a processor exception, and undefined in C.\<close>

definition pic_init :: "u32 \<Rightarrow> bool \<Rightarrow> 'a pic_state_scheme \<Rightarrow> ('a pic_state_scheme, unit) result" where
  "pic_init frequency print_tick s =
     (let s = s\<lparr>pic_print := print_tick\<rparr>;
          s = s\<lparr>idt_handlers := (idt_handlers s)(32 := Pic_callback)\<rparr>
      in if frequency = 0 then Inl (Undefined, s)
         else
           let divisor = 1193180 div frequency;
               s = outb 0x43 0x36 s;
               l = ucast (divisor AND 0xFF);
               h = ucast (drop_bit 8 divisor AND 0xFF);
               s = outb 0x40 l s;
               s = outb 0x40 h s
           in Inr ((), s))"

text \<open>
  One round of the endless loop of \<^verbatim>\<open>task_test\<close>, from the value of its local variable to the next.
\<close>

definition task_test :: "u32 \<Rightarrow> 'a pic_state_scheme \<Rightarrow> ('a pic_state_scheme, u32) result" where
  "task_test previous_tick s =
     (let now = pic_get_tick s
      in if now \<ge> previous_tick + 2
         then bindR (kprintf (litn ''Task_test: %d (SWITCHING TASK)'') [VInt now] s) (\<lambda>_ s. Inr (now, s))
         else Inr (previous_tick, s))"

definition task_userspace :: "'a machine_scheme \<Rightarrow> ('a machine_scheme, unit) result" where
  "task_userspace s = Inl (Spin, s)"

section \<open>Properties\<close>

text \<open>The reload value the timer is given: two writes to its data port after the mode byte.\<close>

definition pit_reload :: "(u16 \<times> u8) list \<Rightarrow> nat" where
  "pit_reload out = (case out of
       (p, h) # (q, l) # (r, m) # _ \<Rightarrow>
         if p = 0x40 \<and> q = 0x40 \<and> r = 0x43 \<and> m = 0x36 then 256 * unat h + unat l else 0
     | _ \<Rightarrow> 0)"

lemma low_bytes: "256 * unat (ucast (drop_bit 8 d AND 0xFF) :: u8) + unat (ucast (d AND 0xFF) :: u8)
  = unat (d :: u32) mod 65536"
proof -
  have m: "(0xFF :: u32) = mask 8" by (simp add: mask_eq_exp_minus_1)
  have u: "unat (ucast (x AND 0xFF) :: u8) = unat x mod 256" for x :: u32
    unfolding m take_bit_eq_mask [symmetric] unsigned_ucast_eq unsigned_take_bit_eq by (simp add: take_bit_eq_mod)
  have "unat (drop_bit 8 d) = unat d div 256" by (simp only: unat_drop_bit_eq) (simp add: drop_bit_eq_div)
  then show ?thesis unfolding u by (simp add: mod_mult2_eq [of _ 256 256, simplified])
qed

lemma pic_init_state:
  assumes "frequency \<noteq> 0"
  obtains t where "pic_init frequency p s = Inr ((), t)"
    "pit_reload (port_out t) = unat (1193180 div frequency) mod 65536"
    "idt_handlers t = (idt_handlers s)(32 := Pic_callback)" "pic_print t = p" "tick t = tick s"
    "mem t = mem s" "int_flag t = int_flag s"
  using assms that
  by (simp add: pic_init_def Let_def pit_reload_def low_bytes outb_def)

text \<open>
  C33: \<^verbatim>\<open>pic_init\<close> for a frequency from 19 Hz to the 1193180 Hz of the input clock installs the timer
  handler and sends, after the mode byte, the low and the high byte of the largest reload value that
  gives at least that frequency; below 19 Hz the reload value does not fit its 16 bits and what the
  timer is given is that value modulo 65536. Frequency 0 divides by zero.
\<close>

theorem pic_init_programs_timer:
  assumes "0 < unat f" "unat f \<le> 1193180"
  shows "\<exists>t. pic_init f p s = Inr ((), t) \<and> idt_handlers t = (idt_handlers s)(32 := Pic_callback) \<and>
    (19 \<le> unat f \<longrightarrow> unat f * pit_reload (port_out t) \<le> 1193180 \<and>
       1193180 < unat f * (pit_reload (port_out t) + 1)) \<and>
    (unat f < 19 \<longrightarrow> pit_reload (port_out t) = 1193180 div unat f mod 65536) \<and>
    (\<exists>u. pic_init 0 p s = Inl (Undefined, u))"
proof -
  have nz: "f \<noteq> 0" using assms(1) by auto
  obtain t where t: "pic_init f p s = Inr ((), t)" "idt_handlers t = (idt_handlers s)(32 := Pic_callback)"
    "pit_reload (port_out t) = unat (1193180 div f) mod 65536"
    by (rule pic_init_state [OF nz, of p s]) blast
  let ?d = "1193180 div unat f"
  have d: "unat (1193180 div f) = ?d" by (simp add: unat_div)
  have rate: "unat f * ?d \<le> 1193180" "1193180 < unat f * (?d + 1)"
    using times_div_less_eq_dividend [of "unat f" 1193180] dividend_less_times_div [OF assms(1), of 1193180]
    by (simp_all only: distrib_left mult_1_right add.commute)
  have "?d \<le> 1193180 div 19" if "19 \<le> unat f" using that by (intro div_le_mono2) simp_all
  then have "pit_reload (port_out t) = ?d" if "19 \<le> unat f" using that by (simp add: t(3) d)
  moreover have "pit_reload (port_out t) = ?d mod 65536" by (simp add: t(3) d)
  moreover have "\<exists>u. pic_init 0 p s = Inl (Undefined, u)" by (simp add: pic_init_def Let_def)
  ultimately show ?thesis using t(1,2) rate by metis
qed

theorem pic_init_programs_timer_witness:
  "\<forall>s :: pic_state. \<exists>t. pic_init 20 False s = Inr ((), t) \<and> idt_handlers t 32 = Pic_callback \<and>
     20 * pit_reload (port_out t) \<le> 1193180"
proof
  fix s :: pic_state
  show "\<exists>t. pic_init 20 False s = Inr ((), t) \<and> idt_handlers t 32 = Pic_callback \<and>
     20 * pit_reload (port_out t) \<le> 1193180"
    using pic_init_programs_timer [of 20 False s] by auto
qed

end
