(* ===== verification/Keyboard.thy ===== *)
theory Keyboard
  imports Pic Ctype
begin

text \<open>
  The keyboard driver of \<^verbatim>\<open>kernel/interrupt/keyboard.c\<close> with the key codes of \<^verbatim>\<open>keyboard.h\<close> and the layout
  tables of \<^verbatim>\<open>keyboard_lut.h\<close>: the modifier state, the ring buffer between the interrupt handler and
  the console, and the interrupt handler. The ring buffer is shown to be a first-in first-out queue
  for as long as its indices stay inside the array.
\<close>

section \<open>Key codes and layout\<close>

type_synonym keycode = u32

definition KEY_BACKSPACE :: keycode where "KEY_BACKSPACE = 8"
definition KEY_TAB :: keycode where "KEY_TAB = 9"
definition KEY_ENTER :: keycode where "KEY_ENTER = 10"
definition KEY_ESCAPE :: keycode where "KEY_ESCAPE = 0x1b"
definition KEY_DELETE :: keycode where "KEY_DELETE = 0x7f"
definition KEY_SHIFT :: keycode where "KEY_SHIFT = 0x80"
definition KEY_SHIFT_RELEASE :: keycode where "KEY_SHIFT_RELEASE = 0x81"
definition KEY_CAPSLOCK :: keycode where "KEY_CAPSLOCK = 0x82"
definition KEY_CAPSLOCK_RELEASE :: keycode where "KEY_CAPSLOCK_RELEASE = 0x83"
definition KEY_CTRL :: keycode where "KEY_CTRL = 0x84"
definition KEY_CTRL_RELEASE :: keycode where "KEY_CTRL_RELEASE = 0x85"
definition KEY_ALT :: keycode where "KEY_ALT = 0x86"
definition KEY_ALT_RELEASE :: keycode where "KEY_ALT_RELEASE = 0x87"
definition KEY_PRTSCR :: keycode where "KEY_PRTSCR = 0x88"
definition KEY_NUMLOCK :: keycode where "KEY_NUMLOCK = 0x89"
definition KEY_SCRLOCK :: keycode where "KEY_SCRLOCK = 0x8a"
definition KEY_INSERT :: keycode where "KEY_INSERT = 0x8b"
definition KEY_END :: keycode where "KEY_END = 0x8c"
definition KEY_DOWN :: keycode where "KEY_DOWN = 0x8d"
definition KEY_PGDWN :: keycode where "KEY_PGDWN = 0x8e"
definition KEY_LEFT :: keycode where "KEY_LEFT = 0x8f"
definition KEY_CENTER :: keycode where "KEY_CENTER = 0x90"
definition KEY_RIGHT :: keycode where "KEY_RIGHT = 0x91"
definition KEY_HOME :: keycode where "KEY_HOME = 0x92"
definition KEY_UP :: keycode where "KEY_UP = 0x93"
definition KEY_PGUP :: keycode where "KEY_PGUP = 0x94"
definition KEY_F1 :: keycode where "KEY_F1 = 0x95"
definition KEY_F2 :: keycode where "KEY_F2 = 0x96"
definition KEY_F3 :: keycode where "KEY_F3 = 0x97"
definition KEY_F4 :: keycode where "KEY_F4 = 0x98"
definition KEY_F5 :: keycode where "KEY_F5 = 0x99"
definition KEY_F6 :: keycode where "KEY_F6 = 0x9a"
definition KEY_F7 :: keycode where "KEY_F7 = 0x9b"
definition KEY_F8 :: keycode where "KEY_F8 = 0x9c"
definition KEY_F9 :: keycode where "KEY_F9 = 0x9d"
definition KEY_F10 :: keycode where "KEY_F10 = 0x9e"
definition KEY_F11 :: keycode where "KEY_F11 = 0x9f"
definition KEY_F12 :: keycode where "KEY_F12 = 0xa0"
definition KEY_SCANESC :: keycode where "KEY_SCANESC = 0xa1"
definition KEY_IGNORE :: keycode where "KEY_IGNORE = 0xa2"

lemmas keycodes = KEY_BACKSPACE_def KEY_TAB_def KEY_ENTER_def KEY_ESCAPE_def KEY_DELETE_def
  KEY_SHIFT_def KEY_SHIFT_RELEASE_def KEY_CAPSLOCK_def KEY_CTRL_def KEY_CTRL_RELEASE_def KEY_ALT_def
  KEY_ALT_RELEASE_def KEY_NUMLOCK_def KEY_SCRLOCK_def KEY_INSERT_def KEY_END_def KEY_DOWN_def
  KEY_PGDWN_def KEY_LEFT_def KEY_CENTER_def KEY_RIGHT_def KEY_HOME_def KEY_UP_def KEY_PGUP_def
  KEY_F1_def KEY_F2_def KEY_F3_def KEY_F4_def KEY_F5_def KEY_F6_def KEY_F7_def KEY_F8_def KEY_F9_def
  KEY_F10_def KEY_F11_def KEY_F12_def KEY_SCANESC_def KEY_IGNORE_def

text \<open>Character constants of the tables.\<close>

definition chars :: "string \<Rightarrow> keycode list" where
  "chars cs = map of_char cs"

text \<open>
  A table of 256 key codes: entries from 0 on, four release codes, and 0 for every entry without an
  initialiser.
\<close>

definition keytable :: "keycode list \<Rightarrow> nat \<Rightarrow> keycode" where
  "keytable low i =
     (if i < length low then low ! i
      else if i = 0x9D then KEY_CTRL_RELEASE
      else if i = 0xaa \<or> i = 0xb6 then KEY_SHIFT_RELEASE
      else if i = 0xb8 then KEY_ALT_RELEASE
      else 0)"

definition unshift_keys :: "keycode list" where
  "unshift_keys =
    [KEY_IGNORE, KEY_ESCAPE] @ chars ''1234567890-='' @ [KEY_BACKSPACE, KEY_TAB]
    @ chars ''qwertyuiop[]'' @ [KEY_ENTER, KEY_CTRL] @ chars ''asdfghjkl;''
    @ [39, 96, KEY_SHIFT, 92] @ chars ''zxcvbnm,./'' @ [KEY_SHIFT] @ chars ''*'' @ [KEY_ALT]
    @ chars '' ''
    @ [KEY_CAPSLOCK, KEY_F1, KEY_F2, KEY_F3, KEY_F4, KEY_F5, KEY_F6, KEY_F7, KEY_F8, KEY_F9,
      KEY_F10, KEY_NUMLOCK, KEY_SCRLOCK, KEY_HOME, KEY_UP, KEY_PGUP] @ chars ''-''
    @ [KEY_LEFT, KEY_CENTER, KEY_RIGHT] @ chars ''+''
    @ [KEY_END, KEY_DOWN, KEY_PGDWN, KEY_INSERT, KEY_DELETE, KEY_IGNORE, KEY_IGNORE,
      KEY_IGNORE, KEY_F11, KEY_F12] @ replicate 6 KEY_IGNORE @ [KEY_SCANESC, KEY_SCANESC]
    @ replicate 30 KEY_IGNORE"

definition shift_keys :: "keycode list" where
  "shift_keys =
    [KEY_IGNORE, KEY_ESCAPE] @ chars ''!@#$%^&*()_+'' @ [KEY_BACKSPACE, KEY_TAB]
    @ chars ''QWERTYUIOP{}'' @ [KEY_ENTER, KEY_CTRL] @ chars ''ASDFGHJKL:'' @ [34]
    @ chars ''~'' @ [KEY_SHIFT] @ chars ''|ZXCVBNM<>?'' @ [KEY_SHIFT] @ chars ''*'' @ [KEY_ALT]
    @ chars '' ''
    @ [KEY_CAPSLOCK, KEY_F1, KEY_F2, KEY_F3, KEY_F4, KEY_F5, KEY_F6, KEY_F7, KEY_F8, KEY_F9,
      KEY_F10, KEY_NUMLOCK, KEY_SCRLOCK, KEY_HOME, KEY_UP, KEY_PGUP] @ chars ''-''
    @ [KEY_LEFT, KEY_CENTER, KEY_RIGHT] @ chars ''+''
    @ [KEY_END, KEY_DOWN, KEY_PGDWN, KEY_INSERT, KEY_DELETE, KEY_IGNORE, KEY_IGNORE,
      KEY_IGNORE, KEY_F11, KEY_F12] @ replicate 6 KEY_IGNORE @ [KEY_SCANESC, KEY_SCANESC]
    @ replicate 30 KEY_IGNORE"

record keylayout =
  unshift :: "nat \<Rightarrow> keycode"
  shift :: "nat \<Rightarrow> keycode"

definition ps2_layout :: keylayout where
  "ps2_layout = \<lparr>unshift = keytable unshift_keys, shift = keytable shift_keys\<rparr>"

section \<open>State and operations\<close>

record keyboard_state =
  kb_shift :: bool
  kb_alt :: bool
  kb_ctrl :: bool
  kb_caps :: bool
  kb_numlock :: bool
  kb_scrlock :: bool
  kb_esc :: bool

record key =
  key_state :: keyboard_state
  key_key :: keycode

record keyboard =
  kb_buff :: "nat \<Rightarrow> key"
  kb_len :: u32
  kb_head :: u32
  kb_tail :: u32

record kb_kernel_state = pic_state +
  keyboard :: keyboard
  kb_state :: keyboard_state

text \<open>The number of elements of \<^verbatim>\<open>buff\<close>, and its size in bytes: a \<^verbatim>\<open>struct key\<close> takes eight.\<close>

definition KB_BUFF_ELEMENTS :: nat where "KB_BUFF_ELEMENTS = 4096"

definition sizeof_buff :: u32 where "sizeof_buff = of_nat (KB_BUFF_ELEMENTS * 8)"

text \<open>
  \<^verbatim>\<open>kb_get_key\<close>: whether there was a key, and the key when the caller passed a pointer. An index of
  4096 or more is outside the array.
\<close>

definition kb_get_key ::
  "bool \<Rightarrow> 'a kb_kernel_state_scheme \<Rightarrow> ('a kb_kernel_state_scheme, bool \<times> key option) result" where
  "kb_get_key wanted s =
     (let k = keyboard s
      in if kb_len k = 0 then Inr ((False, None), s)
         else if wanted \<and> KB_BUFF_ELEMENTS \<le> unat (kb_head k) then Inl (Undefined, s)
         else
           let key = (if wanted then Some (kb_buff k (unat (kb_head k))) else None);
               k = k\<lparr>kb_head := (kb_head k + 1) mod sizeof_buff\<rparr>;
               k = k\<lparr>kb_len := kb_len k - 1\<rparr>
           in Inr ((True, key), s\<lparr>keyboard := k\<rparr>))"

definition add_key :: "keycode \<Rightarrow> 'a kb_kernel_state_scheme \<Rightarrow> ('a kb_kernel_state_scheme, unit) result" where
  "add_key key s =
     (let k = keyboard s
      in if kb_len k < sizeof_buff then
           let new = \<lparr>key_state = kb_state s, key_key = key\<rparr>;
               k = k\<lparr>kb_len := kb_len k + 1\<rparr>
           in if KB_BUFF_ELEMENTS \<le> unat (kb_tail k) then Inl (Undefined, s\<lparr>keyboard := k\<rparr>)
              else
                let k = k\<lparr>kb_buff := (kb_buff k)(unat (kb_tail k) := new)\<rparr>;
                    k = k\<lparr>kb_tail := (kb_tail k + 1) mod sizeof_buff\<rparr>
                in Inr ((), s\<lparr>keyboard := k\<rparr>)
         else Inr ((), s))"

definition decode_scancode :: "keyboard_state \<Rightarrow> nat \<Rightarrow> keycode" where
  "decode_scancode st scancode =
     (let lookup_table =
            (if isalpha (sint (shift ps2_layout scancode)) \<noteq> 0
             then if kb_shift st \<noteq> kb_caps st then shift ps2_layout else unshift ps2_layout
             else if kb_shift st then shift ps2_layout else unshift ps2_layout)
      in lookup_table scancode)"

definition isr_key_press :: "'a kb_kernel_state_scheme \<Rightarrow> ('a kb_kernel_state_scheme, unit) result" where
  "isr_key_press s =
     (let scancode = inb 0x60 s
      in if scancode = 0xe0 then Inr ((), s)
         else
           let key = decode_scancode (kb_state s) (unat scancode);
               st = kb_state s
           in if key = of_char (CHR ''l'') \<and> kb_ctrl st then Inr ((), tty_clear s)
              else
                bindR
                  (if key = KEY_SHIFT then Inr ((), s\<lparr>kb_state := st\<lparr>kb_shift := True\<rparr>\<rparr>)
                   else if key = KEY_SHIFT_RELEASE then Inr ((), s\<lparr>kb_state := st\<lparr>kb_shift := False\<rparr>\<rparr>)
                   else if key = KEY_CAPSLOCK then Inr ((), s\<lparr>kb_state := st\<lparr>kb_caps := \<not> kb_caps st\<rparr>\<rparr>)
                   else if key = KEY_CTRL then Inr ((), s\<lparr>kb_state := st\<lparr>kb_ctrl := True\<rparr>\<rparr>)
                   else if key = KEY_CTRL_RELEASE then Inr ((), s\<lparr>kb_state := st\<lparr>kb_ctrl := False\<rparr>\<rparr>)
                   else if key = KEY_ALT then Inr ((), s\<lparr>kb_state := st\<lparr>kb_alt := True\<rparr>\<rparr>)
                   else if key = KEY_ALT_RELEASE then Inr ((), s\<lparr>kb_state := st\<lparr>kb_alt := False\<rparr>\<rparr>)
                   else if key = KEY_DELETE then Inr ((), s)
                   else add_key key s)
                  (\<lambda>_ s. Inr ((), outb 0x20 0x20 s)))"

definition keyboard_init :: "'a idt_state_scheme \<Rightarrow> 'a idt_state_scheme" where
  "keyboard_init s = s\<lparr>idt_handlers := (idt_handlers s)(33 := Isr_key_press)\<rparr>"

section \<open>Decoding\<close>

text \<open>
  A property of every scan code is checked along the two lists, and for the four release codes and
  the empty entries above them.
\<close>

lemma keytables_length: "length unshift_keys = 127" "length shift_keys = 127"
  by (simp_all add: unshift_keys_def shift_keys_def chars_def)

lemma layout_low:
  assumes "list_all (\<lambda>(i, u, s). P i u s) (zip [0..<127] (zip unshift_keys shift_keys))" "n < 127"
  shows "P n (unshift ps2_layout n) (shift ps2_layout n)"
proof -
  let ?xs = "zip [0..<127] (zip unshift_keys shift_keys)"
  have "?xs ! n = (n, unshift_keys ! n, shift_keys ! n)"
    using assms(2) by (simp add: keytables_length)
  moreover have "?xs ! n \<in> set ?xs" using assms(2) by (intro nth_mem) (simp add: keytables_length)
  ultimately have "P n (unshift_keys ! n) (shift_keys ! n)"
    using assms(1) by (force simp: list_all_iff)
  with assms(2) show ?thesis by (simp add: ps2_layout_def keytable_def keytables_length)
qed

lemma layout_high:
  assumes "127 \<le> n"
  shows "unshift ps2_layout n = (if n = 0x9D then KEY_CTRL_RELEASE else if n = 0xaa \<or> n = 0xb6
      then KEY_SHIFT_RELEASE else if n = 0xb8 then KEY_ALT_RELEASE else 0)"
    "shift ps2_layout n = unshift ps2_layout n"
  using assms by (simp_all add: ps2_layout_def keytable_def keytables_length)

definition case_entry :: "nat \<Rightarrow> keycode \<Rightarrow> keycode \<Rightarrow> bool" where
  "case_entry i u s \<longleftrightarrow> islower (sint u) = isalpha (sint s) \<and> (islower (sint u) \<noteq> 0 \<longrightarrow> s = u - 32)"

definition modifier_value :: "nat \<Rightarrow> keycode \<Rightarrow> bool" where
  "modifier_value i v \<longleftrightarrow> (v = KEY_SHIFT) = (i = 0x2a \<or> i = 0x36) \<and>
     (v = KEY_SHIFT_RELEASE) = (i = 0xaa \<or> i = 0xb6) \<and> (v = KEY_CAPSLOCK) = (i = 0x3a) \<and>
     (v = KEY_CTRL) = (i = 0x1d) \<and> (v = KEY_CTRL_RELEASE) = (i = 0x9d) \<and> (v = KEY_ALT) = (i = 0x38) \<and>
     (v = KEY_ALT_RELEASE) = (i = 0xb8) \<and> (v = KEY_DELETE) = (i = 0x53)"

definition modifier_entry :: "nat \<Rightarrow> keycode \<Rightarrow> keycode \<Rightarrow> bool" where
  "modifier_entry i u s \<longleftrightarrow> modifier_value i u \<and> modifier_value i s"

lemma case_low: "list_all (\<lambda>(i, u, s). case_entry i u s) (zip [0..<127] (zip unshift_keys shift_keys))"
  by code_simp

lemma modifier_low: "list_all (\<lambda>(i, u, s). modifier_entry i u s) (zip [0..<127] (zip unshift_keys shift_keys))"
  by code_simp

lemma layout_case: "case_entry n (unshift ps2_layout n) (shift ps2_layout n)"
proof (cases "n < 127")
  case True
  then show ?thesis by (rule layout_low [OF case_low])
next
  case False
  then show ?thesis
    by (auto simp: layout_high case_entry_def islower_def isalpha_def isupper_def keycodes)
qed

lemma layout_modifiers: "modifier_entry n (unshift ps2_layout n) (shift ps2_layout n)"
proof (cases "n < 127")
  case True
  then show ?thesis by (rule layout_low [OF modifier_low])
next
  case False
  then show ?thesis by (simp add: layout_high modifier_entry_def modifier_value_def keycodes)
qed

lemma decode_cases: "decode_scancode st n \<in> {unshift ps2_layout n, shift ps2_layout n}"
  by (simp add: decode_scancode_def Let_def)

lemma decode_modifiers: "modifier_value n (decode_scancode st n)"
  using layout_modifiers [of n] decode_cases [of st n] by (auto simp: modifier_entry_def)

text \<open>
  C34: letters obey shift and caps lock together, everything else shift alone. For a scan code whose
  unshifted key is a lower-case letter, \<^verbatim>\<open>decode_scancode\<close> gives the upper-case letter when exactly
  one of shift and caps lock is on and the lower-case letter otherwise; for any other scan code caps
  lock makes no difference.
\<close>

theorem decode_scancode_case:
  "decode_scancode st n =
    (if islower (sint (unshift ps2_layout n)) = 1
     then unshift ps2_layout n - (if kb_shift st \<noteq> kb_caps st then 32 else 0)
     else if kb_shift st then shift ps2_layout n else unshift ps2_layout n)"
proof -
  let ?u = "unshift ps2_layout n"
  have "islower (sint ?u) = isalpha (sint (shift ps2_layout n))"
    "islower (sint ?u) = 1 \<Longrightarrow> shift ps2_layout n = ?u - 32"
    using layout_case [of n] by (simp_all add: case_entry_def)
  moreover have "islower (sint ?u) = 0 \<or> islower (sint ?u) = 1" by (simp add: islower_def)
  ultimately show ?thesis unfolding decode_scancode_def Let_def by auto
qed

section \<open>The interface of a queue\<close>

datatype 'k queue_op = Put 'k | Take

primrec queue_puts :: "'k queue_op list \<Rightarrow> 'k list" where
  "queue_puts [] = []"
| "queue_puts (x # xs) = (case x of Put k \<Rightarrow> [k] | Take \<Rightarrow> []) @ queue_puts xs"

text \<open>Any sequence of insertions and removals, and the elements removed.\<close>

primrec queue_run :: "('k \<Rightarrow> 's \<Rightarrow> ('s, unit) result) \<Rightarrow> ('s \<Rightarrow> ('s, 'k option) result)
    \<Rightarrow> 'k queue_op list \<Rightarrow> 's \<Rightarrow> ('s, 'k list) result" where
  "queue_run put get [] s = Inr ([], s)"
| "queue_run put get (x # xs) s =
     (case x of
        Put k \<Rightarrow> bindR (put k s) (\<lambda>_ s. queue_run put get xs s)
      | Take \<Rightarrow> bindR (get s) (\<lambda>r s. bindR (queue_run put get xs s) (\<lambda>ys s.
          Inr (case r of None \<Rightarrow> ys | Some y \<Rightarrow> y # ys, s))))"

locale fifo =
  fixes put :: "'k \<Rightarrow> 's \<Rightarrow> ('s, unit) result" and get :: "'s \<Rightarrow> ('s, 'k option) result"
    and contents :: "'s \<Rightarrow> 'k list" and room :: "'s \<Rightarrow> nat" and inv :: "'s \<Rightarrow> bool"
  assumes put_contents: "inv s \<Longrightarrow> 0 < room s \<Longrightarrow>
      \<exists>t. put k s = Inr ((), t) \<and> contents t = contents s @ [k] \<and> Suc (room t) = room s \<and> inv t"
    and get_Nil: "inv s \<Longrightarrow> contents s = [] \<Longrightarrow> get s = Inr (None, s)"
    and get_Cons: "inv s \<Longrightarrow> contents s = k # ks \<Longrightarrow>
      \<exists>t. get s = Inr (Some k, t) \<and> contents t = ks \<and> room t = room s \<and> inv t"
begin

lemma run_order:
  assumes "inv s" "length (queue_puts xs) \<le> room s"
  shows "\<exists>ys t. queue_run put get xs s = Inr (ys, t) \<and> ys @ contents t = contents s @ queue_puts xs \<and>
    room t + length (queue_puts xs) = room s \<and> inv t"
  using assms
proof (induction xs arbitrary: s)
  case Nil
  then show ?case by simp
next
  case (Cons x xs)
  show ?case
  proof (cases x)
    case (Put k)
    with Cons.prems obtain t where t: "put k s = Inr ((), t)" "contents t = contents s @ [k]"
      "Suc (room t) = room s" "inv t"
      using put_contents [of s k] by auto
    with Put Cons.prems have "length (queue_puts xs) \<le> room t" by simp
    with Cons.IH [OF t(4)] t Put show ?thesis by fastforce
  next
    case Take
    show ?thesis
    proof (cases "contents s")
      case Nil
      with Take Cons get_Nil show ?thesis by fastforce
    next
      fix k ks assume ks: "contents s = k # ks"
      then obtain t where t: "get s = Inr (Some k, t)" "contents t = ks" "room t = room s" "inv t"
        using get_Cons Cons.prems by blast
      with Take Cons.prems have "length (queue_puts xs) \<le> room t" by simp
      with Cons.IH [OF t(4)] t Take ks show ?thesis by fastforce
    qed
  qed
qed

end

section \<open>The ring buffer\<close>

text \<open>The indices of a buffer that has never run past its end.\<close>

definition kb_inv :: "'a kb_kernel_state_scheme \<Rightarrow> bool" where
  "kb_inv s \<longleftrightarrow> (let k = keyboard s in
     unat (kb_tail k) = unat (kb_head k) + unat (kb_len k) \<and> unat (kb_tail k) \<le> KB_BUFF_ELEMENTS)"

definition kb_queue :: "'a kb_kernel_state_scheme \<Rightarrow> key list" where
  "kb_queue s = (let k = keyboard s in
     map (kb_buff k) [unat (kb_head k)..<unat (kb_head k) + unat (kb_len k)])"

definition kb_room :: "'a kb_kernel_state_scheme \<Rightarrow> nat" where
  "kb_room s = KB_BUFF_ELEMENTS - unat (kb_tail (keyboard s))"

definition kb_keys :: "'a kb_kernel_state_scheme \<Rightarrow> keycode list" where
  "kb_keys s = map key_key (kb_queue s)"

text \<open>Reading one key code, as the console does.\<close>

definition kb_next :: "'a kb_kernel_state_scheme \<Rightarrow> ('a kb_kernel_state_scheme, keycode option) result" where
  "kb_next s = bindR (kb_get_key True s) (\<lambda>(ok, k) s. Inr (map_option key_key k, s))"

lemma unat_succ_mod_buff:
  assumes "unat (i :: u32) < 4096"
  shows "unat ((i + 1) mod sizeof_buff) = unat i + 1"
proof -
  have "unat (i + 1) = unat i + 1" using assms by (simp add: unat_word_ariths)
  then show ?thesis using assms by (simp add: unat_mod sizeof_buff_def KB_BUFF_ELEMENTS_def)
qed

lemma add_key_state:
  assumes "kb_inv s" "0 < kb_room s"
  obtains t where "add_key key s = Inr ((), t)" "kb_inv t"
    "kb_queue t = kb_queue s @ [\<lparr>key_state = kb_state s, key_key = key\<rparr>]" "Suc (kb_room t) = kb_room s"
    "\<exists>k. t = s\<lparr>keyboard := k\<rparr>"
proof -
  let ?k = "keyboard s"
  have idx: "unat (kb_tail ?k) = unat (kb_head ?k) + unat (kb_len ?k)" "unat (kb_tail ?k) < 4096"
    using assms by (simp_all add: kb_inv_def kb_room_def KB_BUFF_ELEMENTS_def Let_def)
  then have len: "kb_len ?k < sizeof_buff" "unat (kb_len ?k + 1) = unat (kb_len ?k) + 1"
    by (simp_all add: word_less_nat_alt sizeof_buff_def KB_BUFF_ELEMENTS_def unat_word_ariths)
  let ?t = "s\<lparr>keyboard := ?k\<lparr>kb_len := kb_len ?k + 1,
      kb_buff := (kb_buff ?k)(unat (kb_tail ?k) := \<lparr>key_state = kb_state s, key_key = key\<rparr>),
      kb_tail := (kb_tail ?k + 1) mod sizeof_buff\<rparr>\<rparr>"
  note tail = unat_succ_mod_buff [OF idx(2)]
  have "add_key key s = Inr ((), ?t)"
    using len(1) idx(2) by (simp add: add_key_def Let_def KB_BUFF_ELEMENTS_def)
  moreover have "kb_inv ?t" using idx len tail by (simp add: kb_inv_def KB_BUFF_ELEMENTS_def)
  moreover have "kb_queue ?t = kb_queue s @ [\<lparr>key_state = kb_state s, key_key = key\<rparr>]"
    using idx len by (simp add: kb_queue_def Let_def)
  moreover have "Suc (kb_room ?t) = kb_room s" using idx tail by (simp add: kb_room_def KB_BUFF_ELEMENTS_def)
  ultimately show ?thesis using that [of ?t] by blast
qed

lemma kb_get_key_empty: "kb_inv s \<Longrightarrow> kb_queue s = [] \<Longrightarrow> kb_get_key w s = Inr ((False, None), s)"
  by (auto simp: kb_get_key_def kb_queue_def Let_def unat_eq_zero)

lemma kb_get_key_state:
  assumes "kb_inv s" "kb_queue s = x # xs"
  obtains t where "kb_get_key w s = Inr ((True, if w then Some x else None), t)" "kb_inv t"
    "kb_queue t = xs" "kb_room t = kb_room s" "\<exists>k. t = s\<lparr>keyboard := k\<rparr>"
proof -
  let ?k = "keyboard s"
  have "unat (kb_len ?k) \<noteq> 0"
    using assms(2) by (intro notI) (simp add: kb_queue_def Let_def)
  then have pos: "0 < unat (kb_len ?k)" "kb_len ?k \<noteq> 0" by auto
  have idx: "unat (kb_tail ?k) = unat (kb_head ?k) + unat (kb_len ?k)" "unat (kb_tail ?k) \<le> 4096"
    using assms(1) by (simp_all add: kb_inv_def KB_BUFF_ELEMENTS_def Let_def)
  with pos have hd: "unat (kb_head ?k) < 4096" by simp
  note head = unat_succ_mod_buff [OF hd]
  have len: "unat (kb_len ?k - 1) = unat (kb_len ?k) - 1"
    using pos by (simp add: unat_sub_if' Suc_leI)
  let ?t = "s\<lparr>keyboard := ?k\<lparr>kb_head := (kb_head ?k + 1) mod sizeof_buff, kb_len := kb_len ?k - 1\<rparr>\<rparr>"
  have q: "kb_queue s = kb_buff ?k (unat (kb_head ?k)) #
      map (kb_buff ?k) [unat (kb_head ?k) + 1..<unat (kb_head ?k) + unat (kb_len ?k)]"
    using pos by (simp add: kb_queue_def Let_def upt_conv_Cons)
  with assms(2) have x: "x = kb_buff ?k (unat (kb_head ?k))" by simp
  have "kb_get_key w s = Inr ((True, if w then Some x else None), ?t)"
    using pos hd x by (simp add: kb_get_key_def Let_def KB_BUFF_ELEMENTS_def)
  moreover have "kb_inv ?t" using idx head len pos by (simp add: kb_inv_def KB_BUFF_ELEMENTS_def)
  moreover have "kb_queue ?t = xs" using assms(2) q head len pos by (simp add: kb_queue_def)
  moreover have "kb_room ?t = kb_room s" by (simp add: kb_room_def)
  ultimately show ?thesis using that [of ?t] by blast
qed

interpretation kb_fifo: fifo add_key kb_next kb_keys kb_room kb_inv
proof unfold_locales
  fix s :: "'a kb_kernel_state_scheme" and k
  assume s: "kb_inv s" "0 < kb_room s"
  obtain t where "add_key k s = Inr ((), t)" "kb_inv t"
    "kb_queue t = kb_queue s @ [\<lparr>key_state = kb_state s, key_key = k\<rparr>]" "Suc (kb_room t) = kb_room s"
    by (rule add_key_state [OF s]) blast
  then show "\<exists>t. add_key k s = Inr ((), t) \<and> kb_keys t = kb_keys s @ [k] \<and> Suc (kb_room t) = kb_room s \<and> kb_inv t"
    by (simp add: kb_keys_def)
next
  fix s :: "'a kb_kernel_state_scheme"
  assume "kb_inv s" "kb_keys s = []"
  then show "kb_next s = Inr (None, s)" by (simp add: kb_next_def kb_keys_def kb_get_key_empty)
next
  fix s :: "'a kb_kernel_state_scheme" and k ks
  assume s: "kb_inv s" "kb_keys s = k # ks"
  then obtain x xs where q: "kb_queue s = x # xs" "key_key x = k" "map key_key xs = ks"
    by (auto simp: kb_keys_def)
  obtain t where "kb_get_key True s = Inr ((True, if True then Some x else None), t)" "kb_inv t"
    "kb_queue t = xs" "kb_room t = kb_room s"
    by (rule kb_get_key_state [OF s(1) q(1), of True]) blast
  then show "\<exists>t. kb_next s = Inr (Some k, t) \<and> kb_keys t = ks \<and> kb_room t = kb_room s \<and> kb_inv t"
    using q by (simp add: kb_next_def kb_keys_def)
qed

text \<open>
  C18: the keyboard buffer is a first-in first-out queue. For any interleaving of key presses and reads
  with at most as many presses as there is room before the end of the array, every operation returns,
  and the keys read so far followed by the keys still buffered are exactly the keys buffered at the
  start followed by the keys pressed, in order.
\<close>

theorem keyboard_buffer_fifo:
  assumes "kb_inv s" "length (queue_puts xs) \<le> kb_room s"
  shows "\<exists>ys t. queue_run add_key kb_next xs s = Inr (ys, t) \<and>
    ys @ kb_keys t = kb_keys s @ queue_puts xs \<and> kb_inv t"
  using kb_fifo.run_order [OF assms] by blast

text \<open>The state of the static initialiser of \<^verbatim>\<open>keyboard\<close>.\<close>

definition empty_keyboard :: keyboard where
  "empty_keyboard = \<lparr>kb_buff = (\<lambda>_. \<lparr>key_state = \<lparr>kb_shift = False, kb_alt = False, kb_ctrl = False,
     kb_caps = False, kb_numlock = False, kb_scrlock = False, kb_esc = False\<rparr>, key_key = 0\<rparr>),
     kb_len = 0, kb_head = 0, kb_tail = 0\<rparr>"

lemma empty_keyboard_inv:
  "kb_inv (s\<lparr>keyboard := empty_keyboard\<rparr>)" "kb_keys (s\<lparr>keyboard := empty_keyboard\<rparr>) = []"
  "kb_room (s\<lparr>keyboard := empty_keyboard\<rparr>) = 4096"
  by (simp_all add: kb_inv_def kb_keys_def kb_queue_def kb_room_def empty_keyboard_def KB_BUFF_ELEMENTS_def)

theorem keyboard_buffer_fifo_witness:
  "\<forall>s :: kb_kernel_state. \<exists>ys t. queue_run add_key kb_next [Put 97, Put 98, Take] (s\<lparr>keyboard := empty_keyboard\<rparr>)
     = Inr (ys, t) \<and> ys @ kb_keys t = [97, 98]"
proof
  fix s :: kb_kernel_state
  show "\<exists>ys t. queue_run add_key kb_next [Put 97, Put 98, Take] (s\<lparr>keyboard := empty_keyboard\<rparr>)
     = Inr (ys, t) \<and> ys @ kb_keys t = [97, 98]"
    using keyboard_buffer_fifo [of "s\<lparr>keyboard := empty_keyboard\<rparr>" "[Put 97, Put 98, Take]"]
    by (auto simp: empty_keyboard_inv)
qed

text \<open>
  C37: the buffer is not a ring. Its indices wrap at the size in bytes, 32768, although the array has 4096
  elements: however the presses and reads are interleaved, once 4096 keys have been pressed since boot
  the next press is written past the end of the array, even if all of them have been read.
\<close>

theorem keyboard_buffer_overruns:
  assumes "keyboard s = empty_keyboard" "length (queue_puts xs) = 4096"
  shows "\<exists>ys t u. queue_run add_key kb_next xs s = Inr (ys, t) \<and> add_key k t = Inl (Undefined, u)"
proof -
  have e: "s = s\<lparr>keyboard := empty_keyboard\<rparr>" using assms(1) by simp
  have s: "kb_inv s" "length (queue_puts xs) \<le> kb_room s" "kb_room s = 4096"
    using empty_keyboard_inv [of s] assms(2) by (simp_all only: e [symmetric])
  obtain ys t where t: "queue_run add_key kb_next xs s = Inr (ys, t)" "kb_inv t"
    "kb_room t + length (queue_puts xs) = kb_room s"
    using kb_fifo.run_order [OF s(1,2)] by blast
  then have "4096 \<le> unat (kb_tail (keyboard t))" "unat (kb_len (keyboard t)) \<le> 4096"
    using assms(2) s(3) by (simp_all add: kb_room_def kb_inv_def KB_BUFF_ELEMENTS_def Let_def)
  then have "\<exists>u. add_key k t = Inl (Undefined, u)"
    by (simp add: add_key_def Let_def KB_BUFF_ELEMENTS_def sizeof_buff_def word_less_nat_alt)
  with t(1) show ?thesis by blast
qed

lemma queue_puts_replicate: "length (queue_puts (concat (replicate n [Put k, Take]))) = n"
  by (induction n) simp_all

theorem keyboard_buffer_overruns_witness:
  "\<forall>s :: kb_kernel_state. \<exists>ys t u. queue_run add_key kb_next (concat (replicate 4096 [Put 97, Take]))
     (s\<lparr>keyboard := empty_keyboard\<rparr>) = Inr (ys, t) \<and> add_key 98 t = Inl (Undefined, u)"
proof
  fix s :: kb_kernel_state
  show "\<exists>ys t u. queue_run add_key kb_next (concat (replicate 4096 [Put 97, Take]))
     (s\<lparr>keyboard := empty_keyboard\<rparr>) = Inr (ys, t) \<and> add_key 98 t = Inl (Undefined, u)"
    by (rule keyboard_buffer_overruns) (simp, rule queue_puts_replicate)
qed

section \<open>The interrupt handler\<close>

text \<open>The effect of a scan code on the modifiers.\<close>

definition mod_step :: "u8 \<Rightarrow> keyboard_state \<Rightarrow> keyboard_state" where
  "mod_step sc m =
     (if sc = 0x2a \<or> sc = 0x36 then m\<lparr>kb_shift := True\<rparr>
      else if sc = 0xaa \<or> sc = 0xb6 then m\<lparr>kb_shift := False\<rparr>
      else if sc = 0x3a then m\<lparr>kb_caps := \<not> kb_caps m\<rparr>
      else if sc = 0x1d then m\<lparr>kb_ctrl := True\<rparr>
      else if sc = 0x9d then m\<lparr>kb_ctrl := False\<rparr>
      else if sc = 0x38 then m\<lparr>kb_alt := True\<rparr>
      else if sc = 0xb8 then m\<lparr>kb_alt := False\<rparr>
      else m)"

lemma u8_eq_iff: "(sc :: u8) = x \<longleftrightarrow> unat sc = unat x"
  by (simp add: word_unat_eq_iff)

lemma kb_inv_cong: "keyboard t = keyboard s \<Longrightarrow> kb_inv t = kb_inv s \<and> kb_queue t = kb_queue s \<and> kb_room t = kb_room s"
  by (simp add: kb_inv_def kb_queue_def kb_room_def)

lemma tty_clear_keyboard: "keyboard (tty_clear s) = keyboard s" "kb_state (tty_clear s) = kb_state s"
  "mem (tty_clear s) = mem s" "cpu (tty_clear s) = cpu s"
  using tty_clear_upd [of s] by auto

lemma decode_modifier_codes:
  fixes sc :: u8
  defines "v \<equiv> \<lambda>st. decode_scancode st (unat sc)"
  shows "v st = KEY_SHIFT \<longleftrightarrow> sc = 0x2a \<or> sc = 0x36" "v st = KEY_SHIFT_RELEASE \<longleftrightarrow> sc = 0xaa \<or> sc = 0xb6"
    "v st = KEY_CAPSLOCK \<longleftrightarrow> sc = 0x3a" "v st = KEY_CTRL \<longleftrightarrow> sc = 0x1d" "v st = KEY_CTRL_RELEASE \<longleftrightarrow> sc = 0x9d"
    "v st = KEY_ALT \<longleftrightarrow> sc = 0x38" "v st = KEY_ALT_RELEASE \<longleftrightarrow> sc = 0xb8" "v st = KEY_DELETE \<longleftrightarrow> sc = 0x53"
  using decode_modifiers [of "unat sc" st] by (simp_all add: v_def modifier_value_def u8_eq_iff)

lemma not_letter_l: "KEY_SHIFT \<noteq> of_char (CHR ''l'')" "KEY_SHIFT_RELEASE \<noteq> of_char (CHR ''l'')"
  "KEY_CAPSLOCK \<noteq> of_char (CHR ''l'')" "KEY_CTRL \<noteq> of_char (CHR ''l'')" "KEY_CTRL_RELEASE \<noteq> of_char (CHR ''l'')"
  "KEY_ALT \<noteq> of_char (CHR ''l'')" "KEY_ALT_RELEASE \<noteq> of_char (CHR ''l'')"
  by (simp_all add: keycodes)

lemma mod_step_letter:
  "decode_scancode st (unat sc) = of_char (CHR ''l'') \<Longrightarrow> mod_step sc m = m"
  using decode_modifier_codes [of st sc] not_letter_l by (simp add: mod_step_def)

text \<open>The scan codes of the modifiers.\<close>

definition modifier_code :: "u8 \<Rightarrow> bool" where
  "modifier_code sc \<longleftrightarrow> sc = 0x2a \<or> sc = 0x36 \<or> sc = 0xaa \<or> sc = 0xb6 \<or> sc = 0x3a \<or> sc = 0x1d \<or>
     sc = 0x9d \<or> sc = 0x38 \<or> sc = 0xb8"

text \<open>The keys a scan code adds to the buffer: none for a modifier, the prefix 0xe0, delete and control-L.\<close>

definition keys_of :: "u8 \<Rightarrow> keyboard_state \<Rightarrow> key list" where
  "keys_of sc m =
     (if modifier_code sc \<or> sc = 0xe0 \<or> sc = 0x53 \<or>
         decode_scancode m (unat sc) = of_char (CHR ''l'') \<and> kb_ctrl m then []
      else [\<lparr>key_state = m, key_key = decode_scancode m (unat sc)\<rparr>])"

lemma mod_step_other: "\<not> modifier_code sc \<Longrightarrow> mod_step sc m = m"
  by (simp add: mod_step_def modifier_code_def)

lemma isr_key_press_ends:
  "port_in s 0x60 = 0xe0 \<Longrightarrow> isr_key_press s = Inr ((), s)"
  "port_in s 0x60 \<noteq> 0xe0 \<Longrightarrow> decode_scancode (kb_state s) (unat (port_in s 0x60)) = of_char (CHR ''l'') \<Longrightarrow>
    kb_ctrl (kb_state s) \<Longrightarrow> isr_key_press s = Inr ((), tty_clear s)"
  by (simp_all add: isr_key_press_def inb_def Let_def)

lemma decode_modifier_keys:
  "decode_scancode st 0x2a = KEY_SHIFT" "decode_scancode st 0x36 = KEY_SHIFT"
  "decode_scancode st 0xaa = KEY_SHIFT_RELEASE" "decode_scancode st 0xb6 = KEY_SHIFT_RELEASE"
  "decode_scancode st 0x3a = KEY_CAPSLOCK" "decode_scancode st 0x1d = KEY_CTRL"
  "decode_scancode st 0x9d = KEY_CTRL_RELEASE" "decode_scancode st 0x38 = KEY_ALT"
  "decode_scancode st 0xb8 = KEY_ALT_RELEASE"
  using decode_modifiers [of "0x2a" st] decode_modifiers [of "0x36" st] decode_modifiers [of "0xaa" st]
    decode_modifiers [of "0xb6" st] decode_modifiers [of "0x3a" st] decode_modifiers [of "0x1d" st]
    decode_modifiers [of "0x9d" st] decode_modifiers [of "0x38" st] decode_modifiers [of "0xb8" st]
  by (simp_all add: modifier_value_def)

lemma isr_key_press_modifier:
  assumes "modifier_code (port_in s 0x60)"
  shows "isr_key_press s = Inr ((), outb 0x20 0x20 (s\<lparr>kb_state := mod_step (port_in s 0x60) (kb_state s)\<rparr>))"
  using assms unfolding modifier_code_def
  by (elim disjE) (simp_all add: isr_key_press_def inb_def Let_def decode_modifier_keys mod_step_def keycodes)

lemma isr_key_press_key:
  assumes "\<not> modifier_code (port_in s 0x60)" "port_in s 0x60 \<noteq> 0xe0"
    "\<not> (decode_scancode (kb_state s) (unat (port_in s 0x60)) = of_char (CHR ''l'') \<and> kb_ctrl (kb_state s))"
  shows "isr_key_press s = bindR (if port_in s 0x60 = 0x53 then Inr ((), s)
    else add_key (decode_scancode (kb_state s) (unat (port_in s 0x60))) s) (\<lambda>_ s. Inr ((), outb 0x20 0x20 s))"
  using assms by (auto simp: isr_key_press_def inb_def Let_def decode_modifier_codes modifier_code_def)

lemma isr_key_press_state:
  assumes "kb_inv s" "0 < kb_room s"
  obtains t where "isr_key_press s = Inr ((), t)" "kb_inv t"
    "kb_state t = mod_step (port_in s 0x60) (kb_state s)"
    "kb_queue t = kb_queue s @ keys_of (port_in s 0x60) (kb_state s)" "kb_room s \<le> Suc (kb_room t)"
    "mem t = mem s" "cpu t = cpu s"
proof -
  let ?sc = "port_in s 0x60" and ?st = "kb_state s"
  let ?v = "decode_scancode ?st (unat ?sc)"
  note result = that
  have same: thesis if t: "isr_key_press s = Inr ((), t)" "keyboard t = keyboard s"
    "kb_state t = mod_step ?sc ?st" "keys_of ?sc ?st = []" "mem t = mem s" "cpu t = cpu s" for t
    by (rule result [OF t(1)]) (use t assms kb_inv_cong [OF t(2)] in simp_all)
  consider "?sc = 0xe0" | "?sc \<noteq> 0xe0" "?v = of_char (CHR ''l'')" "kb_ctrl ?st" | "modifier_code ?sc"
    | "\<not> modifier_code ?sc" "?sc \<noteq> 0xe0" "\<not> (?v = of_char (CHR ''l'') \<and> kb_ctrl ?st)"
    by blast
  then show ?thesis
  proof cases
    case 1
    then show ?thesis
      using same [OF isr_key_press_ends(1)] by (simp add: keys_of_def mod_step_def)
  next
    case 2
    then show ?thesis
      using same [OF isr_key_press_ends(2)] mod_step_letter [OF 2(2)] by (simp add: keys_of_def tty_clear_keyboard)
  next
    case 3
    then show ?thesis
      using same [OF isr_key_press_modifier] by (simp add: keys_of_def outb_def)
  next
    case 4
    note eq = isr_key_press_key [OF 4] and st = mod_step_other [OF 4(1), of ?st]
    show ?thesis
    proof (cases "?sc = 0x53")
      case True
      then show ?thesis using same [of "outb 0x20 0x20 s"] eq st by (simp add: keys_of_def outb_def)
    next
      case False
      obtain u where u: "add_key ?v s = Inr ((), u)" "kb_inv u"
        "kb_queue u = kb_queue s @ [\<lparr>key_state = kb_state s, key_key = ?v\<rparr>]" "Suc (kb_room u) = kb_room s"
        "\<exists>k. u = s\<lparr>keyboard := k\<rparr>"
        by (rule add_key_state [OF assms, of ?v]) blast
      have k: "keyboard (outb 0x20 0x20 u) = keyboard u" "kb_state (outb 0x20 0x20 u) = ?st"
        "mem (outb 0x20 0x20 u) = mem s" "cpu (outb 0x20 0x20 u) = cpu s"
        using u(5) by (auto simp: outb_def)
      have "keys_of ?sc ?st = [\<lparr>key_state = ?st, key_key = ?v\<rparr>]"
        using 4 False by (auto simp: keys_of_def)
      moreover have "isr_key_press s = Inr ((), outb 0x20 0x20 u)" using eq u(1) False by simp
      ultimately show ?thesis
        using that [of "outb 0x20 0x20 u"] kb_inv_cong [OF k(1)] k(2-4) u(2-4) st by simp
    qed
  qed
qed

text \<open>A sequence of interrupts, each with its scan code at the keyboard's data port.\<close>

primrec press_codes :: "u8 list \<Rightarrow> 'a kb_kernel_state_scheme \<Rightarrow> ('a kb_kernel_state_scheme, unit) result" where
  "press_codes [] s = Inr ((), s)"
| "press_codes (sc # scs) s =
     bindR (isr_key_press (s\<lparr>port_in := (port_in s)(0x60 := sc)\<rparr>)) (\<lambda>_ s. press_codes scs s)"

text \<open>The keyboard as a machine on modifiers and queue alone.\<close>

definition abs_press :: "u8 \<Rightarrow> keyboard_state \<times> key list \<Rightarrow> keyboard_state \<times> key list" where
  "abs_press sc = (\<lambda>(m, q). (mod_step sc m, q @ keys_of sc m))"

definition kb_abs :: "'a kb_kernel_state_scheme \<Rightarrow> keyboard_state \<times> key list" where
  "kb_abs s = (kb_state s, kb_queue s)"

text \<open>
  C17: the interrupt handler implements a keyboard machine. For a sequence of scan codes that the buffer has
  room for, every interrupt returns, and modifiers and buffer are those of the abstract machine: shift,
  control and alt are on exactly when the last code for them was a press, caps lock is toggled by each of
  its presses, and every other code (release codes included, as key 0) is appended to the buffer with
  the modifiers that held at that moment.
\<close>

theorem isr_key_press_refines:
  assumes "kb_inv s" "length scs \<le> kb_room s"
  shows "\<exists>t. press_codes scs s = Inr ((), t) \<and> kb_abs t = fold abs_press scs (kb_abs s) \<and> kb_inv t"
  using assms
proof (induction scs arbitrary: s)
  case Nil
  then show ?case by simp
next
  case (Cons sc scs)
  let ?s = "s\<lparr>port_in := (port_in s)(0x60 := sc)\<rparr>"
  have s: "kb_inv ?s" "0 < kb_room ?s" "kb_room ?s = kb_room s" "kb_queue ?s = kb_queue s"
    using Cons.prems by (simp_all add: kb_inv_def kb_room_def kb_queue_def)
  obtain t where t: "isr_key_press ?s = Inr ((), t)" "kb_inv t"
    "kb_state t = mod_step (port_in ?s 0x60) (kb_state ?s)"
    "kb_queue t = kb_queue ?s @ keys_of (port_in ?s 0x60) (kb_state ?s)" "kb_room ?s \<le> Suc (kb_room t)"
    by (rule isr_key_press_state [OF s(1,2)]) blast
  have "length scs \<le> kb_room t" using t(5) s(3) Cons.prems by simp
  then obtain u where "press_codes scs t = Inr ((), u)" "kb_abs u = fold abs_press scs (kb_abs t)" "kb_inv u"
    using Cons.IH [OF t(2)] by blast
  moreover have "kb_abs t = abs_press sc (kb_abs s)" using t(3,4) s(4) by (simp add: kb_abs_def abs_press_def)
  ultimately show ?case using t(1) by simp
qed

text \<open>Shift pressed, the A key pressed and released, shift released: a capital A and a key 0.\<close>

theorem isr_key_press_refines_witness:
  "\<forall>s :: kb_kernel_state. \<exists>t. press_codes [0x2a, 0x1e, 0x9e, 0xaa] (s\<lparr>keyboard := empty_keyboard\<rparr>) = Inr ((), t) \<and>
     map key_key (kb_queue t) = [if kb_caps (kb_state s) then 97 else 65, 0] \<and> \<not> kb_shift (kb_state t)"
proof
  fix s :: kb_kernel_state
  let ?s = "s\<lparr>keyboard := empty_keyboard\<rparr>" and ?m = "(kb_state s)\<lparr>kb_shift := True\<rparr>"
  have dec: "decode_scancode ?m 0x1e = (if kb_caps (kb_state s) then 97 else 65)"
    "decode_scancode ?m 0x9e = 0"
    by (simp_all add: decode_scancode_def ps2_layout_def keytable_def unshift_keys_def shift_keys_def
        chars_def keycodes isalpha_def islower_def isupper_def)
  obtain t where t: "press_codes [0x2a, 0x1e, 0x9e, 0xaa] ?s = Inr ((), t)"
    "kb_abs t = fold abs_press [0x2a, 0x1e, 0x9e, 0xaa] (kb_abs ?s)"
    using isr_key_press_refines [of ?s "[0x2a, 0x1e, 0x9e, 0xaa]"] by (auto simp: empty_keyboard_inv)
  have "kb_abs ?s = (kb_state s, [])"
    by (simp add: kb_abs_def kb_queue_def empty_keyboard_def)
  with t(2) have "kb_queue t = [\<lparr>key_state = ?m, key_key = decode_scancode ?m 0x1e\<rparr>, \<lparr>key_state = ?m, key_key = 0\<rparr>]"
    "\<not> kb_shift (kb_state t)"
    by (simp_all add: kb_abs_def abs_press_def mod_step_def keys_of_def modifier_code_def dec)
  with t(1) dec show "\<exists>t. press_codes [0x2a, 0x1e, 0x9e, 0xaa] ?s = Inr ((), t) \<and>
     map key_key (kb_queue t) = [if kb_caps (kb_state s) then 97 else 65, 0] \<and> \<not> kb_shift (kb_state t)"
    by simp
qed

end
