(* ===== verification/Dispatch.thy ===== *)
theory Dispatch
  imports Keyboard
begin

text \<open>
  Interrupt entry, dispatch and return: the stubs of \<^verbatim>\<open>kernel/interrupt/init_idt.asm\<close> with the frame the
  processor and the stub push, and \<^verbatim>\<open>isr_handler\<close> and \<^verbatim>\<open>irq_handler\<close> of \<^verbatim>\<open>kernel/interrupt/interrupt.c\<close>, which
  call the functions stored in \<^verbatim>\<open>idt_handlers\<close>. The frame lives in the byte memory; the stack space that
  C functions use below it is not part of the model.
\<close>

section \<open>The C handlers\<close>

definition int_msgs :: "string list" where
  "int_msgs = [''Divide by Zero'', ''Debug'', ''Non-Maskable Interrupt'', ''Breakpoint'', ''Overflow'',
     ''Bound Range Exceeded'', ''Invalid Opcode'', ''Device Not Available'', ''Double Fault'',
     ''CoProcessor Segment Overrun'', ''Invalid TSS'', ''Segment Not Present'', ''Stack Segment Fault'',
     ''General Protection Fault'', ''Page Fault'', ''Reserved'', ''Floating-Point Error'', ''Alignment Check'',
     ''Machine Check'', ''SIMD Floating Pointe Exception'', ''Virtualziation Exception'',
     ''Control Protection Exception'', ''Reserved'', ''Reserved'', ''Reserved'', ''Reserved'', ''Reserved'',
     ''Reserved'', ''Reserved'', ''Reserved'', ''Reserved'', ''Reserved'']"

text \<open>Calling a stored handler; the NULL pointer is never called.\<close>

definition call_handler ::
  "idt_handler \<Rightarrow> u32 \<Rightarrow> 'a kb_kernel_state_scheme \<Rightarrow> ('a kb_kernel_state_scheme, control) result" where
  "call_handler h int_no s =
     (case h of
        NULL_handler \<Rightarrow> Inl (Undefined, s)
      | Other_interrupt \<Rightarrow> Inr (Return, other_interrupt int_no s)
      | Paging_page_fault_handler \<Rightarrow> bindR (paging_page_fault_handler s) (\<lambda>_ s. Inr (Return, s))
      | Pic_callback \<Rightarrow> Inr (pic_callback s)
      | Isr_key_press \<Rightarrow> bindR (isr_key_press s) (\<lambda>_ s. Inr (Return, s)))"

definition isr_handler ::
  "u32 \<Rightarrow> 'a kb_kernel_state_scheme \<Rightarrow> ('a kb_kernel_state_scheme, control) result" where
  "isr_handler int_no s =
     (if int_no = prev_int s then Inl (Spin, tty_printstr (lit ''...'') s)
      else
        let s = s\<lparr>prev_int := int_no\<rparr>;
            s = tty_printstr (lit ''Received interrupt: '') s;
            s = tty_printint int_no s;
            s = tty_printstr (lit '' ('') s
        in if length int_msgs \<le> unat int_no then Inl (Undefined, s)
           else
             let s = tty_printstr (lit (int_msgs ! unat int_no)) s;
                 s = tty_printstr (litn '')'') s
             in if idt_handlers s (unat int_no) \<noteq> NULL_handler
                then call_handler (idt_handlers s (unat int_no)) int_no s
                else Inr (Return, s))"

definition irq_handler ::
  "u32 \<Rightarrow> 'a kb_kernel_state_scheme \<Rightarrow> ('a kb_kernel_state_scheme, control) result" where
  "irq_handler int_no s =
     (let s = (if int_no \<ge> 40 then outb 0xA0 0x20 s else s);
          s = outb 0x20 0x20 s
      in if 256 \<le> unat int_no then Inl (Undefined, s)
         else if idt_handlers s (unat int_no) \<noteq> NULL_handler
         then call_handler (idt_handlers s (unat int_no)) int_no s
         else Inr (Return, s))"

section \<open>The stubs\<close>

definition push :: "u32 \<Rightarrow> 'a task_state_scheme \<Rightarrow> 'a task_state_scheme" where
  "push v s =
     (let esp = r_esp (cpu s) - 4
      in wr esp v (s\<lparr>cpu := (cpu s)\<lparr>r_esp := esp\<rparr>\<rparr>))"

definition pushad :: "'a task_state_scheme \<Rightarrow> 'a task_state_scheme" where
  "pushad s =
     (let r = cpu s
      in fold push [r_eax r, r_ecx r, r_edx r, r_ebx r, r_esp r, r_ebp r, r_esi r, r_edi r] s)"

text \<open>
  What the processor does through an interrupt gate: from user mode it changes to the stack of the task
  state segment and pushes the old stack; then it pushes flags, code segment and instruction pointer, and
  an error code for the exceptions that have one.
\<close>

definition gate_entry :: "u32 option \<Rightarrow> 'a task_state_scheme \<Rightarrow> 'a task_state_scheme" where
  "gate_entry error_code s =
     (let r = cpu s;
          s = (if r_cs r AND 3 = 3
               then fold push [r_ss r, r_esp r]
                 (s\<lparr>cpu := r\<lparr>r_esp := tss_esp0 (tss_region s), r_ss := tss_ss0 (tss_region s)\<rparr>\<rparr>)
               else s);
          s = fold push [r_eflags r, r_cs r, r_eip r] s;
          s = s\<lparr>int_flag := False, cpu := (cpu s)\<lparr>r_cs := ucast KERNEL_CODE_SEGMENT\<rparr>\<rparr>
      in case error_code of Some e \<Rightarrow> push e s | None \<Rightarrow> s)"

text \<open>The first halves of the stubs, up to the call of the C handler.\<close>

definition stub_entry :: "u32 \<Rightarrow> 'a task_state_scheme \<Rightarrow> 'a task_state_scheme" where
  "stub_entry n s =
     (let s = push n s;
          s = pushad s;
          s = push (r_ds (cpu s)) s;
          s = s\<lparr>cpu := (cpu s)\<lparr>r_ds := GDT_KERNEL_DATA_SEG\<rparr>\<rparr>
      in task_update_trapframe (r_esp (cpu s)) s)"

definition irq_entry :: "u32 \<Rightarrow> 'a task_state_scheme \<Rightarrow> 'a task_state_scheme" where
  "irq_entry n s = stub_entry n (push 0 (cli (gate_entry None s)))"

definition popad :: "u32 \<Rightarrow> 'a machine_scheme \<Rightarrow> cpu_regs \<Rightarrow> cpu_regs" where
  "popad esp s r = r\<lparr>r_edi := rd esp s, r_esi := rd (esp + 4) s, r_ebp := rd (esp + 8) s,
     r_ebx := rd (esp + 16) s, r_edx := rd (esp + 20) s, r_ecx := rd (esp + 24) s, r_eax := rd (esp + 28) s\<rparr>"

text \<open>The second half of \<^verbatim>\<open>irq_common_stub\<close>, with the stack pointer at the frame.\<close>

definition irq_return :: "u32 \<Rightarrow> 'a task_state_scheme \<Rightarrow> 'a task_state_scheme" where
  "irq_return esp s =
     (let r = (cpu s)\<lparr>r_ds := rd esp s\<rparr>;
          r = popad (esp + 4) s r;
          esp = esp + 4 + 32 + 8;
          s = sti s;
          r = iret esp r s
      in s\<lparr>cpu := r, int_flag := bit (r_eflags r) 9\<rparr>)"

text \<open>
  The second half of \<^verbatim>\<open>isr_common_stub\<close>. It takes the saved data segment off the stack twice, first into
  \<^verbatim>\<open>ebx\<close> and then again with \<^verbatim>\<open>pop ds\<close>.
\<close>

definition isr_return :: "u32 \<Rightarrow> 'a task_state_scheme \<Rightarrow> 'a task_state_scheme" where
  "isr_return esp s =
     (let r = (cpu s)\<lparr>r_ebx := rd esp s\<rparr>;
          r = r\<lparr>r_ds := r_ebx r\<rparr>;
          esp = esp + 4;
          r = r\<lparr>r_ds := rd esp s\<rparr>;
          r = popad (esp + 4) s r;
          esp = esp + 4 + 32 + 8;
          s = sti s;
          r = iret esp r s
      in s\<lparr>cpu := r, int_flag := bit (r_eflags r) 9\<rparr>)"

text \<open>The interrupt number that the handlers read is the one in the frame.\<close>

definition irq_stub :: "u32 \<Rightarrow> 'a kb_kernel_state_scheme \<Rightarrow> ('a kb_kernel_state_scheme, control) result" where
  "irq_stub n s =
     (let s = irq_entry n s;
          esp = r_esp (cpu s)
      in bindR (irq_handler (rd (esp + 36) s) s) (\<lambda>c s.
           case c of Resume \<Rightarrow> Inr (Resume, s) | Return \<Rightarrow> Inr (Return, irq_return esp s)))"

text \<open>
  The stubs of the exceptions are instances of two macros: \<^verbatim>\<open>ISR_ERR\<close> pushes a dummy code, \<^verbatim>\<open>ISR_REG\<close>, used for
  vectors 8 and 10 to 14, does not. Whether the processor has pushed a code, \<open>error_code\<close>, is not looked at.
\<close>

definition isr_err :: "u32 \<Rightarrow> bool" where
  "isr_err n \<longleftrightarrow> n \<notin> {8, 10, 11, 12, 13, 14}"

definition isr_stub ::
  "u32 option \<Rightarrow> u32 \<Rightarrow> 'a kb_kernel_state_scheme \<Rightarrow> ('a kb_kernel_state_scheme, control) result" where
  "isr_stub error_code n s =
     (let s = cli (gate_entry error_code s);
          s = (if isr_err n then push 0 s else s);
          s = stub_entry n s;
          esp = r_esp (cpu s)
      in bindR (isr_handler (rd (esp + 36) s) s) (\<lambda>c s.
           case c of Resume \<Rightarrow> Inr (Resume, s) | Return \<Rightarrow> Inr (Return, isr_return esp s)))"

section \<open>The frame on the stack\<close>

text \<open>The memory after pushing the words of a list from address \<open>a\<close> downwards.\<close>

primrec stored :: "bytes \<Rightarrow> u32 \<Rightarrow> u32 list \<Rightarrow> bytes" where
  "stored m a [] = m"
| "stored m a (w # ws) = stored (store32 m (a - 4) w) (a - 4) ws"

lemma stored_append: "stored m a (ws @ vs) = stored (stored m a ws) (a - 4 * of_nat (length ws)) vs"
  by (induction ws arbitrary: m a) (simp_all add: algebra_simps)

lemma push_eq: "push v s = s\<lparr>mem := store32 (mem s) (r_esp (cpu s) - 4) v,
    cpu := (cpu s)\<lparr>r_esp := r_esp (cpu s) - 4\<rparr>\<rparr>"
  by (simp add: push_def wr_def Let_def)

lemma fold_push_eq: "fold push ws s = s\<lparr>mem := stored (mem s) (r_esp (cpu s)) ws,
    cpu := (cpu s)\<lparr>r_esp := r_esp (cpu s) - 4 * of_nat (length ws)\<rparr>\<rparr>"
  by (induction ws arbitrary: s) (simp_all add: push_eq algebra_simps)

lemma aligned4_minus:
  assumes "aligned4 a"
  shows "aligned4 (a - 4 * b)"
proof -
  have "unat (4 * - b) mod 4 = 0" by (simp only: unat_word_ariths) (simp add: mod_mod_cancel)
  then have "aligned4 (4 * - b)" by (simp add: aligned4_def)
  from aligned4_add [OF assms this] show ?thesis by simp
qed

lemma stored_other:
  assumes "aligned4 a" "aligned4 x" "\<forall>i<length ws. x \<noteq> a - 4 * of_nat (Suc i)"
  shows "load32 (stored m a ws) x = load32 m x"
  using assms
proof (induction ws arbitrary: m a)
  case Nil
  then show ?case by simp
next
  case (Cons w ws)
  have al: "aligned4 (a - 4)" using aligned4_minus [OF Cons.prems(1), of 1] by simp
  have "x \<noteq> a - 4" using Cons.prems(3) by force
  moreover have "\<forall>i<length ws. x \<noteq> a - 4 - 4 * of_nat (Suc i)"
    using Cons.prems(3) by (auto simp: algebra_simps)
  ultimately show ?case
    using Cons.IH [OF al Cons.prems(2)] al Cons.prems(2)
    by (simp add: load32_store32_apart aligned4_apart32)
qed

lemma minus_of_nat_eq_iff:
  fixes a :: u32
  assumes "i < 2 ^ 20" "j < 2 ^ 20"
  shows "a - 4 * of_nat i = a - 4 * of_nat j \<longleftrightarrow> i = j"
proof
  assume "a - 4 * of_nat i = a - 4 * of_nat j"
  then have "a + of_nat (4 * i) = a + of_nat (4 * j)" by simp
  then show "i = j" using add_of_nat_eq_iff [of "4 * i" "4 * j" a] assms by simp
qed simp

lemma stored_nth:
  assumes "aligned4 a" "i < length ws" "length ws < 2 ^ 20"
  shows "load32 (stored m a ws) (a - 4 * of_nat (Suc i)) = ws ! i"
  using assms
proof (induction ws rule: rev_induct)
  case Nil
  then show ?case by simp
next
  case (snoc w ws)
  have ap: "stored m a (ws @ [w]) = store32 (stored m a ws) (a - 4 * of_nat (Suc (length ws))) w"
    by (simp add: stored_append algebra_simps)
  show ?case
  proof (cases "i = length ws")
    case True
    then show ?thesis by (simp add: ap del: of_nat_Suc)
  next
    case False
    with snoc.prems have i: "i < length ws" by simp
    then have "a - 4 * of_nat (Suc (length ws)) \<noteq> a - 4 * of_nat (Suc i)"
      using minus_of_nat_eq_iff [of "Suc (length ws)" "Suc i" a] snoc.prems(3) by simp
    then have "apart32 (a - 4 * of_nat (Suc (length ws))) (a - 4 * of_nat (Suc i))"
      using aligned4_minus snoc.prems(1) by (intro aligned4_apart32)
    then show ?thesis
      using snoc.IH [OF snoc.prems(1) i] snoc.prems(3) i by (simp add: ap load32_store32_apart nth_append del: of_nat_Suc)
  qed
qed

text \<open>Where the frame goes and what it holds, for interrupt \<open>n\<close> with code \<open>e\<close> in the register state \<open>r\<close>.\<close>

definition frame_top :: "'a task_state_scheme \<Rightarrow> u32" where
  "frame_top s = (if user_mode (cpu s) then tss_esp0 (tss_region s) else r_esp (cpu s))"

definition frame_words :: "u32 \<Rightarrow> u32 \<Rightarrow> u32 \<Rightarrow> cpu_regs \<Rightarrow> u32 list" where
  "frame_words base e n r = (if user_mode r then [r_ss r, r_esp r] else []) @
     [r_eflags r, r_cs r, r_eip r, e, n, r_eax r, r_ecx r, r_edx r, r_ebx r,
      base - (if user_mode r then 28 else 20), r_ebp r, r_esi r, r_edi r, r_ds r]"

definition frame_addr_of :: "'a task_state_scheme \<Rightarrow> u32" where
  "frame_addr_of s = frame_top s - (if user_mode (cpu s) then 64 else 56)"

lemma gate_entry_eq:
  "gate_entry None s = s\<lparr>mem := stored (mem s) (frame_top s) (take (if user_mode (cpu s) then 5 else 3)
       (frame_words b e n (cpu s))), int_flag := False,
     cpu := (cpu s)\<lparr>r_esp := frame_top s - (if user_mode (cpu s) then 20 else 12), r_cs := 8,
       r_ss := (if user_mode (cpu s) then tss_ss0 (tss_region s) else r_ss (cpu s))\<rparr>\<rparr>"
  by (cases "user_mode (cpu s)")
    (simp_all add: gate_entry_def push_eq Let_def frame_top_def frame_words_def user_mode_def
      KERNEL_CODE_SEGMENT_def)

lemma stub_entry_eq:
  "stub_entry n (push e (cli s)) = (let r = cpu s in
     task_update_trapframe (r_esp r - 44)
       (s\<lparr>int_flag := False, mem := stored (mem s) (r_esp r) [e, n, r_eax r, r_ecx r, r_edx r, r_ebx r,
           r_esp r - 8, r_ebp r, r_esi r, r_edi r, r_ds r],
          cpu := r\<lparr>r_esp := r_esp r - 44, r_ds := GDT_KERNEL_DATA_SEG\<rparr>\<rparr>))"
  by (simp add: stub_entry_def pushad_def push_eq fold_push_eq Let_def cli_def)

lemma irq_entry_eq:
  "stub_entry n (push e (cli (gate_entry None s))) =
     task_update_trapframe (frame_addr_of s)
       (s\<lparr>int_flag := False, mem := stored (mem s) (frame_top s) (frame_words (frame_top s) e n (cpu s)),
          cpu := (cpu s)\<lparr>r_cs := 8, r_ss := (if user_mode (cpu s) then tss_ss0 (tss_region s) else r_ss (cpu s)),
            r_esp := frame_addr_of s, r_ds := GDT_KERNEL_DATA_SEG\<rparr>\<rparr>)"
  unfolding stub_entry_eq gate_entry_eq [where b = "frame_top s" and n = n and e = e]
  by (cases "user_mode (cpu s)") (simp_all add: Let_def frame_addr_of_def frame_words_def)

text \<open>Reading the frame back.\<close>

lemma frame_words_length: "length (frame_words b e n r) = frame_size r"
  by (simp add: frame_words_def frame_size_def)

lemma frame_addr_top: "frame_addr_of s = frame_top s - 4 * of_nat (frame_size (cpu s))"
  by (simp add: frame_addr_of_def frame_size_def)

lemma rd_stored_frame:
  assumes "aligned4 (frame_top s)" "mem t = stored (mem s) (frame_top s) (frame_words (frame_top s) e n (cpu s))"
    "i < frame_size (cpu s)"
  shows "rd (frame_addr_of s + 4 * of_nat i) t = rev (frame_words (frame_top s) e n (cpu s)) ! i"
proof -
  let ?ws = "frame_words (frame_top s) e n (cpu s)"
  have len: "length ?ws = frame_size (cpu s)" by (rule frame_words_length)
  have small: "frame_size (cpu s) \<le> 16" by (simp add: frame_size_def)
  define j where "j = length ?ws - Suc i"
  have j: "j < length ?ws" "i + Suc j = length ?ws" using assms(3) len by (auto simp: j_def)
  have "frame_addr_of s = frame_top s - 4 * of_nat (length ?ws)" by (simp add: frame_addr_top len)
  also have "\<dots> = frame_top s - 4 * of_nat (i + Suc j)" by (simp only: j(2))
  finally have "frame_addr_of s + 4 * of_nat i = frame_top s - 4 * of_nat (Suc j)"
    by (simp add: algebra_simps)
  moreover have "rev ?ws ! i = ?ws ! j" using assms(3) len by (simp add: rev_nth j_def)
  ultimately show ?thesis
    unfolding rd_def assms(2) using stored_nth [OF assms(1) j(1)] len small by simp
qed

lemma frame_saved_stored:
  assumes "aligned4 (frame_top s)" "mem t = stored (mem s) (frame_top s) (frame_words (frame_top s) e n (cpu s))"
  shows "frame_saved (frame_addr_of s) n (cpu s) t"
proof -
  note rd = rd_stored_frame [OF assms]
  show ?thesis
    using rd [of 0] rd [of 1] rd [of 2] rd [of 3] rd [of 5] rd [of 6] rd [of 7] rd [of 8] rd [of 9]
      rd [of 11] rd [of 12] rd [of 13] rd [of 14] rd [of 15]
    by (simp add: frame_saved_def frame_words_def rev_nth frame_size_def)
qed

text \<open>The trap frame pointer of the current task is not a word of the frame.\<close>

definition frame_clear :: "'a task_state_scheme \<Rightarrow> bool" where
  "frame_clear s \<longleftrightarrow> aligned4 (frame_top s) \<and> (current_task s \<noteq> 0 \<longrightarrow>
     (\<forall>i<frame_size (cpu s). apart32 (task_trapframe (current_task s)) (frame_addr_of s + 4 * of_nat i)))"

lemma entry_frame:
  fixes n e :: u32 and s :: "'a task_state_scheme"
  assumes "frame_clear s"
  defines "t \<equiv> stub_entry n (push e (cli (gate_entry None s)))"
  shows "frame_saved (frame_addr_of s) n (cpu s) t"
    "current_task s \<noteq> 0 \<Longrightarrow> rd (task_trapframe (current_task s)) t = frame_addr_of s"
    "r_esp (cpu t) = frame_addr_of s" "current_task t = current_task s"
proof -
  let ?u = "s\<lparr>int_flag := False, mem := stored (mem s) (frame_top s) (frame_words (frame_top s) e n (cpu s)),
          cpu := (cpu s)\<lparr>r_cs := 8, r_ss := (if user_mode (cpu s) then tss_ss0 (tss_region s) else r_ss (cpu s)),
            r_esp := frame_addr_of s, r_ds := GDT_KERNEL_DATA_SEG\<rparr>\<rparr>"
  have e: "t = task_update_trapframe (frame_addr_of s) ?u"
    unfolding t_def irq_entry_eq ..
  have "frame_saved (frame_addr_of s) n (cpu s) ?u"
    using assms(1) by (intro frame_saved_stored) (simp_all add: frame_clear_def)
  then show "frame_saved (frame_addr_of s) n (cpu s) t"
    using assms(1) unfolding e
    by (elim frame_saved_cong) (simp add: task_update_trapframe_def frame_clear_def rd_wr_apart)
  show "current_task s \<noteq> 0 \<Longrightarrow> rd (task_trapframe (current_task s)) t = frame_addr_of s"
    "r_esp (cpu t) = frame_addr_of s" "current_task t = current_task s"
    unfolding e by (simp_all add: task_update_trapframe_def wr_def rd_def)
qed

lemmas irq_entry_frame = entry_frame [where e = 0, folded irq_entry_def]

lemma irq_return_cpu:
  assumes "frame_saved tf n r s"
  shows "cpu (irq_return tf s) = resumed tf r (cpu s)" "mem (irq_return tf s) = mem s"
    "int_flag (irq_return tf s) = bit (r_eflags r) 9"
  using assms
  by (simp_all add: frame_saved_def irq_return_def popad_def iret_def resumed_def user_mode_def Let_def sti_def
      rd_def wr_def add.commute)

section \<open>Properties\<close>

text \<open>
  C20: a key press is invisible to the code it interrupts. In kernel or in user mode, the interrupt saves
  every register on the kernel stack, records the frame in the current task, runs the keyboard
  handler, which has exactly its effect on modifiers and buffer, and returns with all registers as they were.
\<close>

theorem keyboard_interrupt_transparent:
  assumes "frame_clear s" "idt_handlers s 33 = Isr_key_press" "kb_inv s" "0 < kb_room s"
  shows "\<exists>t. irq_stub 33 s = Inr (Return, t) \<and> cpu t = cpu s \<and>
    kb_abs t = abs_press (port_in s 0x60) (kb_abs s) \<and>
    (current_task s \<noteq> 0 \<longrightarrow> rd (task_trapframe (current_task s)) t = frame_addr_of s)"
proof -
  let ?e = "outb 0x20 0x20 (irq_entry 33 s)"
  note e = irq_entry_frame [OF assms(1), of 33]
  have same: "keyboard ?e = keyboard s" "kb_state ?e = kb_state s" "port_in ?e = port_in s"
    "idt_handlers ?e = idt_handlers s" "cpu ?e = cpu (irq_entry 33 s)" "mem ?e = mem (irq_entry 33 s)"
    by (simp_all add: irq_entry_def irq_entry_eq task_update_trapframe_def wr_def outb_def)
  have inv: "kb_inv ?e" "0 < kb_room ?e" "kb_queue ?e = kb_queue s"
    using kb_inv_cong [OF same(1)] assms(3,4) by simp_all
  obtain u where u: "isr_key_press ?e = Inr ((), u)" "kb_state u = mod_step (port_in ?e 0x60) (kb_state ?e)"
    "kb_queue u = kb_queue ?e @ keys_of (port_in ?e 0x60) (kb_state ?e)" "mem u = mem ?e" "cpu u = cpu ?e"
    by (rule isr_key_press_state [OF inv(1,2)]) blast
  have rdu: "rd a u = rd a (irq_entry 33 s)" for a by (simp add: rd_def u(4) same(6))
  have fs: "frame_saved (frame_addr_of s) 33 (cpu s) u"
    using e(1) by (rule frame_saved_cong) (simp add: rdu)
  let ?t = "irq_return (frame_addr_of s) u"
  have "rd (frame_addr_of s + 36) (irq_entry 33 s) = 33" using e(1) by (simp add: frame_saved_def)
  then have "irq_stub 33 s = Inr (Return, ?t)"
    using u(1) same(4) assms(2) by (simp add: irq_stub_def irq_handler_def e(3) Let_def call_handler_def)
  moreover have "cpu ?t = cpu s"
    using irq_return_cpu(1) [OF fs] u(5) same(5)
    by (simp add: resumed_def frame_addr_of_def frame_top_def irq_entry_def irq_entry_eq task_update_trapframe_def wr_def)
  moreover have "kb_abs ?t = abs_press (port_in s 0x60) (kb_abs s)"
    using u(2,3) inv(3) same(2,3)
    by (simp add: kb_abs_def abs_press_def kb_queue_def irq_return_def Let_def sti_def)
  moreover have "current_task s \<noteq> 0 \<longrightarrow> rd (task_trapframe (current_task s)) ?t = frame_addr_of s"
    using e(2) rdu irq_return_cpu(2) [OF fs] by (simp add: rd_def)
  ultimately show ?thesis by blast
qed

text \<open>Kernel code with its stack at 0x9000, while the task structure at 0x1000 is current.\<close>

definition example_interrupted :: "'a kb_kernel_state_scheme \<Rightarrow> 'a kb_kernel_state_scheme" where
  "example_interrupted s = s\<lparr>cpu := (cpu s)\<lparr>r_cs := 8, r_esp := 0x9000\<rparr>, current_task := 0x1000,
     idt_handlers := (\<lambda>_. NULL_handler)(32 := Pic_callback, 33 := Isr_key_press), keyboard := empty_keyboard,
     prev_int := 0xFFFFFFFF\<rparr>"

lemma all_frame_words: "(\<forall>i<frame_size r. P i) \<longleftrightarrow> P 0 \<and> P 1 \<and> P 2 \<and> P 3 \<and> P 4 \<and> P 5 \<and> P 6 \<and> P 7 \<and> P 8 \<and> P 9 \<and>
    P 10 \<and> P 11 \<and> P 12 \<and> P 13 \<and> (user_mode r \<longrightarrow> P 14 \<and> P 15)"
proof -
  have "i < 14 \<longleftrightarrow> i \<in> {0, 1, 2, 3, 4, 5, 6, 7, 8, 9, 10, 11, 12, 13}" for i :: nat by (auto simp: less_Suc_eq numeral_eq_Suc)
  moreover have "i < 16 \<longleftrightarrow> i < 14 \<or> i = 14 \<or> i = 15" for i :: nat by auto
  ultimately show ?thesis by (simp add: frame_size_def all_conj_distrib)
qed

lemma example_interrupted_facts:
  "frame_clear (example_interrupted s)" "frame_addr_of (example_interrupted s) = 0x8FC8"
  "\<not> user_mode (cpu (example_interrupted s))"
proof -
  show m: "\<not> user_mode (cpu (example_interrupted s))" by (simp add: user_mode_def example_interrupted_def)
  then have "frame_top (example_interrupted s) = 0x9000"
    by (simp add: frame_top_def) (simp add: example_interrupted_def)
  then show "frame_addr_of (example_interrupted s) = 0x8FC8" "frame_clear (example_interrupted s)"
    using m by (simp_all add: frame_addr_of_def frame_clear_def all_frame_words aligned4_def apart32_def)
      (simp_all add: example_interrupted_def task_trapframe_def)
qed

theorem keyboard_interrupt_transparent_witness:
  "\<forall>s :: kb_kernel_state. \<exists>t. irq_stub 33 (example_interrupted s) = Inr (Return, t) \<and>
     cpu t = cpu (example_interrupted s)"
proof
  fix s :: kb_kernel_state
  let ?s = "example_interrupted s"
  have "kb_inv ?s" "kb_room ?s = 4096" "idt_handlers ?s 33 = Isr_key_press"
    by (simp_all add: example_interrupted_def kb_inv_def kb_room_def empty_keyboard_def KB_BUFF_ELEMENTS_def)
  with keyboard_interrupt_transparent [OF example_interrupted_facts(1) [of s]]
  show "\<exists>t. irq_stub 33 ?s = Inr (Return, t) \<and> cpu t = cpu ?s" by auto
qed

text \<open>
  A preempted task continues exactly where it was. The timer interrupt saves the registers of the current
  task in a frame and records the frame in the task; whenever the processor is given back to the
  task, with frame and pointer still in memory, it has all its registers again, with the interrupt
  flag set, in kernel mode and in user mode.
\<close>

theorem preempted_task_resumes:
  assumes "frame_clear s" "current_task s \<noteq> 0"
    "\<forall>i<frame_size (cpu s). rd (frame_addr_of s + 4 * of_nat i) v = rd (frame_addr_of s + 4 * of_nat i) (irq_entry 32 s)"
    "rd (task_trapframe (current_task s)) v = rd (task_trapframe (current_task s)) (irq_entry 32 s)"
    "user_mode (cpu s) \<or> r_ss (cpu v) = r_ss (cpu s)"
  shows "cpu (task_switch_asm (current_task s) v) = (cpu s)\<lparr>r_eflags := r_eflags (cpu s) OR 0x200\<rparr> \<and>
    current_task (task_switch_asm (current_task s) v) = current_task s \<and> int_flag (task_switch_asm (current_task s) v)"
proof -
  note e = irq_entry_frame [OF assms(1), of 32]
  have "frame_saved (frame_addr_of s) 32 (cpu s) v"
    using e(1) by (rule frame_saved_cong) (simp add: assms(3))
  moreover have "rd (task_trapframe (current_task s)) v = frame_addr_of s" using assms(2,4) e(2) by simp
  ultimately have "cpu (task_switch_asm (current_task s) v)
      = (resumed (frame_addr_of s) (cpu s) (cpu v))\<lparr>r_eflags := r_eflags (cpu s) OR 0x200\<rparr>"
    by (rule task_switch_cpu)
  also have "resumed (frame_addr_of s) (cpu s) (cpu v) = cpu s"
    using assms(5) by (auto simp: resumed_def frame_addr_of_def frame_top_def)
  finally show ?thesis by (simp add: task_switch_fields task_switch_interrupts)
qed

theorem preempted_task_resumes_witness:
  "\<forall>s :: kb_kernel_state. cpu (task_switch_asm 0x1000 (irq_entry 32 (example_interrupted s)))
     = (cpu (example_interrupted s))\<lparr>r_eflags := r_eflags (cpu s) OR 0x200\<rparr>"
proof
  fix s :: kb_kernel_state
  let ?s = "example_interrupted s"
  have c: "current_task ?s = 0x1000" "r_eflags (cpu ?s) = r_eflags (cpu s)" by (simp_all add: example_interrupted_def)
  have "r_ss (cpu (irq_entry 32 ?s)) = r_ss (cpu ?s)"
    using example_interrupted_facts(3) [of s]
    by (simp add: irq_entry_def irq_entry_eq task_update_trapframe_def wr_def)
  then show "cpu (task_switch_asm 0x1000 (irq_entry 32 ?s)) = (cpu ?s)\<lparr>r_eflags := r_eflags (cpu s) OR 0x200\<rparr>"
    using preempted_task_resumes [OF example_interrupted_facts(1) [of s], of "irq_entry 32 ?s"] c by simp
qed

lemma gate_entry_code: "cli (gate_entry (Some e) s) = push e (cli (gate_entry None s))"
  by (simp add: gate_entry_def Let_def cli_def push_eq)

text \<open>
  C38: the stub of an exception does not return to the code that raised it. Take an exception without a handler of its own,
  raised in the kernel, whose number differs from the last one, and for which the stub pushes a dummy code exactly when the
  processor pushes none. The handler prints its message and returns; then the stub takes one word too many off the
  stack, so every register is loaded from the slot of its neighbour: execution goes on at the value of the code
  segment, with the flags as code segment.
\<close>

theorem isr_stub_returns_wrong:
  assumes "frame_clear s" "\<not> user_mode (cpu s)" "unat n < 32" "n \<noteq> prev_int s"
    "idt_handlers s (unat n) = NULL_handler" "error_code = None \<longleftrightarrow> isr_err n"
  shows "\<exists>t. isr_stub error_code n s = Inr (Return, t) \<and> r_eip (cpu t) = r_cs (cpu s) \<and>
    r_cs (cpu t) = r_eflags (cpu s) \<and> r_ds (cpu t) = r_edi (cpu s) \<and> r_eax (cpu t) = n"
proof -
  define e where "e = (case error_code of None \<Rightarrow> 0 | Some e \<Rightarrow> e)"
  define f where "f = stub_entry n (push e (cli (gate_entry None s)))"
  have entry: "stub_entry n (if isr_err n then push 0 (cli (gate_entry error_code s)) else cli (gate_entry error_code s)) = f"
    using assms(6) by (cases error_code) (simp_all add: f_def e_def gate_entry_code)
  note fr = entry_frame [OF assms(1), where n = n and e = e, folded f_def]
  have n: "rd (frame_addr_of s + 36) f = n" using fr(1) by (simp add: frame_saved_def)
  have same: "prev_int f = prev_int s" "idt_handlers f = idt_handlers s"
    by (simp_all add: f_def irq_entry_eq task_update_trapframe_def wr_def)
  define u where "u = tty_printstr (litn '')'') (tty_printstr (lit (int_msgs ! unat n))
    (tty_printstr (lit '' ('') (tty_printint n (tty_printstr (lit ''Received interrupt: '') (f\<lparr>prev_int := n\<rparr>)))))"
  have "prints (f\<lparr>prev_int := n\<rparr>) u"
    unfolding u_def by (intro prints_trans [OF _ prints_printstr] prints_trans [OF _ prints_printint] prints_printstr)
  then have k: "same_kernel (f\<lparr>prev_int := n\<rparr>) u" by (rule prints_same_kernel)
  then have m: "mem u = mem f" and h: "idt_handlers u = idt_handlers f"
    unfolding same_kernel_def by (cases u; cases f; simp)+
  have "isr_handler n f = Inr (Return, u)"
    using assms(3-5) same h by (simp add: isr_handler_def Let_def int_msgs_def u_def)
  then have "isr_stub error_code n s = Inr (Return, isr_return (frame_addr_of s) u)"
    unfolding isr_stub_def Let_def entry using n fr(3) by simp
  moreover have "frame_saved (frame_addr_of s) n (cpu s) u"
    using fr(1) by (rule frame_saved_cong) (simp add: rd_def m)
  ultimately show ?thesis
    by (simp add: isr_return_def iret_def popad_def Let_def sti_def frame_saved_def rd_def add.commute)
qed

text \<open>A breakpoint, for which the stub pushes the code, and a general protection fault, for which the processor does.\<close>

theorem isr_stub_returns_wrong_witness:
  "\<forall>s :: kb_kernel_state. (\<exists>t. isr_stub None 3 (example_interrupted s) = Inr (Return, t) \<and> r_eip (cpu t) = 8) \<and>
     (\<exists>t. isr_stub (Some 0) 13 (example_interrupted s) = Inr (Return, t) \<and> r_eip (cpu t) = 8)"
proof
  fix s :: kb_kernel_state
  let ?s = "example_interrupted s"
  have "idt_handlers ?s 3 = NULL_handler" "idt_handlers ?s 13 = NULL_handler" "prev_int ?s = 0xFFFFFFFF" "r_cs (cpu ?s) = 8"
    by (simp_all add: example_interrupted_def)
  then show "(\<exists>t. isr_stub None 3 ?s = Inr (Return, t) \<and> r_eip (cpu t) = 8) \<and>
     (\<exists>t. isr_stub (Some 0) 13 ?s = Inr (Return, t) \<and> r_eip (cpu t) = 8)"
    using isr_stub_returns_wrong [OF example_interrupted_facts(1,3) [of s], of 3 None]
      isr_stub_returns_wrong [OF example_interrupted_facts(1,3) [of s], of 13 "Some 0"]
    by (auto simp: isr_err_def)
qed

text \<open>The frame, the task structures and their trap frame pointers do not overlap.\<close>

definition frame_off_ring :: "u32 list \<Rightarrow> 'a task_state_scheme \<Rightarrow> bool" where
  "frame_off_ring ts s \<longleftrightarrow> aligned4 (frame_top s) \<and> (\<forall>u\<in>set ts. aligned4 u \<and>
     (\<forall>i<frame_size (cpu s). frame_addr_of s + 4 * of_nat i \<noteq> task_next_task u \<and> frame_addr_of s + 4 * of_nat i \<noteq> task_trapframe u) \<and>
     (\<forall>t\<in>set ts. task_trapframe t \<noteq> task_next_task u))"

lemma aligned4_task_fields:
  assumes "aligned4 u"
  shows "aligned4 (task_next_task u)" "aligned4 (task_trapframe u)"
  using aligned4_add [OF assms, of 36] aligned4_add [OF assms, of 4]
  by (simp_all add: task_next_task_def task_trapframe_def) (simp_all add: aligned4_def)

lemma aligned4_frame_word: "aligned4 (frame_top s) \<Longrightarrow> aligned4 (frame_addr_of s + 4 * of_nat i)"
proof -
  assume a: "aligned4 (frame_top s)"
  have "frame_addr_of s + 4 * of_nat i = frame_top s - 4 * (of_nat (frame_size (cpu s)) - of_nat i)"
    by (simp add: frame_addr_top algebra_simps)
  then show ?thesis using aligned4_minus [OF a] by metis
qed

text \<open>The entry writes its frame and the trap frame pointer, and nothing else.\<close>

lemma rd_irq_entry:
  assumes "aligned4 (frame_top s)" "aligned4 (task_trapframe (current_task s))" "aligned4 x"
    "\<And>i. i < frame_size (cpu s) \<Longrightarrow> frame_addr_of s + 4 * of_nat i \<noteq> x"
  shows "rd x (irq_entry n s) = (if current_task s \<noteq> 0 \<and> x = task_trapframe (current_task s)
    then frame_addr_of s else rd x s)"
proof -
  let ?l = "frame_size (cpu s)"
  have "load32 (stored (mem s) (frame_top s) (frame_words (frame_top s) 0 n (cpu s))) x = rd x s"
    unfolding rd_def
  proof (rule stored_other [OF assms(1,3)], intro allI impI)
    fix i assume "i < length (frame_words (frame_top s) 0 n (cpu s))"
    then have "?l - Suc i < ?l" "Suc i \<le> ?l" by (auto simp: frame_words_length)
    moreover from this(2) have "frame_addr_of s + 4 * of_nat (?l - Suc i) = frame_top s - 4 * of_nat (Suc i)"
      by (simp add: frame_addr_top of_nat_diff algebra_simps)
    ultimately show "x \<noteq> frame_top s - 4 * of_nat (Suc i)" using assms(4) by metis
  qed
  then show ?thesis
    using assms(2,3)
    by (simp add: irq_entry_def irq_entry_eq task_update_trapframe_def rd_wr_aligned) (simp add: rd_def)
qed

lemma irq_entry_ring:
  assumes "schedulable ts s" "frame_off_ring ts s" "current_task s \<in> set ts"
  shows "schedulable ts (irq_entry n s)" "frame_clear s"
proof -
  let ?c = "current_task s" and ?f = "frame_addr_of s" and ?e = "irq_entry n s"
  have al: "aligned4 (frame_top s)" "\<And>u. u \<in> set ts \<Longrightarrow> aligned4 u"
    using assms(2) by (simp_all add: frame_off_ring_def)
  note fields = aligned4_task_fields [OF al(2)]
  have fw: "?f + 4 * of_nat i \<noteq> task_next_task u" "?f + 4 * of_nat i \<noteq> task_trapframe u"
    if "u \<in> set ts" "i < frame_size (cpu s)" for u i
    using assms(2) that by (simp_all add: frame_off_ring_def)
  have tn: "task_trapframe t \<noteq> task_next_task u" if "t \<in> set ts" "u \<in> set ts" for t u
    using assms(2) that by (simp add: frame_off_ring_def)
  have nz: "?c \<noteq> 0" using assms(1,3) by (auto simp: schedulable_def task_ring_def)
  show fc: "frame_clear s"
    using al(1) assms(3) fields(2) fw(2) aligned4_frame_word [OF al(1)]
    by (auto simp: frame_clear_def intro!: aligned4_apart32) metis
  have rde: "rd x ?e = (if x = task_trapframe ?c then ?f else rd x s)"
    if "aligned4 x" "\<And>i. i < frame_size (cpu s) \<Longrightarrow> ?f + 4 * of_nat i \<noteq> x" for x
    using rd_irq_entry [OF al(1) fields(2) [OF assms(3)] that] nz by simp
  have nx: "rd (task_next_task u) ?e = rd (task_next_task u) s"
    and tf: "rd (task_trapframe u) ?e = (if u = ?c then ?f else rd (task_trapframe u) s)"
    if "u \<in> set ts" for u
    using rde [OF fields(1) [OF that] fw(1) [OF that]] rde [OF fields(2) [OF that] fw(2) [OF that]]
      tn [OF assms(3) that] by (auto simp: task_trapframe_def)
  have "task_list_head ?e = task_list_head s" "task_list_tail ?e = task_list_tail s"
    "scheduler_initialized ?e = scheduler_initialized s"
    by (simp_all add: irq_entry_def irq_entry_eq task_update_trapframe_def wr_def)
  moreover have "apart32 (tf_eflags ?f) (task_next_task u) \<and> apart32 (tf_eflags ?f) (task_trapframe u)"
    if "u \<in> set ts" for u
    using fw [OF that, of 13] fields [OF that] aligned4_frame_word [OF al(1), of 13]
    by (simp add: tf_eflags_def aligned4_apart32 frame_size_def)
  ultimately show "schedulable ts ?e"
    using assms(1) nx tf by (simp add: schedulable_def task_ring_def frames_apart_def)
qed

lemma tick_cong:
  fixes s t :: "'a kb_kernel_state_scheme"
  assumes "task_state.more t = task_state.more s"
  shows "tick t = tick s"
  using assms by (cases s; cases t) simp

text \<open>
  A timer interrupt preempts the current task. With the tasks in a ring and the frame apart from the
  task structures, the interrupt saves the current task's frame, acknowledges the interrupt, counts the
  tick and resumes the next task of the ring, with interrupts on and the ring intact, so the next
  timer interrupt finds the same situation.
\<close>

theorem timer_interrupt_preempts:
  assumes "schedulable ts s" "frame_off_ring ts s" "i < length ts" "current_task s = ts ! i"
    "idt_handlers s 32 = Pic_callback" "\<not> pic_print s"
  shows "\<exists>t. irq_stub 32 s = Inr (Resume, t) \<and> current_task t = ts ! (Suc i mod length ts) \<and>
    tick t = tick s + 1 \<and> port_out t = (0x20, 0x20) # port_out s \<and> int_flag t \<and> schedulable ts t \<and>
    rd (task_trapframe (ts ! i)) t = frame_addr_of s"
proof -
  have "current_task s \<in> set ts" using assms(3,4) by simp
  moreover from this have "current_task s \<noteq> 0" using assms(1) by (auto simp: schedulable_def task_ring_def)
  ultimately have cur: "current_task s \<in> set ts" "current_task s \<noteq> 0" by blast+
  note ring = irq_entry_ring(1) [OF assms(1,2) cur(1), of 32] irq_entry_ring(2) [OF assms(1,2) cur(1)]
  note e = irq_entry_frame [OF ring(2), of 32]
  let ?u = "(outb 0x20 0x20 (irq_entry 32 s))\<lparr>tick := tick s + 1\<rparr>"
  have rdu: "rd a ?u = rd a (irq_entry 32 s)" for a by (simp add: rd_def outb_def)
  have same: "tick (irq_entry 32 s) = tick s" "pic_print (irq_entry 32 s) = pic_print s"
    "idt_handlers (irq_entry 32 s) = idt_handlers s" "port_out (irq_entry 32 s) = port_out s"
    by (simp_all add: irq_entry_def irq_entry_eq task_update_trapframe_def wr_def)
  have sch: "schedulable ts ?u"
    using ring(1) by (simp add: schedulable_def task_ring_def frames_apart_def rdu) (simp add: outb_def)
  have cu: "current_task ?u = ts ! i" using e(4) assms(4) by (simp add: outb_def)
  obtain t where t: "scheduler ?u = (Resume, t)" "schedulable ts t"
    "current_task t = ts ! (Suc i mod length ts)" "int_flag t"
    "\<And>x. x \<in> set ts \<Longrightarrow> rd (task_trapframe x) t = rd (task_trapframe x) ?u" "port_out t = port_out ?u"
    "task_state.more t = task_state.more ?u"
    by (rule scheduler_next [OF sch assms(3) cu]) blast
  have "rd (frame_addr_of s + 36) (irq_entry 32 s) = 32" using e(1) by (simp add: frame_saved_def)
  then have "irq_stub 32 s = Inr (Resume, t)"
    using t(1) same assms(5,6)
    by (simp add: irq_stub_def irq_handler_def e(3) Let_def call_handler_def pic_callback_def outb_def)
  moreover have "tick t = tick s + 1" using tick_cong [OF t(7)] by simp
  moreover have "port_out t = (0x20, 0x20) # port_out s" using t(6) same(4) by (simp add: outb_def)
  moreover have "rd (task_trapframe (ts ! i)) t = frame_addr_of s"
    using t(5) [OF cur(1)] e(2) [OF cur(2)] assms(4) by (simp add: rdu)
  ultimately show ?thesis using t by blast
qed

text \<open>The two tasks of \<^const>\<open>example_tasks\<close>, the first of them running on the stack below 0x9000.\<close>

definition example_ring :: "'a kb_kernel_state_scheme \<Rightarrow> 'a kb_kernel_state_scheme" where
  "example_ring s = (example_tasks s)\<lparr>cpu := (cpu s)\<lparr>r_cs := 8, r_esp := 0x9000\<rparr>,
     idt_handlers := (\<lambda>_. NULL_handler)(32 := Pic_callback), pic_print := False\<rparr>"

theorem timer_interrupt_preempts_witness:
  "\<forall>s :: kb_kernel_state. \<exists>t. irq_stub 32 (example_ring s) = Inr (Resume, t) \<and> current_task t = 0x2000 \<and>
     tick t = tick s + 1"
proof
  fix s :: kb_kernel_state
  let ?s = "example_ring s"
  have rd: "rd a ?s = rd a (example_tasks s)" for a by (simp add: example_ring_def rd_def)
  have f: "task_list_head ?s = task_list_head (example_tasks s)" "task_list_tail ?s = task_list_tail (example_tasks s)"
    "scheduler_initialized ?s = scheduler_initialized (example_tasks s)" "current_task ?s = 0x1000"
    "idt_handlers ?s 32 = Pic_callback" "\<not> pic_print ?s" "tick ?s = tick s" "\<not> user_mode (cpu ?s)"
    by (simp_all add: example_ring_def example_tasks_def wr_def user_mode_def)
  have sch: "schedulable [0x1000, 0x2000] ?s"
    using example_tasks_schedulable [of s]
    by (simp add: schedulable_def task_ring_def frames_apart_def rd f(1-3))
  have ft: "frame_top ?s = 0x9000" "frame_addr_of ?s = 0x8FC8"
    using f(8) by (simp_all add: frame_addr_of_def frame_top_def) (simp_all add: example_ring_def)
  have "frame_off_ring [0x1000, 0x2000] ?s"
    by (simp add: frame_off_ring_def ft all_frame_words task_next_task_def task_trapframe_def aligned4_def)
  then show "\<exists>t. irq_stub 32 ?s = Inr (Resume, t) \<and> current_task t = 0x2000 \<and> tick t = tick s + 1"
    using timer_interrupt_preempts [OF sch, of 0] f by auto
qed

end
