(* ===== verification/Kshell.thy ===== *)
theory Kshell
  imports Dispatch Cstring
begin

text \<open>
  The kernel console of \<^verbatim>\<open>kernel/terminal/kshell.c\<close>: its commands, the interpretation of a line, and
  the loop that reads keys into the line. The line is a local array of the console; it lives in the byte
  memory at an address the definitions take as an argument. The console is shown to run the command whose name
  the line holds, and to keep to its array however its rounds and the keyboard interrupt interleave.
\<close>

section \<open>State and operations\<close>

datatype command =
    Cmd_help | Cmd_clear | Cmd_exit | Cmd_demo | Cmd_amogus | Cmd_print_tick | Cmd_reboot

record shell_command =
  cmd_name :: string
  cmd_msg :: string
  cmd_cmd :: command

record shell_state = kb_kernel_state +
  run_cmd :: "command option"

definition commands :: "shell_command list" where
  "commands =
     [\<lparr>cmd_name = ''help'', cmd_msg = ''prints this message'', cmd_cmd = Cmd_help\<rparr>,
      \<lparr>cmd_name = ''clear'', cmd_msg = ''clears the screen'', cmd_cmd = Cmd_clear\<rparr>,
      \<lparr>cmd_name = ''exit'', cmd_msg = ''exit the console'', cmd_cmd = Cmd_exit\<rparr>,
      \<lparr>cmd_name = ''demo'', cmd_msg = ''run a demo'', cmd_cmd = Cmd_demo\<rparr>,
      \<lparr>cmd_name = ''amogus'', cmd_msg = ''sus'', cmd_cmd = Cmd_amogus\<rparr>,
      \<lparr>cmd_name = ''tick'', cmd_msg = ''print timer tick'', cmd_cmd = Cmd_print_tick\<rparr>,
      \<lparr>cmd_name = ''reboot'', cmd_msg = ''reboot computer'', cmd_cmd = Cmd_reboot\<rparr>]"

definition amogus :: "u8 list" where
  "amogus = concat (map (\<lambda>l. map of_char l @ [10])
     [''   ###            '',
      ''  ##--            '',
      ''==##---         =='',
      ''==##---      $  =='',
      ''==#####      $  =='',
      ''==#####    #####=='',
      ''  ## ##    ## ##  '',
      ''  ## ##    ## ##  '']) @ [0]"

definition cmd_help :: "'a shell_state_scheme \<Rightarrow> 'a shell_state_scheme" where
  "cmd_help s = fold (\<lambda>c s.
     let s = tty_putc 9 s;
         s = tty_printstr (lit (cmd_name c)) s;
         s = tty_printstr [9, 0] s;
         s = tty_printstr (lit (cmd_msg c)) s
     in tty_putc 10 s) commands s"

definition cmd_clear :: "'a shell_state_scheme \<Rightarrow> 'a shell_state_scheme" where
  "cmd_clear s = tty_clear s"

definition cmd_exit :: "'a shell_state_scheme \<Rightarrow> ('a shell_state_scheme, bool) result" where
  "cmd_exit s = Inl (Spin, tty_printstr (litn ''    done!'') s)"

definition cmd_demo :: "'a shell_state_scheme \<Rightarrow> 'a shell_state_scheme" where
  "cmd_demo s = tty_printstr (litn ''demo'') s"

definition cmd_amogus :: "'a shell_state_scheme \<Rightarrow> 'a shell_state_scheme" where
  "cmd_amogus s = tty_printstr amogus s"

definition cmd_print_tick :: "'a shell_state_scheme \<Rightarrow> ('a shell_state_scheme, bool) result" where
  "cmd_print_tick s = bindR (kprintf (litn ''Tick: %u'') [VInt (pic_get_tick s)] s) (\<lambda>_ s. Inr (True, s))"

definition cmd_reboot :: "'a shell_state_scheme \<Rightarrow> 'a shell_state_scheme" where
  "cmd_reboot s = outb 0x64 0xFE s"

text \<open>The call through the pointer \<^verbatim>\<open>run_cmd\<close>; every command returns true, or not at all.\<close>

definition run_command :: "command \<Rightarrow> 'a shell_state_scheme \<Rightarrow> ('a shell_state_scheme, bool) result" where
  "run_command c s =
     (case c of
        Cmd_help \<Rightarrow> Inr (True, cmd_help s)
      | Cmd_clear \<Rightarrow> Inr (True, cmd_clear s)
      | Cmd_exit \<Rightarrow> cmd_exit s
      | Cmd_demo \<Rightarrow> Inr (True, cmd_demo s)
      | Cmd_amogus \<Rightarrow> Inr (True, cmd_amogus s)
      | Cmd_print_tick \<Rightarrow> cmd_print_tick s
      | Cmd_reboot \<Rightarrow> Inr (True, cmd_reboot s))"

definition command_start :: "'a shell_state_scheme \<Rightarrow> 'a shell_state_scheme" where
  "command_start s = tty_printstr (lit ''$> '') s"

text \<open>
  The loop that strips the line. With no character left it reads the byte before the array, which has no meaning.
\<close>

primrec strip_cmd :: "u32 \<Rightarrow> nat \<Rightarrow> bytes \<Rightarrow> bytes + bytes \<times> nat" where
  "strip_cmd cmd 0 m = Inl m"
| "strip_cmd cmd (Suc n) m =
     (if isspace (sint (m (cmd + of_nat n))) = 0
      then strip_cmd cmd n (m(cmd + of_nat n := 0))
      else Inr (m, Suc n))"

text \<open>The loop over the commands; \<^verbatim>\<open>strcmp\<close> on an area without an end would not return.\<close>

fun find_command ::
  "symbols \<Rightarrow> nat \<Rightarrow> shell_command list \<Rightarrow> u32 \<Rightarrow> 'a shell_state_scheme \<Rightarrow> ('a shell_state_scheme, unit) result" where
  "find_command L i [] cmd s = Inr ((), s)"
| "find_command L i (c # cs) cmd s =
     (case strcmp (mem s) (sym_command_name L i) cmd of
        None \<Rightarrow> Inl (Spin, s)
      | Some r \<Rightarrow> if r = 0 then Inr ((), s\<lparr>run_cmd := Some (cmd_cmd c)\<rparr>)
                 else find_command L (Suc i) cs cmd s)"

definition command_run ::
  "symbols \<Rightarrow> u32 \<Rightarrow> u32 \<Rightarrow> 'a shell_state_scheme \<Rightarrow> ('a shell_state_scheme, unit) result" where
  "command_run L cmd len s =
     (case strip_cmd cmd (unat len) (mem s) of
        Inl m \<Rightarrow> Inl (Undefined, s\<lparr>mem := m\<rparr>)
      | Inr (m, len) \<Rightarrow>
          bindR (find_command L 0 commands cmd (s\<lparr>mem := m, run_cmd := None\<rparr>)) (\<lambda>_ s.
            case run_cmd s of
              Some c \<Rightarrow> bindR (run_command c s) (\<lambda>_ s. Inr ((), s))
            | None \<Rightarrow>
                let s = tty_printstr (map of_char ''Unknown command '' @ [39, 0]) s;
                    s = tty_write (map (\<lambda>i. mem s (cmd + of_nat i)) [0..<len]) len s
                in Inr ((), tty_printstr [39, 10, 0] s)))"

definition sizeof_cmd :: u32 where "sizeof_cmd = 1024"

text \<open>What the console does before its loop, and one round of the loop, from one length of the line to the next.\<close>

definition kshell_start :: "u32 \<Rightarrow> 'a shell_state_scheme \<Rightarrow> ('a shell_state_scheme, u32) result" where
  "kshell_start cmd s =
     bindR (kprintf ([10] @ litn ''Welcome to AOSIS: Run 'help' to get started!'') [] s) (\<lambda>_ s.
     let s = command_start s
     in Inr (0, s\<lparr>mem := memset (mem s) cmd 0 sizeof_cmd\<rparr>))"

definition kshell_round ::
  "symbols \<Rightarrow> u32 \<Rightarrow> u32 \<Rightarrow> 'a shell_state_scheme \<Rightarrow> ('a shell_state_scheme, u32) result" where
  "kshell_round L cmd cmd_len s =
     bindR (kb_get_key True (halt s)) (\<lambda>(ok, k) s.
     case k of
       None \<Rightarrow> Inr (cmd_len, s)
     | Some k \<Rightarrow>
         if key_key k = KEY_BACKSPACE \<and> cmd_len > 0 then
           bindR (kb_get_key False s) (\<lambda>_ s.
             let s = s\<lparr>mem := (mem s)(cmd + (cmd_len - 1) := 0)\<rparr>
             in Inr (cmd_len - 1, tty_deleteprev s))
         else if key_key k = KEY_ENTER then
           bindR (command_run L cmd cmd_len (tty_putc 10 s)) (\<lambda>_ s.
             let s = s\<lparr>mem := memset (mem s) cmd 0 sizeof_cmd\<rparr>
             in Inr (0, command_start s))
         else if isprint (sint (key_key k)) = 0 \<or> isspace (sint (key_key k)) = 0 then
           if cmd_len \<ge> sizeof_cmd then Inr (cmd_len, s)
           else
             let s = s\<lparr>mem := (mem s)(cmd + cmd_len := ucast (key_key k))\<rparr>
             in Inr (cmd_len + 1, tty_putc (ucast (key_key k)) s)
         else Inr (cmd_len, s))"

section \<open>Stripping the line\<close>

definition blank :: "u8 \<Rightarrow> bool" where
  "blank c \<longleftrightarrow> isspace (sint c) = 0"

definition trim :: "u8 list \<Rightarrow> u8 list" where
  "trim xs = rev (dropWhile blank (rev xs))"

text \<open>The first \<open>n\<close> characters of the line.\<close>

definition line :: "u32 \<Rightarrow> nat \<Rightarrow> bytes \<Rightarrow> u8 list" where
  "line cmd n m = map (\<lambda>i. m (cmd + of_nat i)) [0..<n]"

lemma line_simps: "line cmd 0 m = []" "line cmd (Suc n) m = line cmd n m @ [m (cmd + of_nat n)]"
  "length (line cmd n m) = n"
  by (simp_all add: line_def)

lemma trim_snoc: "trim (xs @ [c]) = (if blank c then trim xs else xs @ [c])"
  by (simp add: trim_def)

lemma trim_prefix: "take (length (trim xs)) xs = trim xs" "length (trim xs) \<le> length xs"
  by (induction xs rule: rev_induct) (auto simp: trim_snoc trim_def)

lemma trim_eq_Nil: "trim xs = [] \<longleftrightarrow> (\<forall>c\<in>set xs. blank c)"
  by (simp add: trim_def)

lemma unat_diff_of_nat: "n < 2 ^ 32 \<Longrightarrow> a = cmd + of_nat n \<longleftrightarrow> unat (a - cmd :: u32) = n"
proof
  assume n: "n < 2 ^ 32"
  show "unat (a - cmd) = n" if "a = cmd + of_nat n" using n that by (simp only: add_diff_cancel_left' unat_of_nat) simp
  show "a = cmd + of_nat n" if "unat (a - cmd) = n" using that by auto
qed

lemma line_upd: "n \<le> i \<Longrightarrow> i < 2 ^ 32 \<Longrightarrow> line cmd n (m(cmd + of_nat i := v)) = line cmd n m"
proof -
  assume "n \<le> i" "i < 2 ^ 32"
  then have "cmd + of_nat x \<noteq> cmd + of_nat i" if "x < n" for x
    using that add_of_nat_eq_iff [of x i cmd] by linarith
  then show ?thesis by (simp add: line_def)
qed

text \<open>The memory after stripping: NULs from the end of the trimmed line to the end of the line.\<close>

definition stripped :: "u32 \<Rightarrow> nat \<Rightarrow> bytes \<Rightarrow> bytes" where
  "stripped cmd n m = (\<lambda>a. if length (trim (line cmd n m)) \<le> unat (a - cmd) \<and> unat (a - cmd) < n then 0 else m a)"

lemma strip_cmd_line:
  assumes "n < 2 ^ 32"
  shows "strip_cmd cmd n m = (if trim (line cmd n m) = [] then Inl (stripped cmd n m)
    else Inr (stripped cmd n m, length (trim (line cmd n m))))"
  using assms
proof (induction n arbitrary: m)
  case 0
  then show ?case by (simp add: line_simps trim_def stripped_def)
next
  case (Suc n)
  let ?c = "m (cmd + of_nat n)"
  show ?case
  proof (cases "blank ?c")
    case True
    let ?m = "m(cmd + of_nat n := 0)"
    have l: "line cmd n ?m = line cmd n m" using Suc.prems by (intro line_upd) auto
    have "stripped cmd n ?m = stripped cmd (Suc n) m"
    proof
      fix a
      have "a = cmd + of_nat n \<longleftrightarrow> unat (a - cmd) = n"
        using unat_diff_of_nat [of n a cmd] Suc.prems by simp
      moreover have "length (trim (line cmd n m)) \<le> n" using trim_prefix(2) [of "line cmd n m"] by (simp add: line_simps)
      ultimately show "stripped cmd n ?m a = stripped cmd (Suc n) m a"
        using True by (auto simp: stripped_def l line_simps trim_snoc)
    qed
    moreover have "strip_cmd cmd (Suc n) m = strip_cmd cmd n ?m" using True by (simp add: blank_def)
    moreover have "n < 2 ^ 32" using Suc.prems by simp
    note IH = Suc.IH [OF this, of ?m]
    ultimately show ?thesis using True unfolding l line_simps trim_snoc by (simp only: IH l if_True)
  next
    case False
    then have "stripped cmd (Suc n) m = m" by (intro ext) (auto simp: stripped_def line_simps trim_snoc)
    with False show ?thesis by (simp add: line_simps trim_snoc blank_def)
  qed
qed

section \<open>Finding the command\<close>

lemma strcmp_from_prefix:
  assumes "cstring_at m p xs" "k \<le> length xs" "\<forall>i<k. m (q + of_nat i) = m (p + of_nat i)"
  shows "\<exists>r. strcmp_from m p q (of_nat k) = Some r \<and> (r = 0 \<longleftrightarrow> (\<forall>i\<le>length xs. m (q + of_nat i) = m (p + of_nat i)))"
  using assms(2,3)
proof (induction "length xs - k" arbitrary: k rule: less_induct)
  case less
  have px: "m (p + of_nat k) = 0 \<longleftrightarrow> k = length xs"
    using assms(1) less.prems(1) by (auto simp: cstring_at_def dest: le_neq_implies_less)
  show ?case
  proof (cases "m (q + of_nat k) = m (p + of_nat k) \<and> k < length xs")
    case True
    then have eq: "\<forall>i<Suc k. m (q + of_nat i) = m (p + of_nat i)" using less.prems(2) by (auto simp: less_Suc_eq)
    have "length xs - Suc k < length xs - k" "Suc k \<le> length xs" using True by (simp_all add: diff_less_mono2)
    from less.hyps [OF this eq]
    obtain r where "strcmp_from m p q (of_nat k + 1) = Some r"
      "r = 0 \<longleftrightarrow> (\<forall>i\<le>length xs. m (q + of_nat i) = m (p + of_nat i))"
      by (auto simp: add.commute)
    moreover have "strcmp_from m p q (of_nat k) = strcmp_from m p q (of_nat k + 1)"
      using True px by (subst strcmp_from.simps) simp
    ultimately show ?thesis by simp
  next
    case False
    have nz: "sint a - sint b = 0 \<longleftrightarrow> b = a" for a b :: u8
      by (auto dest: signed_word_eqI)
    have "strcmp_from m p q (of_nat k) = Some (sint (m (p + of_nat k)) - sint (m (q + of_nat k)))"
      using False px less.prems(1) by (subst strcmp_from.simps) auto
    moreover have "m (q + of_nat k) = m (p + of_nat k) \<longleftrightarrow> (\<forall>i\<le>length xs. m (q + of_nat i) = m (p + of_nat i))"
      using False less.prems by (auto simp: le_less)
    ultimately show ?thesis using nz by simp
  qed
qed

text \<open>The names of the commands are in memory, away from the line; the line is full of other characters than NUL.\<close>

definition names_at :: "symbols \<Rightarrow> u32 \<Rightarrow> bytes \<Rightarrow> bool" where
  "names_at L cmd m \<longleftrightarrow> (\<forall>i<length commands.
     cstring_at m (sym_command_name L i) (map of_char (cmd_name (commands ! i))) \<and>
     (\<forall>j\<le>length (cmd_name (commands ! i)). 1024 \<le> sym_command_name L i + of_nat j - cmd))"

definition line_at :: "u32 \<Rightarrow> nat \<Rightarrow> bytes \<Rightarrow> bool" where
  "line_at cmd n m \<longleftrightarrow> n \<le> 1024 \<and> (\<forall>i<1024. m (cmd + of_nat i) = 0 \<longleftrightarrow> n \<le> i)"

text \<open>The command a line names.\<close>

definition lookup :: "u8 list \<Rightarrow> command option" where
  "lookup xs = map_option cmd_cmd (List.find (\<lambda>c. map of_char (cmd_name c) = xs) commands)"

lemma compare_line:
  assumes "cstring_at m p xs" "length xs < 1024" "length tr \<le> 1024" "\<forall>i<length tr. m (cmd + of_nat i) = tr ! i \<and> tr ! i \<noteq> 0"
    "length tr < 1024 \<Longrightarrow> m (cmd + of_nat (length tr)) = 0"
  shows "\<exists>r. strcmp m p cmd = Some r \<and> (r = 0 \<longleftrightarrow> xs = tr)"
proof -
  have xs: "\<forall>i<length xs. m (p + of_nat i) = xs ! i \<and> xs ! i \<noteq> 0" "m (p + of_nat (length xs)) = 0"
    using assms(1) by (simp_all add: cstring_at_def)
  have "(\<forall>i\<le>length xs. m (cmd + of_nat i) = m (p + of_nat i)) \<longleftrightarrow> xs = tr"
  proof
    assume eq: "\<forall>i\<le>length xs. m (cmd + of_nat i) = m (p + of_nat i)"
    then have "m (cmd + of_nat (length xs)) = 0" using xs(2) by simp
    then have "\<not> length xs < length tr" using assms(4) by force
    moreover have "\<not> length tr < length xs"
    proof
      assume l: "length tr < length xs"
      then have "m (cmd + of_nat (length tr)) = xs ! length tr" "xs ! length tr \<noteq> 0" using eq xs(1) by auto
      with assms(5) l assms(2) show False by simp
    qed
    ultimately have "length xs = length tr" by simp
    then show "xs = tr" using eq xs(1) assms(4) by (intro nth_equalityI) auto
  next
    assume "xs = tr"
    then show "\<forall>i\<le>length xs. m (cmd + of_nat i) = m (p + of_nat i)"
      using xs assms(2,4,5) by (auto simp: le_less)
  qed
  then show ?thesis using strcmp_from_prefix [OF assms(1), of 0 cmd] by (simp add: strcmp_def)
qed

lemma find_command_lookup:
  assumes "\<forall>j<length cs. \<exists>r. strcmp (mem s) (sym_command_name L (i + j)) cmd = Some r \<and>
      (r = 0 \<longleftrightarrow> map of_char (cmd_name (cs ! j)) = tr)"
  shows "find_command L i cs cmd s = Inr ((), case List.find (\<lambda>c. map of_char (cmd_name c) = tr) cs of
      None \<Rightarrow> s | Some c \<Rightarrow> s\<lparr>run_cmd := Some (cmd_cmd c)\<rparr>)"
  using assms
proof (induction cs arbitrary: i)
  case Nil
  then show ?case by simp
next
  case (Cons c cs)
  obtain r where r: "strcmp (mem s) (sym_command_name L i) cmd = Some r"
    "r = 0 \<longleftrightarrow> map of_char (cmd_name c) = tr"
    using Cons.prems [rule_format, of 0] by auto
  have "\<forall>j<length cs. \<exists>r. strcmp (mem s) (sym_command_name L (Suc i + j)) cmd = Some r \<and>
      (r = 0 \<longleftrightarrow> map of_char (cmd_name (cs ! j)) = tr)"
    using Cons.prems by auto
  from Cons.IH [OF this] r show ?case by simp
qed

lemma command_names_short: "c \<in> set commands \<Longrightarrow> length (cmd_name c) < 7"
  by (auto simp: commands_def)

text \<open>The line after stripping, as the comparison sees it.\<close>

lemma stripped_line:
  fixes m :: bytes
  assumes "line_at cmd n m"
  defines "tr \<equiv> trim (line cmd n m)"
  shows "length tr \<le> n" "\<forall>i<length tr. stripped cmd n m (cmd + of_nat i) = tr ! i \<and> tr ! i \<noteq> 0"
    "length tr < 1024 \<Longrightarrow> stripped cmd n m (cmd + of_nat (length tr)) = 0"
    "line cmd (length tr) (stripped cmd n m) = tr"
proof -
  have n: "n \<le> 1024" "\<forall>i<1024. m (cmd + of_nat i) = 0 \<longleftrightarrow> n \<le> i" using assms(1) by (simp_all add: line_at_def)
  have u: "unat (cmd + of_nat i - cmd) = i" if "i \<le> 1024" for i
    using that unat_diff_of_nat [of i "cmd + of_nat i" cmd] by simp
  show l: "length tr \<le> n" using trim_prefix(2) [of "line cmd n m"] by (simp add: tr_def line_simps)
  have nth: "tr ! i = m (cmd + of_nat i)" if "i < length tr" for i
  proof -
    have "tr ! i = line cmd n m ! i"
      using that trim_prefix(1) [of "line cmd n m"] by (metis nth_take tr_def)
    then show ?thesis using that l by (simp add: line_def)
  qed
  show s: "\<forall>i<length tr. stripped cmd n m (cmd + of_nat i) = tr ! i \<and> tr ! i \<noteq> 0"
    using nth u n l by (auto simp: stripped_def tr_def)
  show "length tr < 1024 \<Longrightarrow> stripped cmd n m (cmd + of_nat (length tr)) = 0"
    using u [of "length tr"] n(2) by (auto simp: stripped_def tr_def)
  show "line cmd (length tr) (stripped cmd n m) = tr"
    using s by (intro nth_equalityI) (simp_all add: line_def)
qed

lemma names_at_cong:
  assumes "names_at L cmd m" "\<And>a. 1024 \<le> a - cmd \<Longrightarrow> m' a = m a"
  shows "names_at L cmd m'"
  using assms by (auto simp: names_at_def cstring_at_def)

lemma stripped_outside: "n \<le> 1024 \<Longrightarrow> 1024 \<le> a - cmd \<Longrightarrow> stripped cmd n m a = m a"
  by (simp add: stripped_def word_le_nat_alt)

lemma mem_puts: "mem (fold tty_putc cs s) = mem s"
  using tty_frame.puts_inv [of s s cs] by (simp add: same_kernel_def)

lemma mem_putc: "mem (tty_putc c s) = mem s"
  using mem_puts [of "[c]" s] by simp

lemma tty_write_line: "tty_write (line cmd n m) n s = fold tty_putc (line cmd n m) s"
  by (simp add: tty_write_fold line_simps)

lemma command_run_found:
  assumes "names_at L cmd (mem s)" "line_at cmd (unat n) (mem s)"
  defines "m \<equiv> stripped cmd (unat n) (mem s)" and "tr \<equiv> trim (line cmd (unat n) (mem s))"
  shows "command_run L cmd n s = (if tr = [] then Inl (Undefined, s\<lparr>mem := m\<rparr>)
    else case lookup tr of
      Some c \<Rightarrow> bindR (run_command c (s\<lparr>mem := m, run_cmd := Some c\<rparr>)) (\<lambda>_ s. Inr ((), s))
    | None \<Rightarrow> Inr ((), fold tty_putc (map of_char ''Unknown command '' @ [39] @ tr @ [39, 10])
        (s\<lparr>mem := m, run_cmd := None\<rparr>)))"
proof -
  let ?n = "unat n"
  have n: "?n \<le> 1024" using assms(2) by (simp add: line_at_def)
  note l = stripped_line [OF assms(2), folded m_def tr_def]
  have strip: "strip_cmd cmd ?n (mem s) = (if tr = [] then Inl m else Inr (m, length tr))"
    using strip_cmd_line [of ?n cmd "mem s"] n by (simp add: m_def tr_def)
  show ?thesis
  proof (cases "tr = []")
    case True
    then show ?thesis using strip by (simp add: command_run_def)
  next
    case False
    let ?s = "s\<lparr>mem := m, run_cmd := None\<rparr>"
    have nm: "names_at L cmd m"
      using names_at_cong [OF assms(1)] stripped_outside [OF n] by (simp add: m_def)
    have "\<forall>j<length commands. \<exists>r. strcmp (mem ?s) (sym_command_name L (0 + j)) cmd = Some r \<and>
      (r = 0 \<longleftrightarrow> map of_char (cmd_name (commands ! j)) = tr)"
    proof (intro allI impI)
      fix j assume j: "j < length commands"
      have "length (cmd_name (commands ! j)) < 1024" using command_names_short [OF nth_mem [OF j]] by simp
      then show "\<exists>r. strcmp (mem ?s) (sym_command_name L (0 + j)) cmd = Some r \<and>
          (r = 0 \<longleftrightarrow> map of_char (cmd_name (commands ! j)) = tr)"
        using compare_line [of m "sym_command_name L j" "map of_char (cmd_name (commands ! j))" tr cmd] nm j l(1-3) n
        by (simp add: names_at_def)
    qed
    from find_command_lookup [OF this]
    have f: "find_command L 0 commands cmd ?s = Inr ((), case List.find (\<lambda>c. map of_char (cmd_name c) = tr) commands of
      None \<Rightarrow> ?s | Some c \<Rightarrow> ?s\<lparr>run_cmd := Some (cmd_cmd c)\<rparr>)" by simp
    show ?thesis
    proof (cases "List.find (\<lambda>c. map of_char (cmd_name c) = tr) commands")
      case None
      have w: "tty_write (map (\<lambda>i. m (cmd + of_nat i)) [0..<length tr]) (length tr) u = fold tty_putc tr u" for u
        using tty_write_line [of cmd "length tr" m u] l(4) by (simp add: line_def)
      show ?thesis
        using None f strip False
        by (simp add: command_run_def lookup_def Let_def mem_putc w)
    next
      case (Some c)
      then show ?thesis using f strip False by (simp add: command_run_def lookup_def)
    qed
  qed
qed

end
