(* ===== verification/Console.thy ===== *)
theory Console
  imports Kshell
begin

text \<open>
  The console as a state machine: its rounds and the keyboard interrupt in any order. In every reachable state the
  console has kept to its array and to the screen, and its next round returns unless the line is blank or the user
  leaves the console.
\<close>

section \<open>What the commands leave alone\<close>

definition console_frame :: "'a shell_state_scheme \<Rightarrow> 'a shell_state_scheme \<Rightarrow> bool" where
  "console_frame s t \<longleftrightarrow> keyboard t = keyboard s \<and> mem t = mem s \<and> (tty_wf s \<longrightarrow> tty_wf t)"

lemma console_frame_trans: "console_frame s t \<Longrightarrow> console_frame t u \<Longrightarrow> console_frame s u"
  by (simp add: console_frame_def)

lemma prints_console: "prints s t \<Longrightarrow> console_frame s t"
proof -
  assume p: "prints s t"
  then have "tty_wf s \<Longrightarrow> tty_wf t" using tty_on_screen.puts_inv by (auto simp: prints_def)
  moreover have "keyboard t = keyboard s" "mem t = mem s"
    using prints_same_kernel [OF p] by (cases s; cases t; simp add: same_kernel_def)+
  ultimately show ?thesis by (simp add: console_frame_def)
qed

lemma prints_fold: "(\<And>c s. prints s (f c s)) \<Longrightarrow> prints s (fold f cs s)"
proof (induction cs arbitrary: s)
  case Nil
  then show ?case by (simp add: prints_refl)
next
  case (Cons c cs)
  then show ?case using prints_trans [OF Cons.prems Cons.IH [OF Cons.prems]] by simp
qed

lemma cmd_help_prints: "prints s (cmd_help s)"
  unfolding cmd_help_def Let_def
  by (rule prints_fold) (meson prints_intros prints_trans)

lemma tty_clear_console: "console_frame s (tty_clear s)"
proof -
  obtain M ps where "tty_clear s = s\<lparr>tty_buffer := 0xC00B8000,
     tty_color := vga_color_entry VGA_COLOR_WHITE VGA_COLOR_BLACK, vga_mem := M,
     tty_xpos := 0, tty_ypos := 0, port_out := ps\<rparr>" using tty_clear_upd [of s] by blast
  then show ?thesis by (simp add: console_frame_def tty_wf_def SCREEN_WIDTH_def SCREEN_HEIGHT_def)
qed

lemma run_command_returns:
  assumes "c \<noteq> Cmd_exit"
  shows "\<exists>t. run_command c s = Inr (True, t) \<and> console_frame s t"
proof -
  have "kprintf (litn ''Tick: %u'') [VInt n] s = Inr (m, t) \<Longrightarrow> console_frame s t" for n m and t :: "'a shell_state_scheme"
    using kprintf_prints prints_console by blast
  moreover have "\<exists>m t. kprintf (litn ''Tick: %u'') [VInt n] s = Inr (m, t)" for n
    by (simp add: kprintf_def litn_def)
  ultimately have "\<exists>t. cmd_print_tick s = Inr (True, t) \<and> console_frame s t"
    unfolding cmd_print_tick_def by (metis bindR_Inr)
  moreover have "console_frame s (outb p v s)" for p v
    by (simp add: console_frame_def outb_def tty_wf_def)
  ultimately show ?thesis
    using assms prints_console [OF cmd_help_prints] tty_clear_console prints_console [OF prints_printstr]
    by (cases c) (simp_all add: run_command_def cmd_clear_def cmd_demo_def cmd_amogus_def cmd_reboot_def)
qed

lemma run_command_exit: "\<exists>t. run_command Cmd_exit s = Inl (Spin, t)"
  by (simp add: run_command_def cmd_exit_def)

lemma tty_deleteprev_console: "console_frame s (tty_deleteprev s)"
proof -
  have k: "keyboard (put_cell i v u) = keyboard u" "mem (put_cell i v u) = mem u"
    "keyboard (update_cursor x y u) = keyboard u" "mem (update_cursor x y u) = mem u"
    for i v x y and u :: "'a shell_state_scheme"
    by (simp_all add: put_cell_def update_cursor_def Let_def outb_def)
  have "tty_wf s \<Longrightarrow> tty_wf (tty_deleteprev s)"
    by (auto simp: tty_deleteprev_def Let_def tty_wf_def frame_simps SCREEN_WIDTH_def SCREEN_HEIGHT_def
        unat_sub_if' Suc_le_eq unat_gt_0)
  then show ?thesis by (simp add: console_frame_def tty_deleteprev_def Let_def tty_putentryat_def k)
qed

section \<open>The steps\<close>

text \<open>A round of the console, or a key interrupt with its scan code at the data port, between two rounds.\<close>

inductive console :: "symbols \<Rightarrow> u32 \<Rightarrow> 'a shell_state_scheme \<times> u32 \<Rightarrow> 'a shell_state_scheme \<times> u32 \<Rightarrow> bool"
  for L cmd where
  Round: "kshell_round L cmd n s = Inr (n', t) \<Longrightarrow> console L cmd (s, n) (t, n')"
| Press: "isr_key_press (s\<lparr>port_in := (port_in s)(0x60 := sc)\<rparr>) = Inr ((), t) \<Longrightarrow> console L cmd (s, n) (t, n)"

inductive_cases console_cases: "console L cmd (s, n) c"

definition console_inv :: "symbols \<Rightarrow> u32 \<Rightarrow> bytes \<Rightarrow> 'a shell_state_scheme \<times> u32 \<Rightarrow> bool" where
  "console_inv L cmd m0 c = (case c of (s, n) \<Rightarrow>
     names_at L cmd (mem s) \<and> line_at cmd (unat n) (mem s) \<and> kb_inv s \<and> tty_wf s \<and>
     (\<forall>a. 1024 \<le> a - cmd \<longrightarrow> mem s a = m0 a))"

section \<open>The invariant\<close>

lemma isr_key_press_console:
  assumes "isr_key_press s = Inr ((), t)" "kb_inv s" "tty_wf s"
  shows "kb_inv t" "tty_wf t" "mem t = mem s"
proof -
  have a: "kb_inv u \<and> mem u = mem s \<and> tty_wf u" if "add_key k s = Inr ((), u)" for k u
  proof -
    have "0 < kb_room s \<or> u = s"
      using that assms(2)
      by (auto simp: add_key_def kb_room_def kb_inv_def Let_def KB_BUFF_ELEMENTS_def sizeof_buff_def split: if_splits)
    moreover have ?thesis if r: "0 < kb_room s"
    proof -
      obtain v where v: "add_key k s = Inr ((), v)" "kb_inv v" "\<exists>kk. v = s\<lparr>keyboard := kk\<rparr>"
        by (rule add_key_state [OF assms(2) r, of k]) blast
      then show ?thesis using \<open>add_key k s = Inr ((), u)\<close> assms(3) by (auto simp: tty_wf_def)
    qed
    ultimately show ?thesis using assms(2,3) by auto
  qed
  have c: "kb_inv (tty_clear s) \<and> mem (tty_clear s) = mem s \<and> tty_wf (tty_clear s)"
  proof -
    obtain M ps where "tty_clear s = s\<lparr>tty_buffer := 0xC00B8000,
       tty_color := vga_color_entry VGA_COLOR_WHITE VGA_COLOR_BLACK, vga_mem := M,
       tty_xpos := 0, tty_ypos := 0, port_out := ps\<rparr>" using tty_clear_upd [of s] by blast
    then show ?thesis
      using assms(2) kb_inv_cong [of "tty_clear s" s] by (simp add: tty_wf_def SCREEN_WIDTH_def SCREEN_HEIGHT_def)
  qed
  have o: "kb_inv (outb p v u) = kb_inv u" "mem (outb p v u) = mem u" "tty_wf (outb p v u) = tty_wf u"
    for p v and u :: "'a kb_kernel_state_scheme"
    by (simp_all add: outb_def kb_inv_def tty_wf_def)
  have m: "kb_inv (s\<lparr>kb_state := x\<rparr>) = kb_inv s" "tty_wf (s\<lparr>kb_state := x\<rparr>) = tty_wf s" for x
    by (simp_all add: kb_inv_def tty_wf_def)
  have "kb_inv t \<and> tty_wf t \<and> mem t = mem s"
    using assms a c
    by (auto simp: isr_key_press_def Let_def o m bindR_eq_Inr split: if_splits)
  then show "kb_inv t" "tty_wf t" "mem t = mem s" by simp_all
qed

lemma console_inv_press:
  assumes "console_inv L cmd m0 (s, n)" "isr_key_press (s\<lparr>port_in := p\<rparr>) = Inr ((), t)"
  shows "console_inv L cmd m0 (t, n)"
proof -
  have "kb_inv (s\<lparr>port_in := p\<rparr>)" "tty_wf (s\<lparr>port_in := p\<rparr>)"
    using assms(1) by (simp_all add: console_inv_def kb_inv_def tty_wf_def)
  from isr_key_press_console [OF assms(2) this] assms(1) show ?thesis by (simp add: console_inv_def)
qed

text \<open>The three ways a round writes to the line.\<close>

lemma line_at_clear: "line_at cmd 0 (memset m cmd 0 sizeof_cmd)"
proof -
  have "cmd + of_nat i - cmd < sizeof_cmd" if "i < 1024" for i
    using that unat_diff_of_nat [of i "cmd + of_nat i" cmd] by (simp add: word_less_nat_alt sizeof_cmd_def)
  then show ?thesis by (simp add: line_at_def memset_apply)
qed

lemma line_at_put:
  assumes "line_at cmd n m" "n < 1024" "v \<noteq> 0"
  shows "line_at cmd (Suc n) (m(cmd + of_nat n := v))"
proof -
  have "cmd + of_nat i = cmd + of_nat n \<longleftrightarrow> i = n" if "i < 1024" for i
    using that assms(2) by (intro add_of_nat_eq_iff) simp_all
  then show ?thesis using assms by (auto simp: line_at_def simp del: add_left_cancel)
qed

lemma line_at_drop:
  assumes "line_at cmd (Suc n) m"
  shows "line_at cmd n (m(cmd + of_nat n := 0))"
proof -
  have "n < 1024" using assms by (simp add: line_at_def)
  then have "cmd + of_nat i = cmd + of_nat n \<longleftrightarrow> i = n" if "i < 1024" for i
    using that by (intro add_of_nat_eq_iff) simp_all
  then show ?thesis using assms by (auto simp: line_at_def simp del: add_left_cancel)
qed

lemma outside_line: "1024 \<le> (a :: u32) - cmd \<Longrightarrow> i < 1024 \<Longrightarrow> a \<noteq> cmd + of_nat i"
  using unat_diff_of_nat [of i a cmd] by (auto simp: word_le_nat_alt)

lemma kb_inv_mem: "kb_inv (s\<lparr>mem := m\<rparr>) = kb_inv s" "tty_wf (s\<lparr>mem := m\<rparr>) = tty_wf s"
  by (simp_all add: kb_inv_def tty_wf_def)

text \<open>A state with another line, and everything else as before.\<close>

lemma console_inv_step:
  assumes "console_inv L cmd m0 (s, n)" "kb_inv u" "tty_wf u" "line_at cmd (unat n') (mem u)"
    "\<And>a. 1024 \<le> a - cmd \<Longrightarrow> mem u a = mem s a"
  shows "console_inv L cmd m0 (u, n')"
  using assms names_at_cong [of L cmd "mem s" "mem u"] by (simp add: console_inv_def)

definition round_stops :: "u32 \<Rightarrow> u32 \<Rightarrow> 'a shell_state_scheme \<Rightarrow> stop \<Rightarrow> bool" where
  "round_stops cmd n s e \<longleftrightarrow>
     (let tr = trim (line cmd (unat n) (mem s))
      in (\<exists>ks. kb_keys s = KEY_ENTER # ks) \<and> (tr = [] \<and> e = Undefined \<or> lookup tr = Some Cmd_exit \<and> e = Spin))"

lemma typed_not_nul:
  assumes "isprint (sint w) = 0 \<or> isspace (sint w) = 0"
  shows "ucast (w :: u32) \<noteq> (0 :: u8)"
proof -
  have "9 \<le> sint w \<and> sint w \<le> 126"
    using assms by (auto simp: isprint_def isspace_def split: if_splits)
  then obtain j where j: "sint w = int j" "9 \<le> j" "j \<le> 126"
    using that [of "nat (sint w)"] by linarith
  have "w = word_of_int (sint w)" by simp
  with j(1) have "w = of_nat j" by simp
  then have "unat w = j" using j by (simp add: unat_of_nat)
  then have "unat (ucast w :: u8) = j" using j by (simp add: unsigned_ucast_eq take_bit_eq_mod)
  then show ?thesis using j by auto
qed

lemma command_run_console:
  assumes "names_at L cmd (mem s)" "line_at cmd (unat n) (mem s)"
  shows "(\<exists>t. command_run L cmd n s = Inr ((), t) \<and> keyboard t = keyboard s \<and> (tty_wf s \<longrightarrow> tty_wf t) \<and>
      (\<forall>a. 1024 \<le> a - cmd \<longrightarrow> mem t a = mem s a)) \<or>
    (\<exists>e u. command_run L cmd n s = Inl (e, u) \<and> (let tr = trim (line cmd (unat n) (mem s)) in
      tr = [] \<and> e = Undefined \<or> lookup tr = Some Cmd_exit \<and> e = Spin))"
proof -
  let ?m = "stripped cmd (unat n) (mem s)" and ?tr = "trim (line cmd (unat n) (mem s))"
  note c = command_run_found [OF assms]
  have o: "\<forall>a. 1024 \<le> a - cmd \<longrightarrow> ?m a = mem s a"
    using stripped_outside [of "unat n"] assms(2) by (simp add: line_at_def)
  have w: "tty_wf (s\<lparr>mem := ?m, run_cmd := r\<rparr>) = tty_wf s" for r by (simp add: tty_wf_def)
  consider "?tr = []" | "?tr \<noteq> []" "lookup ?tr = None" | "?tr \<noteq> []" "lookup ?tr = Some Cmd_exit"
    | x where "?tr \<noteq> []" "lookup ?tr = Some x" "x \<noteq> Cmd_exit" by blast
  then show ?thesis
  proof cases
    case 1
    then show ?thesis using c by simp
  next
    case 2
    let ?u = "s\<lparr>mem := ?m, run_cmd := None\<rparr>"
    obtain cs where "command_run L cmd n s = Inr ((), fold tty_putc cs ?u)"
      using 2 c by (simp only: if_False option.case)
    moreover have "console_frame ?u (fold tty_putc cs ?u)"
      by (rule prints_console) (auto simp: prints_def)
    ultimately show ?thesis using o w by (simp add: console_frame_def)
  next
    case 3
    then show ?thesis using c run_command_exit [of "s\<lparr>mem := ?m, run_cmd := Some Cmd_exit\<rparr>"] by auto
  next
    case 4
    then obtain t where "run_command x (s\<lparr>mem := ?m, run_cmd := Some x\<rparr>) = Inr (True, t)"
      "console_frame (s\<lparr>mem := ?m, run_cmd := Some x\<rparr>) t"
      using run_command_returns by blast
    then show ?thesis using 4 c o w by (simp add: console_frame_def)
  qed
qed

lemma kb_get_key_drop:
  assumes "kb_inv u"
  obtains x v where "kb_get_key False u = Inr (x, v)" "kb_inv v" "\<exists>kk. v = u\<lparr>keyboard := kk\<rparr>"
proof (cases "kb_queue u")
  case Nil
  show ?thesis
    by (rule that [OF kb_get_key_empty [OF assms Nil] assms]) (cases u, simp)
next
  case (Cons k ks)
  obtain v where "kb_get_key False u = Inr ((True, if False then Some k else None), v)" "kb_inv v"
    "\<exists>kk. v = u\<lparr>keyboard := kk\<rparr>"
    by (rule kb_get_key_state [OF assms Cons, of False]) blast
  then show ?thesis by (rule that)
qed

lemma console_round:
  assumes "console_inv L cmd m0 (s, n)"
  shows "(\<exists>n' t. kshell_round L cmd n s = Inr (n', t) \<and> console_inv L cmd m0 (t, n')) \<or>
    (\<exists>e u. kshell_round L cmd n s = Inl (e, u) \<and> round_stops cmd n s e)"
proof -
  have inv: "names_at L cmd (mem s)" "line_at cmd (unat n) (mem s)" "kb_inv s" "tty_wf s"
    using assms by (simp_all add: console_inv_def)
  have n: "unat n \<le> 1024" using inv(2) by (simp add: line_at_def)
  show ?thesis
  proof (cases "kb_queue s")
    case Nil
    then show ?thesis using assms kb_get_key_empty [OF inv(3)] by (simp add: kshell_round_def halt_def)
  next
    case (Cons k ks)
    obtain u where u: "kb_get_key True s = Inr ((True, if True then Some k else None), u)" "kb_inv u" "kb_queue u = ks"
      "\<exists>kk. u = s\<lparr>keyboard := kk\<rparr>"
      by (rule kb_get_key_state [OF inv(3) Cons, of True]) blast
    have us: "mem u = mem s" "tty_wf u" using u(4) inv(4) by (auto simp: tty_wf_def)
    have keys: "kb_keys s = key_key k # map key_key ks" using Cons by (simp add: kb_keys_def)
    have iu: "console_inv L cmd m0 (u, n)"
      using console_inv_step [OF assms u(2) us(2), of n] inv(2) us(1) by simp
    consider (erase) "key_key k = KEY_BACKSPACE" "0 < n" | (enter) "key_key k = KEY_ENTER"
      | (typed) "\<not> (key_key k = KEY_BACKSPACE \<and> 0 < n)" "key_key k \<noteq> KEY_ENTER"
        "isprint (sint (key_key k)) = 0 \<or> isspace (sint (key_key k)) = 0" "n < sizeof_cmd"
      | (ignored) "\<not> (key_key k = KEY_BACKSPACE \<and> 0 < n)" "key_key k \<noteq> KEY_ENTER"
        "\<not> (isprint (sint (key_key k)) = 0 \<or> isspace (sint (key_key k)) = 0) \<or> sizeof_cmd \<le> n"
      by (meson not_less)
    then show ?thesis
    proof cases
      case ignored
      then show ?thesis using u(1) iu by (auto simp: kshell_round_def halt_def)
    next
      case typed
      have nu: "unat n < 1024" using typed(4) by (simp add: word_less_nat_alt sizeof_cmd_def)
      let ?c = "ucast (key_key k) :: u8"
      let ?v = "u\<lparr>mem := (mem u)(cmd + n := ?c)\<rparr>"
      have "kshell_round L cmd n s = Inr (n + 1, tty_putc ?c ?v)"
        using u(1) typed by (auto simp: kshell_round_def halt_def Let_def not_le)
      moreover have f: "console_frame ?v (tty_putc ?c ?v)" by (rule prints_console [OF prints_putc])
      have "unat (n + 1) = Suc (unat n)" using nu by (simp add: unat_word_ariths)
      then have "line_at cmd (unat (n + 1)) (mem ?v)"
        using line_at_put [OF inv(2) nu typed_not_nul [OF typed(3)]] us(1) by simp
      then have "console_inv L cmd m0 (tty_putc ?c ?v, n + 1)"
        using f kb_inv_mem kb_inv_cong [of "tty_putc ?c ?v" u] u(2) us outside_line [of _ cmd "unat n"] nu
        by (intro console_inv_step [OF assms]) (auto simp: console_frame_def)
      ultimately show ?thesis by blast
    next
      case erase
      have n1: "unat n = Suc (unat (n - 1))" using erase(2) by (simp add: unat_sub_if' word_less_nat_alt Suc_leI)
      obtain x v where v: "kb_get_key False u = Inr (x, v)" "kb_inv v" "\<exists>kk. v = u\<lparr>keyboard := kk\<rparr>"
        by (rule kb_get_key_drop [OF u(2)]) blast
      have vs: "mem v = mem s" "tty_wf v" using v(3) us by (auto simp: tty_wf_def)
      let ?w = "v\<lparr>mem := (mem v)(cmd + (n - 1) := 0)\<rparr>"
      have "kshell_round L cmd n s = Inr (n - 1, tty_deleteprev ?w)"
        using u(1) v(1) erase by (simp add: kshell_round_def halt_def Let_def)
      moreover have f: "console_frame ?w (tty_deleteprev ?w)" by (rule tty_deleteprev_console)
      have "line_at cmd (unat (n - 1)) (mem ?w)"
        using line_at_drop [of cmd "unat (n - 1)" "mem s"] inv(2) n1 vs(1) by simp
      then have "console_inv L cmd m0 (tty_deleteprev ?w, n - 1)"
        using f kb_inv_mem kb_inv_cong [of "tty_deleteprev ?w" v] v(2) vs outside_line [of _ cmd "unat (n - 1)"] n1 n
        by (intro console_inv_step [OF assms]) (auto simp: console_frame_def)
      ultimately show ?thesis by blast
    next
      case enter
      let ?p = "tty_putc 10 u"
      have p: "keyboard ?p = keyboard u" "mem ?p = mem s" "tty_wf ?p"
        using prints_console [OF prints_putc [of u 10]] us by (simp_all add: console_frame_def)
      have "KEY_ENTER \<noteq> KEY_BACKSPACE" by (simp add: KEY_ENTER_def KEY_BACKSPACE_def)
      then have r: "kshell_round L cmd n s = bindR (command_run L cmd n ?p) (\<lambda>_ s.
          Inr (0, command_start (s\<lparr>mem := memset (mem s) cmd 0 sizeof_cmd\<rparr>)))"
        using u(1) enter by (simp add: kshell_round_def halt_def Let_def)
      from command_run_console [of L cmd ?p n] inv(1,2) p(2)
      consider t where "command_run L cmd n ?p = Inr ((), t)" "keyboard t = keyboard ?p" "tty_wf t"
          "\<forall>a. 1024 \<le> a - cmd \<longrightarrow> mem t a = mem s a"
        | e w where "command_run L cmd n ?p = Inl (e, w)"
          "let tr = trim (line cmd (unat n) (mem s)) in tr = [] \<and> e = Undefined \<or> lookup tr = Some Cmd_exit \<and> e = Spin"
        using p(3) by auto
      then show ?thesis
      proof cases
        case (1 t)
        let ?w = "t\<lparr>mem := memset (mem t) cmd 0 sizeof_cmd\<rparr>"
        have f: "console_frame ?w (command_start ?w)"
          unfolding command_start_def by (rule prints_console [OF prints_printstr])
        have o: "memset (mem t) cmd 0 sizeof_cmd a = mem s a" if "1024 \<le> a - cmd" for a
          using that 1(4) by (auto simp: memset_apply sizeof_cmd_def dest: leD)
        have "console_inv L cmd m0 (command_start ?w, 0)"
          using f kb_inv_cong [of "command_start ?w" u] u(2) 1(2,3) p(1) o line_at_clear [of cmd "mem t"]
          by (intro console_inv_step [OF assms]) (simp_all add: console_frame_def kb_inv_mem)
        then show ?thesis using r 1(1) by simp
      next
        case (2 e w)
        then show ?thesis using r keys enter by (simp add: round_stops_def Let_def)
      qed
    qed
  qed
qed

interpretation console_system: invariant_system "console L cmd" "console_inv L cmd m0" for L cmd m0
proof
  fix c d :: "'a shell_state_scheme \<times> u32"
  assume i: "console_inv L cmd m0 c" and step: "console L cmd c d"
  obtain s n where c: "c = (s, n)" by fastforce
  show "console_inv L cmd m0 d"
    using step [unfolded c] by (rule console_cases) (use console_round [OF i [unfolded c]] console_inv_press [OF i [unfolded c]] in auto)
qed

lemma kshell_start_inv:
  assumes "names_at L cmd (mem s)" "kb_inv s" "tty_wf s"
  obtains t where "kshell_start cmd s = Inr (0, t)" "console_inv L cmd (mem s) (t, 0)"
proof -
  let ?fmt = "[10] @ litn ''Welcome to AOSIS: Run 'help' to get started!''"
  have "\<exists>m u. kprintf ?fmt [] s = Inr (m, u)" by (simp add: kprintf_def litn_def)
  then obtain m u where u: "kprintf ?fmt [] s = Inr (m, u)" by blast
  let ?w = "command_start u"
  have f: "console_frame s ?w"
    unfolding command_start_def
    by (rule console_frame_trans [OF prints_console [OF kprintf_prints [OF u]] prints_console [OF prints_printstr]])
  let ?t = "?w\<lparr>mem := memset (mem ?w) cmd 0 sizeof_cmd\<rparr>"
  have o: "memset (mem s) cmd 0 sizeof_cmd a = mem s a" if "1024 \<le> a - cmd" for a
    using that by (auto simp: memset_apply sizeof_cmd_def dest: leD)
  have "names_at L cmd (memset (mem s) cmd 0 sizeof_cmd)" by (rule names_at_cong [OF assms(1) o])
  then have "console_inv L cmd (mem s) (?t, 0)"
    using f kb_inv_cong [of ?t s] assms(2,3) o line_at_clear [of cmd "mem s"]
    by (simp add: console_inv_def console_frame_def kb_inv_mem)
  moreover have "kshell_start cmd s = Inr (0, ?t)" using u by (simp add: kshell_start_def Let_def)
  ultimately show ?thesis by (intro that)
qed

section \<open>Typing a line\<close>

primrec kshell_rounds ::
  "symbols \<Rightarrow> u32 \<Rightarrow> nat \<Rightarrow> u32 \<Rightarrow> 'a shell_state_scheme \<Rightarrow> ('a shell_state_scheme, u32) result" where
  "kshell_rounds L cmd 0 n s = Inr (n, s)"
| "kshell_rounds L cmd (Suc k) n s = bindR (kshell_round L cmd n s) (\<lambda>n s. kshell_rounds L cmd k n s)"

lemma kshell_rounds_append:
  "kshell_rounds L cmd (j + k) n s = bindR (kshell_rounds L cmd j n s) (\<lambda>n s. kshell_rounds L cmd k n s)"
  by (induction j arbitrary: n s) (simp_all add: bindR_assoc)

text \<open>The characters a sequence of keys puts on the line; other keys, like the code 0 of a release, are ignored.\<close>

definition printable :: "keycode \<Rightarrow> bool" where
  "printable w \<longleftrightarrow> isprint (sint w) = 0 \<or> isspace (sint w) = 0"

definition typed_text :: "keycode list \<Rightarrow> u8 list" where
  "typed_text ws = map ucast (filter printable ws)"

lemma typed_text_append: "typed_text (ws @ vs) = typed_text ws @ typed_text vs"
  by (simp add: typed_text_def)

lemma key_read:
  assumes "console_inv L cmd m0 (s, n)" "kb_keys s = w # ws"
  obtains k u where "kb_get_key True s = Inr ((True, Some k), u)" "key_key k = w" "kb_keys u = ws" "\<exists>kk. u = s\<lparr>keyboard := kk\<rparr>"
proof -
  obtain k ks where q: "kb_queue s = k # ks" "key_key k = w" "map key_key ks = ws" using assms(2) by (auto simp: kb_keys_def)
  have "kb_inv s" using assms(1) by (simp add: console_inv_def)
  then obtain u where u: "kb_get_key True s = Inr ((True, if True then Some k else None), u)" "kb_inv u" "kb_queue u = ks"
    "\<exists>kk. u = s\<lparr>keyboard := kk\<rparr>"
    by (rule kb_get_key_state [OF _ q(1), of True]) blast
  then show ?thesis using q(2,3) by (intro that [of k u]) (simp_all add: kb_keys_def)
qed

lemma key_round:
  assumes "console_inv L cmd m0 (s, n)" "kb_keys s = w # ws" "w \<notin> {KEY_ENTER, KEY_BACKSPACE}"
    "unat n + length (typed_text [w]) \<le> 1024"
  obtains n' t where "kshell_round L cmd n s = Inr (n', t)" "console_inv L cmd m0 (t, n')" "kb_keys t = ws"
    "unat n' = unat n + length (typed_text [w])" "line cmd (unat n') (mem t) = line cmd (unat n) (mem s) @ typed_text [w]"
proof -
  obtain k u where u: "kb_get_key True s = Inr ((True, Some k), u)" "key_key k = w" "kb_keys u = ws"
    "\<exists>kk. u = s\<lparr>keyboard := kk\<rparr>"
    by (rule key_read [OF assms(1,2)])
  have um: "mem u = mem s" using u(4) by auto
  let ?v = "u\<lparr>mem := (mem u)(cmd + n := ucast w)\<rparr>"
  define r where "r = (if printable w then (n + 1, tty_putc (ucast w) ?v) else (n, u))"
  have "printable w \<Longrightarrow> n < sizeof_cmd" using assms(4) by (simp add: typed_text_def sizeof_cmd_def word_less_nat_alt)
  then have round: "kshell_round L cmd n s = Inr r"
    using u(1,2) assms(3) by (auto simp: kshell_round_def halt_def r_def printable_def Let_def not_le)
  then have inv: "console_inv L cmd m0 (snd r, fst r)" using console_round [OF assms(1)] by auto
  show ?thesis
  proof (cases "printable w")
    case False
    then show ?thesis using round inv u(3) um by (intro that [of n u]) (simp_all add: r_def typed_text_def)
  next
    case True
    have "console_frame ?v (tty_putc (ucast w) ?v)" by (rule prints_console [OF prints_putc])
    then have p: "keyboard (tty_putc (ucast w) ?v) = keyboard u" "mem (tty_putc (ucast w) ?v) = (mem s)(cmd + n := ucast w)"
      by (simp_all add: console_frame_def um)
    have n: "unat n < 1024" using assms(4) True by (simp add: typed_text_def)
    then have n1: "unat (n + 1) = Suc (unat n)" by (simp add: unat_word_ariths)
    have "line cmd (unat n) ((mem s)(cmd + of_nat (unat n) := ucast w)) = line cmd (unat n) (mem s)"
      using n by (intro line_upd) simp_all
    then have "line cmd (unat (n + 1)) ((mem s)(cmd + n := ucast w)) = line cmd (unat n) (mem s) @ [ucast w]"
      by (simp add: n1 line_simps)
    then show ?thesis
      using round inv u(3) p n1 True kb_inv_cong [OF p(1)]
      by (intro that [of "n + 1" "tty_putc (ucast w) ?v"]) (simp_all add: r_def typed_text_def kb_keys_def)
  qed
qed

lemma typing_rounds:
  assumes "console_inv L cmd m0 (s, n)" "kb_keys s = ws @ ks" "\<forall>w\<in>set ws. w \<notin> {KEY_ENTER, KEY_BACKSPACE}"
    "unat n + length (typed_text ws) \<le> 1024"
  shows "\<exists>n' t. kshell_rounds L cmd (length ws) n s = Inr (n', t) \<and> console_inv L cmd m0 (t, n') \<and> kb_keys t = ks \<and>
    line cmd (unat n') (mem t) = line cmd (unat n) (mem s) @ typed_text ws"
  using assms
proof (induction ws arbitrary: n s)
  case Nil
  then show ?case by (simp add: typed_text_def)
next
  case (Cons w ws)
  have tt: "typed_text (w # ws) = typed_text [w] @ typed_text ws" using typed_text_append [of "[w]" ws] by simp
  obtain n' t where t: "kshell_round L cmd n s = Inr (n', t)" "console_inv L cmd m0 (t, n')" "kb_keys t = ws @ ks"
    "unat n' = unat n + length (typed_text [w])" "line cmd (unat n') (mem t) = line cmd (unat n) (mem s) @ typed_text [w]"
    by (rule key_round [OF Cons.prems(1), of w "ws @ ks"]) (use Cons.prems tt in auto)
  from Cons.IH [OF t(2,3)] Cons.prems(3,4) t(4) tt
  obtain n'' v where "kshell_rounds L cmd (length ws) n' t = Inr (n'', v)" "console_inv L cmd m0 (v, n'')" "kb_keys v = ks"
    "line cmd (unat n'') (mem v) = line cmd (unat n') (mem t) @ typed_text ws" by auto
  then show ?case using t(1,5) tt by auto
qed

section \<open>Properties\<close>

text \<open>
  C14: the console never leaves its array. From the start of the console, whatever keys arrive between its rounds, the
  line has at most 1024 characters, the rest of the memory is unchanged and the cursor is on the screen; and the next
  round returns, unless the key read is Enter and the line is blank (which is the out-of-bounds read of
  \<^verbatim>\<open>command_run\<close>) or is the command \<^verbatim>\<open>exit\<close>.
\<close>

theorem console_keeps_to_its_line:
  assumes "names_at L cmd (mem s)" "kb_inv s" "tty_wf s" "kshell_start cmd s = Inr (n0, s0)"
    "(console L cmd)\<^sup>*\<^sup>* (s0, n0) (t, n)"
  shows "unat n \<le> 1024 \<and> (\<forall>a. 1024 \<le> a - cmd \<longrightarrow> mem t a = mem s a) \<and> tty_wf t \<and>
    ((\<exists>n' u. kshell_round L cmd n t = Inr (n', u)) \<or>
     (\<exists>e u. kshell_round L cmd n t = Inl (e, u) \<and> round_stops cmd n t e))"
proof -
  obtain r where "kshell_start cmd s = Inr (0, r)" "console_inv L cmd (mem s) (r, 0)"
    by (rule kshell_start_inv [OF assms(1-3)])
  then have "console_inv L cmd (mem s) (s0, n0)" using assms(4) by simp
  from console_system.reachable_inv [OF assms(5) this] have i: "console_inv L cmd (mem s) (t, n)" .
  then show ?thesis using console_round [OF i] by (auto simp: console_inv_def line_at_def)
qed

text \<open>
  C16: what the console does with a line. Trailing blanks are cut off and zeroed. If nothing is left, the loop that cuts
  them reads the byte before the array, which is undefined; if the rest is the name of a command, exactly that
  command runs; any other line is reported as unknown, with its text.
\<close>

theorem command_run_dispatches:
  assumes "names_at L cmd (mem s)" "line_at cmd (unat n) (mem s)"
  shows "command_run L cmd n s = (let tr = trim (line cmd (unat n) (mem s)); t = s\<lparr>mem := stripped cmd (unat n) (mem s)\<rparr> in
    if tr = [] then Inl (Undefined, t)
    else let t = t\<lparr>run_cmd := lookup tr\<rparr> in
      case lookup tr of
        Some c \<Rightarrow> bindR (run_command c t) (\<lambda>_ s. Inr ((), s))
      | None \<Rightarrow> Inr ((), fold tty_putc (map of_char ''Unknown command '' @ [39] @ tr @ [39, 10]) t))"
  using command_run_found [OF assms] by (cases "lookup (trim (line cmd (unat n) (mem s)))") (simp_all only: Let_def option.case)

text \<open>
  C30: a typed line is executed. Starting with an empty line, when the buffer holds keys, none of them Enter or
  Backspace, that put at most 1024 characters on the line, not all blanks, and then Enter, the console takes exactly
  one round per key: it reaches the state in which it runs the command the typed text names, or reports the text as
  unknown; the keys after Enter are still in the buffer, memory outside the line is as before; and if the command
  returns, the line is empty again and the prompt is printed.
\<close>

theorem typed_line_is_run:
  assumes "console_inv L cmd m0 (s, 0)" "kb_keys s = ws @ KEY_ENTER # ks" "\<forall>w\<in>set ws. w \<notin> {KEY_ENTER, KEY_BACKSPACE}"
    "length (typed_text ws) \<le> 1024" "trim (typed_text ws) = tr" "tr \<noteq> []"
  shows "\<exists>t. kb_keys t = ks \<and> run_cmd t = lookup tr \<and> (\<forall>a. 1024 \<le> a - cmd \<longrightarrow> mem t a = m0 a) \<and>
    kshell_rounds L cmd (Suc (length ws)) 0 s =
      bindR (case lookup tr of
          Some c \<Rightarrow> run_command c t
        | None \<Rightarrow> Inr (True, fold tty_putc (map of_char ''Unknown command '' @ [39] @ tr @ [39, 10]) t))
        (\<lambda>_ s. Inr (0, command_start (s\<lparr>mem := memset (mem s) cmd 0 sizeof_cmd\<rparr>)))"
proof -
  obtain n v where v: "kshell_rounds L cmd (length ws) 0 s = Inr (n, v)" "console_inv L cmd m0 (v, n)"
    "kb_keys v = KEY_ENTER # ks" "line cmd (unat n) (mem v) = typed_text ws"
    using typing_rounds [OF assms(1-3)] assms(4) by (auto simp: line_simps)
  obtain k u where u: "kb_get_key True v = Inr ((True, Some k), u)" "key_key k = KEY_ENTER" "kb_keys u = ks"
    "\<exists>kk. u = v\<lparr>keyboard := kk\<rparr>"
    by (rule key_read [OF v(2,3)])
  let ?p = "tty_putc 10 u" and ?w = "\<lambda>s. command_start (s\<lparr>mem := memset (mem s) cmd 0 sizeof_cmd\<rparr>)"
  have p: "keyboard ?p = keyboard u" "mem ?p = mem v"
    using prints_console [OF prints_putc [of u 10]] u(4) by (auto simp: console_frame_def)
  have inv: "names_at L cmd (mem ?p)" "line_at cmd (unat n) (mem ?p)" "\<forall>a. 1024 \<le> a - cmd \<longrightarrow> mem v a = m0 a"
    using v(2) by (simp_all add: console_inv_def p(2))
  let ?t = "?p\<lparr>mem := stripped cmd (unat n) (mem ?p), run_cmd := lookup tr\<rparr>"
  have "KEY_ENTER \<noteq> KEY_BACKSPACE" by (simp add: KEY_ENTER_def KEY_BACKSPACE_def)
  then have "kshell_round L cmd n v = bindR (command_run L cmd n ?p) (\<lambda>_ s. Inr (0, ?w s))"
    using u(1,2) by (simp add: kshell_round_def halt_def Let_def)
  moreover have "command_run L cmd n ?p = (case lookup tr of
      Some c \<Rightarrow> bindR (run_command c ?t) (\<lambda>_ s. Inr ((), s))
    | None \<Rightarrow> Inr ((), fold tty_putc (map of_char ''Unknown command '' @ [39] @ tr @ [39, 10]) ?t))"
    using command_run_found [OF inv(1,2)] v(4) assms(5,6) p(2) by (cases "lookup tr") (simp_all only: if_False option.case)
  ultimately have "kshell_round L cmd n v = bindR (case lookup tr of
          Some c \<Rightarrow> run_command c ?t
        | None \<Rightarrow> Inr (True, fold tty_putc (map of_char ''Unknown command '' @ [39] @ tr @ [39, 10]) ?t))
        (\<lambda>_ s. Inr (0, ?w s))"
    by (cases "lookup tr") (simp_all add: bindR_assoc)
  moreover have "kshell_rounds L cmd (Suc (length ws)) 0 s = bindR (kshell_round L cmd n v) (\<lambda>n s. Inr (n, s))"
    using kshell_rounds_append [of L cmd "length ws" 1 0 s] v(1) by simp
  moreover have "kb_keys ?t = ks" using u(3) p(1) by (simp add: kb_keys_def kb_queue_def)
  moreover have "\<forall>a. 1024 \<le> a - cmd \<longrightarrow> mem ?t a = m0 a"
    using inv stripped_outside [of "unat n"] p(2) by (simp add: line_at_def)
  ultimately show ?thesis by (intro exI [of _ ?t]) (cases "lookup tr", simp_all add: bindR_assoc)
qed

text \<open>
  An empty line is not handled. When Enter is pressed on a line that is empty or only blanks, the stripping loop
  runs past the start of the array and reads the byte before it.
\<close>

theorem command_run_blank_line:
  assumes "unat n \<le> 1024" "\<forall>c\<in>set (line cmd (unat n) (mem s)). blank c"
  shows "\<exists>u. command_run L cmd n s = Inl (Undefined, u)"
  using strip_cmd_line [of "unat n" cmd "mem s"] assms by (simp add: command_run_def trim_eq_Nil)

section \<open>An example\<close>

text \<open>The names of the commands at the addresses of the example symbols, and a line at 0xC0200000.\<close>

definition example_shell_mem :: "u8 list \<Rightarrow> bytes" where
  "example_shell_mem l a =
     (let k = unat (a - 0xC0116000); name = cmd_name (commands ! (k div 16)); i = unat (a - 0xC0200000)
      in if k < 112 then (if k mod 16 < length name then of_char (name ! (k mod 16)) else 0)
         else if i < length l then l ! i else 0)"

lemma example_shell_name:
  assumes "i < 7" "j < 16"
  shows "example_shell_mem l (sym_command_name example_symbols i + of_nat j) =
    (if j < length (cmd_name (commands ! i)) then of_char (cmd_name (commands ! i) ! j) else 0)"
    "unat (sym_command_name example_symbols i + of_nat j - 0xC0116000) = 16 * i + j"
proof -
  have "sym_command_name example_symbols i + of_nat j - 0xC0116000 = (of_nat (16 * i + j) :: u32)"
    by (simp add: example_symbols_def)
  moreover have "unat (of_nat (16 * i + j) :: u32) = 16 * i + j" using assms by (simp only: unat_of_nat) simp
  ultimately show u: "unat (sym_command_name example_symbols i + of_nat j - 0xC0116000) = 16 * i + j" by (simp only:)
  show "example_shell_mem l (sym_command_name example_symbols i + of_nat j) =
    (if j < length (cmd_name (commands ! i)) then of_char (cmd_name (commands ! i) ! j) else 0)"
    using assms by (simp add: example_shell_mem_def u Let_def del: of_nat_add)
qed

lemma example_shell_line:
  assumes "i < 1024"
  shows "example_shell_mem l (0xC0200000 + of_nat i) = (if i < length l then l ! i else 0)"
proof -
  have "unat (0xC0200000 + of_nat i - 0xC0116000 :: u32) = 0xEA000 + i"
    using assms by (simp add: unat_word_ariths unat_of_nat)
  moreover have "unat (0xC0200000 + of_nat i - 0xC0200000 :: u32) = i"
    using assms unat_diff_of_nat [of i "0xC0200000 + of_nat i" "0xC0200000"] by simp
  ultimately show ?thesis by (simp add: example_shell_mem_def Let_def)
qed

lemma example_shell_names: "names_at example_symbols 0xC0200000 (example_shell_mem l)"
  unfolding names_at_def
proof (intro allI impI conjI)
  fix i assume "i < length commands"
  then have i: "i < 7" "length (cmd_name (commands ! i)) < 7"
    using command_names_short [OF nth_mem] by (simp_all add: commands_def)
  have "list_all (\<lambda>c. list_all (\<lambda>x. (of_char x :: u8) \<noteq> 0) (cmd_name c)) commands" by (simp add: commands_def)
  moreover have "commands ! i \<in> set commands" using i(1) by (intro nth_mem) (simp add: commands_def)
  ultimately have "\<forall>x\<in>set (cmd_name (commands ! i)). (of_char x :: u8) \<noteq> 0"
    by (auto simp: list_all_iff)
  then show "cstring_at (example_shell_mem l) (sym_command_name example_symbols i) (map of_char (cmd_name (commands ! i)))"
    using i example_shell_name(1) [of i] by (simp add: cstring_at_def)
  fix j assume j: "j \<le> length (cmd_name (commands ! i))"
  let ?a = "sym_command_name example_symbols i + of_nat j"
  have "?a - 0xC0200000 = (?a - 0xC0116000) - 0xEA000" by simp
  moreover have "unat (?a - 0xC0116000) \<le> 127" using example_shell_name(2) [of i j] i j by simp
  ultimately show "1024 \<le> ?a - 0xC0200000" by (simp only: word_le_nat_alt unat_sub_if') simp
qed

lemma example_shell_line_at:
  assumes "length l \<le> 1024" "0 \<notin> set l"
  shows "line_at 0xC0200000 (length l) (example_shell_mem l)" "line 0xC0200000 (length l) (example_shell_mem l) = l"
  using assms by (auto simp: line_at_def line_def example_shell_line in_set_conv_nth intro!: nth_equalityI)

definition example_shell :: "u8 list \<Rightarrow> 'a shell_state_scheme \<Rightarrow> 'a shell_state_scheme" where
  "example_shell l s = s\<lparr>mem := example_shell_mem l, keyboard := empty_keyboard, tty_xpos := 0, tty_ypos := 0\<rparr>"

theorem command_run_dispatches_witness:
  "\<forall>s :: shell_state. command_run example_symbols 0xC0200000 7 (example_shell (map of_char ''reboot '') s) =
     Inr ((), outb 0x64 0xFE (example_shell (map of_char ''reboot '') s
       \<lparr>mem := stripped 0xC0200000 7 (example_shell_mem (map of_char ''reboot '')), run_cmd := Some Cmd_reboot\<rparr>))"
proof
  fix s :: shell_state
  let ?l = "map of_char ''reboot '' :: u8 list"
  have l: "line_at 0xC0200000 (unat (7 :: u32)) (mem (example_shell ?l s))"
    "line 0xC0200000 (unat (7 :: u32)) (mem (example_shell ?l s)) = ?l"
  proof -
    have e: "length ?l = unat (7 :: u32)" "length ?l \<le> 1024" "0 \<notin> set ?l" by simp_all
    show "line_at 0xC0200000 (unat (7 :: u32)) (mem (example_shell ?l s))"
      "line 0xC0200000 (unat (7 :: u32)) (mem (example_shell ?l s)) = ?l"
      using example_shell_line_at [OF e(2,3)] unfolding e(1) by (simp_all only: example_shell_def shell_state.simps)
        (simp_all add: example_shell_def)
  qed
  have "trim ?l = map of_char ''reboot''" by (simp add: trim_def blank_def isspace_def)
  then have tr: "trim (line 0xC0200000 (unat (7 :: u32)) (mem (example_shell ?l s))) = map of_char ''reboot''"
    by (simp only: l(2))
  have n: "names_at example_symbols 0xC0200000 (mem (example_shell ?l s))"
    using example_shell_names by (simp add: example_shell_def)
  have "lookup (map of_char ''reboot'') = Some Cmd_reboot" by (simp add: lookup_def commands_def)
  then show "command_run example_symbols 0xC0200000 7 (example_shell ?l s) =
     Inr ((), outb 0x64 0xFE (example_shell ?l s
       \<lparr>mem := stripped 0xC0200000 7 (example_shell_mem ?l), run_cmd := Some Cmd_reboot\<rparr>))"
    using command_run_dispatches [OF n l(1)] tr
    by (simp add: run_command_def cmd_reboot_def Let_def) (simp add: example_shell_def)
qed

text \<open>The keys of \<open>reboot\<close>, with the release of the first one, and Enter in the buffer.\<close>

definition example_keys :: "keycode list" where
  "example_keys = [114, 0, 101, 98, 111, 111, 116, 10]"

definition example_typing :: "'a shell_state_scheme \<Rightarrow> 'a shell_state_scheme" where
  "example_typing s = (example_shell [] s)\<lparr>keyboard := empty_keyboard
     \<lparr>kb_buff := (\<lambda>i. \<lparr>key_state = kb_state s, key_key = example_keys ! i\<rparr>), kb_len := 8, kb_tail := 8\<rparr>\<rparr>"

theorem typed_line_is_run_witness:
  "\<forall>s :: shell_state. \<exists>t. run_cmd t = Some Cmd_reboot \<and> kb_keys t = [] \<and>
     kshell_rounds example_symbols 0xC0200000 8 0 (example_typing s)
       = Inr (0, command_start ((outb 0x64 0xFE t)\<lparr>mem := memset (mem t) 0xC0200000 0 sizeof_cmd\<rparr>))"
proof
  fix s :: shell_state
  let ?s = "example_typing s" and ?ws = "[114, 0, 101, 98, 111, 111, 116] :: keycode list" and ?tr = "map of_char ''reboot'' :: u8 list"
  have "[0..<8] = [0, 1, 2, 3, 4, 5, 6, 7 :: nat]" by (simp add: upt_rec)
  then have k: "kb_keys ?s = ?ws @ KEY_ENTER # []"
    by (simp add: kb_keys_def kb_queue_def example_typing_def empty_keyboard_def example_keys_def KEY_ENTER_def Let_def)
  have "line_at 0xC0200000 0 (example_shell_mem [])" using example_shell_line_at(1) [of "[]"] by simp
  then have inv: "console_inv example_symbols 0xC0200000 (mem ?s) (?s, 0)"
    using example_shell_names
    by (simp add: console_inv_def example_typing_def example_shell_def kb_inv_def empty_keyboard_def KB_BUFF_ELEMENTS_def
        tty_wf_def SCREEN_WIDTH_def SCREEN_HEIGHT_def)
  have tt: "typed_text ?ws = ?tr" by (simp add: typed_text_def printable_def isprint_def isspace_def)
  have tr: "trim ?tr = ?tr" "lookup ?tr = Some Cmd_reboot"
    by (simp_all add: trim_def blank_def isspace_def lookup_def commands_def)
  have ok: "\<forall>w\<in>set ?ws. w \<notin> {KEY_ENTER, KEY_BACKSPACE}" by (simp add: KEY_ENTER_def KEY_BACKSPACE_def)
  have n: "length (typed_text ?ws) \<le> 1024" "?tr \<noteq> []" "Suc (length ?ws) = 8" unfolding tt by simp_all
  obtain t where t: "kb_keys t = []" "run_cmd t = Some Cmd_reboot"
    "kshell_rounds example_symbols 0xC0200000 8 0 ?s = bindR (run_command Cmd_reboot t)
       (\<lambda>_ s. Inr (0, command_start (s\<lparr>mem := memset (mem s) 0xC0200000 0 sizeof_cmd\<rparr>)))"
    using typed_line_is_run [OF inv k ok n(1) _ n(2), unfolded tt n(3), OF tr(1), unfolded tr(2)] by auto
  moreover have "mem (outb 0x64 0xFE t) = mem t" by (simp add: outb_def)
  ultimately show "\<exists>t. run_cmd t = Some Cmd_reboot \<and> kb_keys t = [] \<and>
     kshell_rounds example_symbols 0xC0200000 8 0 ?s
       = Inr (0, command_start ((outb 0x64 0xFE t)\<lparr>mem := memset (mem t) 0xC0200000 0 sizeof_cmd\<rparr>))"
    by (intro exI [of _ t]) (simp add: run_command_def cmd_reboot_def)
qed

theorem command_run_blank_line_witness:
  "\<forall>s :: shell_state. \<exists>u. command_run example_symbols 0xC0200000 0 (example_shell [] s) = Inl (Undefined, u)"
proof
  fix s :: shell_state
  show "\<exists>u. command_run example_symbols 0xC0200000 0 (example_shell [] s) = Inl (Undefined, u)"
    by (rule command_run_blank_line) (simp_all add: line_simps)
qed

text \<open>The start of the console, a key press and the round that reads it.\<close>

theorem console_keeps_to_its_line_witness:
  "\<forall>s :: shell_state. \<exists>n0 s0 t. kshell_start 0xC0200000 (example_shell [] s) = Inr (n0, s0) \<and>
     console example_symbols 0xC0200000 (s0, n0) (t, n0) \<and>
     (\<forall>a. 1024 \<le> a - 0xC0200000 \<longrightarrow> mem t a = example_shell_mem [] a) \<and> tty_wf t"
proof
  fix s :: shell_state
  let ?s = "example_shell [] s"
  have h: "names_at example_symbols 0xC0200000 (mem ?s)" "kb_inv ?s" "tty_wf ?s"
    using example_shell_names empty_keyboard_inv(1) [of s]
    by (simp_all add: example_shell_def tty_wf_def kb_inv_def SCREEN_WIDTH_def SCREEN_HEIGHT_def)
  obtain r where r: "kshell_start 0xC0200000 ?s = Inr (0, r)"
    by (rule kshell_start_inv [OF h])
  let ?r = "r\<lparr>port_in := (port_in r)(0x60 := 0x2a)\<rparr>"
  have "isr_key_press ?r = Inr ((), outb 0x20 0x20 (?r\<lparr>kb_state := mod_step 0x2a (kb_state ?r)\<rparr>))"
    using isr_key_press_modifier [of ?r] by (simp add: modifier_code_def)
  then obtain t where t: "console example_symbols 0xC0200000 (r, 0) (t, 0)" by (blast intro: Press)
  then have "(console example_symbols 0xC0200000)\<^sup>*\<^sup>* (r, 0) (t, 0)" by blast
  from console_keeps_to_its_line [OF h r this] t r
  show "\<exists>n0 s0 t. kshell_start 0xC0200000 ?s = Inr (n0, s0) \<and>
     console example_symbols 0xC0200000 (s0, n0) (t, n0) \<and>
     (\<forall>a. 1024 \<le> a - 0xC0200000 \<longrightarrow> mem t a = example_shell_mem [] a) \<and> tty_wf t"
    by (auto simp: example_shell_def)
qed

end
