(* ===== verification/Boot.thy ===== *)
theory Boot
  imports Bootmem TaskCreate Console
begin

text \<open>
  The boot task: what \<^verbatim>\<open>task_init\<close> of \<^verbatim>\<open>kernel/task/task.c\<close> makes of the memory that \<^verbatim>\<open>memory_init\<close> leaves,
  and task creation on the example machine from there.
\<close>

section \<open>The boot task\<close>

lemma task_init_ring:
  assumes "boot_heap B 984 s"
  obtains t where "task_init s = Inr ((), t)" "task_heap B 972 [974] t" "vmm_free_set t = vmm_free_set s"
    "current_task t = slot B 974" "rd (task_pid (slot B 974)) t = 0"
    "rd (task_page_directory_phys (slot B 974)) t = kernel_page_directory s"
    "\<exists>mm. t = s\<lparr>mem := mm, current_task := slot B 974, task_list_head := slot B 974, task_list_tail := slot B 974\<rparr>"
    "\<And>q j. page_aligned q \<Longrightarrow> j < 1024 \<Longrightarrow> q \<noteq> B \<or> 984 \<le> j \<Longrightarrow> rd (slot q j) t = rd (slot q j) s"
proof -
  obtain u where u: "kmalloc sizeof_task s = Inr (slot B (984 - 10), u)" "boot_heap B (984 - 12) u"
    "vmm_free_set u = vmm_free_set s" "\<exists>mm. u = s\<lparr>mem := mm\<rparr>" "slot B (984 - 10) \<noteq> 0"
    "\<And>q j. page_aligned q \<Longrightarrow> j < 1024 \<Longrightarrow> q \<noteq> B \<or> j \<notin> {0, 984 - 12, 984 - 11, 984 - 10} \<Longrightarrow>
      rd (slot q j) u = rd (slot q j) s"
    by (rule kmalloc_task [OF assms]) (simp, blast)
  note p = boot_heap_pages [OF u(2)]
  let ?b = "slot B 974"
  define v where "v = wr (slot B 976) (kernel_page_directory s) (wr (slot B 983) ?b (wr (slot B 977) 0 u))"
  have o: "outside_heap B B i u" if "2 \<le> i" "i < 986" for i
    using that p(1,6) by (auto simp: outside_heap_def)
  have "boot_heap B 972 v \<and> vmm_free_set v = vmm_free_set u"
  proof -
    let ?x = "wr (slot B 977) 0 u"
    have x: "boot_heap B 972 ?x" "vmm_free_set ?x = vmm_free_set u" "\<And>i. outside_heap B B i ?x = outside_heap B B i u"
      using boot_heap_wr [where B = B and m = 972 and s = u and q = B and j = 977 and v = 0] u(2) o [of 977] by simp_all
    let ?y = "wr (slot B 983) ?b ?x"
    have y: "boot_heap B 972 ?y" "vmm_free_set ?y = vmm_free_set u" "\<And>i. outside_heap B B i ?y = outside_heap B B i u"
      using boot_heap_wr [where B = B and m = 972 and s = ?x and q = B and j = 983 and v = ?b] x o [of 983] by simp_all
    show ?thesis unfolding v_def
      using boot_heap_wr [where B = B and m = 972 and s = ?y and q = B and j = 976 and v = "kernel_page_directory s"] y o [of 976] by simp
  qed
  then have v: "boot_heap B 972 v" "vmm_free_set v = vmm_free_set s" using u(3) by simp_all
  let ?t = "v\<lparr>current_task := ?b, task_list_head := ?b, task_list_tail := ?b\<rparr>"
  have kd: "kernel_page_directory (wr (slot B 983) ?b (wr (slot B 977) 0 u)) = kernel_page_directory s"
    using u(4) by (auto simp: wr_def)
  have call: "task_init s = Inr ((), ?t)"
    using u(1,5) kd by (simp add: task_init_def Let_def task_slots v_def)
  have rt: "rd a ?t = rd a v" for a by (simp add: rd_def)
  have rh: "rd a (w\<lparr>task_list_head := x\<rparr>) = rd a w" for a x and w :: "'a task_state_scheme"
    by (simp add: rd_def)
  have bt: "boot_heap B 972 ?t"
    by (rule boot_heap_cong(1) [OF v(1)]; simp add: rh)
  moreover have "vmm_free_set ?t = vmm_free_set v"
    by (rule boot_heap_cong(2) [OF v(1)]; simp add: rh)
  ultimately have bt: "boot_heap B 972 ?t" "vmm_free_set ?t = vmm_free_set v" by simp_all
  have "task_ring (map (slot B) [974]) ?t"
    using p(1) u(5) by (simp add: task_ring_def rt rh task_slots v_def rd_slot_wr)
  then have th: "task_heap B 972 [974] ?t" using bt(1) by (simp add: task_heap_def)
  have keep: "rd (slot q j) ?t = rd (slot q j) s" if "page_aligned q" "j < 1024" "q \<noteq> B \<or> 984 \<le> j" for q j
  proof -
    have "rd (slot q j) v = rd (slot q j) u" using that p(1) by (auto simp: v_def rd_slot_wr)
    also have "\<dots> = rd (slot q j) s" using that by (intro u(6)) auto
    finally show ?thesis by (simp add: rt rh)
  qed
  show ?thesis
  proof (rule that [OF call th _ _ _ _ _ keep])
    show "vmm_free_set ?t = vmm_free_set s" using bt(2) v(2) by simp
    show "rd (task_pid ?b) ?t = 0" "rd (task_page_directory_phys ?b) ?t = kernel_page_directory s"
      using p(1) by (simp_all add: rt rh task_slots v_def rd_slot_wr)
    show "\<exists>mm. ?t = s\<lparr>mem := mm, current_task := ?b, task_list_head := ?b, task_list_tail := ?b\<rparr>"
      using u(4) by (auto simp: v_def wr_def)
  qed simp_all
qed

text \<open>The example machine with memory initialised and its boot task.\<close>

lemma example_boot_task:
  obtains t where "bindR (memory_init example_symbols (example_boot s)) (\<lambda>_. task_init) = Inr ((), t)"
    "task_heap 0xC0112000 972 [974] t" "vmm_free_set t \<noteq> {}" "rd (task_pid (slot 0xC0112000 974)) t = 0"
proof -
  have st: "unat (starting_addr (pmm (example_boot s))) div 4096 + 1 = 513"
    by (simp add: example_boot_def example_pool_def)
  obtain u where u: "memory_init example_symbols (example_boot s) = Inr ((), u)"
    "boot_heap (sym_kmalloc_init_block example_symbols) 984 u" "vmm_free_set u = vmm_page_addr ` {513<..<1021}"
    by (rule memory_init_state [OF example_boot_ready [of s], unfolded st]) (rule that)
  have "sym_kmalloc_init_block example_symbols = 0xC0112000" by (simp add: example_symbols_def)
  with u(2) have "boot_heap 0xC0112000 984 u" by simp
  then obtain t where "task_init u = Inr ((), t)" "task_heap 0xC0112000 972 [974] t" "vmm_free_set t = vmm_free_set u"
    "rd (task_pid (slot 0xC0112000 974)) t = 0"
    by (rule task_init_ring) blast
  moreover have "vmm_page_addr 514 \<in> vmm_free_set u" unfolding u(3) by (intro imageI) simp
  then have "vmm_free_set u \<noteq> {}" by blast
  ultimately show ?thesis using u(1) by (intro that [of t]) simp_all
qed

theorem task_create_kernel_starts_witness:
  "\<forall>s :: task_state. \<exists>t u. bindR (memory_init example_symbols (example_boot s)) (\<lambda>_. task_init) = Inr ((), t) \<and>
     task_create_kernel example_symbols t = Inr ((), u) \<and> task_heap 0xC0112000 960 [974, 962] u \<and>
     rd (task_pid (slot 0xC0112000 962)) u = 1 \<and> r_eip (cpu (task_switch_asm (slot 0xC0112000 962) u)) = 0xC0103000"
proof
  fix s :: task_state
  obtain t where t: "bindR (memory_init example_symbols (example_boot s)) (\<lambda>_. task_init) = Inr ((), t)"
    "task_heap 0xC0112000 972 [974] t" "vmm_free_set t \<noteq> {}" "rd (task_pid (slot 0xC0112000 974)) t = 0"
    by (rule example_boot_task)
  have e: "sym_task_test example_symbols = 0xC0103000" by (simp add: example_symbols_def)
  from task_create_kernel_starts [OF t(2) _ t(3), of example_symbols] t(4) e
  have "\<exists>u. task_create_kernel example_symbols t = Inr ((), u) \<and> task_heap 0xC0112000 960 [974, 962] u \<and>
     rd (task_pid (slot 0xC0112000 962)) u = 1 \<and> r_eip (cpu (task_switch_asm (slot 0xC0112000 962) u)) = 0xC0103000"
    by (auto simp: kernel_start_def)
  with t(1) show "\<exists>t u. bindR (memory_init example_symbols (example_boot s)) (\<lambda>_. task_init) = Inr ((), t) \<and>
     task_create_kernel example_symbols t = Inr ((), u) \<and> task_heap 0xC0112000 960 [974, 962] u \<and>
     rd (task_pid (slot 0xC0112000 962)) u = 1 \<and> r_eip (cpu (task_switch_asm (slot 0xC0112000 962) u)) = 0xC0103000"
    by blast
qed

theorem task_create_user_starts_witness:
  "\<forall>s :: task_state. \<exists>t u. bindR (memory_init example_symbols (example_boot s)) (\<lambda>_. task_init) = Inr ((), t) \<and>
     task_create_user example_symbols t = Inr ((), u) \<and> task_heap 0xC0112000 960 [974, 962] u \<and>
     cpu (task_switch_asm (slot 0xC0112000 962) u) = (user_start example_symbols)\<lparr>r_eflags := 0x202\<rparr>"
proof
  fix s :: task_state
  obtain t where t: "bindR (memory_init example_symbols (example_boot s)) (\<lambda>_. task_init) = Inr ((), t)"
    "task_heap 0xC0112000 972 [974] t" "vmm_free_set t \<noteq> {}" "rd (task_pid (slot 0xC0112000 974)) t = 0"
    by (rule example_boot_task)
  from task_create_user_starts [OF t(2) _ t(3), of example_symbols]
  have "\<exists>u. task_create_user example_symbols t = Inr ((), u) \<and> task_heap 0xC0112000 960 [974, 962] u \<and>
     cpu (task_switch_asm (slot 0xC0112000 962) u) = (user_start example_symbols)\<lparr>r_eflags := 0x202\<rparr>"
    by auto
  with t(1) show "\<exists>t u. bindR (memory_init example_symbols (example_boot s)) (\<lambda>_. task_init) = Inr ((), t) \<and>
     task_create_user example_symbols t = Inr ((), u) \<and> task_heap 0xC0112000 960 [974, 962] u \<and>
     cpu (task_switch_asm (slot 0xC0112000 962) u) = (user_start example_symbols)\<lparr>r_eflags := 0x202\<rparr>"
    by blast
qed

end
