(* ===== verification/Mmap.thy ===== *)
theory Mmap
  imports Pmm
begin

text \<open>
  The memory map of the boot loader as \<^verbatim>\<open>pmm_init\<close> of \<^verbatim>\<open>kernel/memory/pmm.c\<close> reads it: the walk over the
  entries ends, what it reports is the last available region, and with a usable map and a boot module
  \<^verbatim>\<open>pmm_init\<close> leaves a pool above the kernel image whose first frames are free.
\<close>

section \<open>The memory map\<close>

text \<open>
  The map read as a list of entries of 24 bytes; the walk visits the entries that start below the length of the map,
  and what it reports comes from the last available one.
\<close>

definition map_entries :: "multiboot_info \<Rightarrow> nat" where
  "map_entries mbt = (unat (mmap_length mbt) + 23) div 24"

definition region_available :: "bytes \<Rightarrow> multiboot_info \<Rightarrow> nat \<Rightarrow> bool" where
  "region_available m mbt k \<longleftrightarrow> mme_type (mmap_entry_at m (mmap_addr mbt + of_nat (24 * k))) = MULTIBOOT_MEMORY_AVAILABLE"

definition region_base :: "bytes \<Rightarrow> multiboot_info \<Rightarrow> nat \<Rightarrow> u32" where
  "region_base m mbt k = addr_low (mmap_entry_at m (mmap_addr mbt + of_nat (24 * k)))"

definition region_len :: "bytes \<Rightarrow> multiboot_info \<Rightarrow> nat \<Rightarrow> u32" where
  "region_len m mbt k = len_low (mmap_entry_at m (mmap_addr mbt + of_nat (24 * k)))"

definition last_region :: "bytes \<Rightarrow> multiboot_info \<Rightarrow> nat \<Rightarrow> u32 \<times> u32 option \<Rightarrow> u32 \<times> u32 option" where
  "last_region m mbt n r = (case List.find (region_available m mbt) (rev [0..<n]) of
     None \<Rightarrow> r
   | Some k \<Rightarrow> (region_len m mbt k, Some (region_base m mbt k + region_len m mbt k)))"

lemma last_region_Suc:
  "last_region m mbt (Suc n) r = (if region_available m mbt n
     then (region_len m mbt n, Some (region_base m mbt n + region_len m mbt n)) else last_region m mbt n r)"
  by (simp add: last_region_def)

lemma mmap_scan_from:
  assumes "unat (mmap_length mbt) \<le> 2 ^ 32 - 24" "k \<le> map_entries mbt"
  shows "mmap_scan m mbt (of_nat (24 * k)) (fst (last_region m mbt k r)) (snd (last_region m mbt k r))
    = Some (last_region m mbt (map_entries mbt) r)"
  using assms(2)
proof (induction "map_entries mbt - k" arbitrary: k rule: less_induct)
  case less
  have lim: "24 * k < 2 ^ 32" using less.prems assms(1) by (simp add: map_entries_def)
  have u: "unat (of_nat (24 * k) :: u32) = 24 * k" using lim by (simp only: unat_of_nat) simp
  have lt: "of_nat (24 * k) < mmap_length mbt \<longleftrightarrow> k < map_entries mbt"
    unfolding word_less_nat_alt u by (auto simp: map_entries_def)
  show ?case
  proof (cases "k < map_entries mbt")
    case False
    then have "k = map_entries mbt" using less.prems by simp
    then show ?thesis using lt by (subst mmap_scan.simps) simp
  next
    case True
    define i where "i = (of_nat (24 * k) :: u32)"
    have e: "region_available m mbt k \<longleftrightarrow> mme_type (mmap_entry_at m (mmap_addr mbt + i)) = MULTIBOOT_MEMORY_AVAILABLE"
      "region_base m mbt k = addr_low (mmap_entry_at m (mmap_addr mbt + i))"
      "region_len m mbt k = len_low (mmap_entry_at m (mmap_addr mbt + i))"
      unfolding i_def by (simp_all only: region_available_def region_base_def region_len_def)
    have "i + 24 = of_nat (24 * Suc k)" by (simp add: i_def)
    then have "mmap_scan m mbt (i + 24) (fst (last_region m mbt (Suc k) r)) (snd (last_region m mbt (Suc k) r))
        = Some (last_region m mbt (map_entries mbt) r)"
      using less.hyps [of "Suc k"] True by (simp add: add.commute)
    moreover have "i < mmap_length mbt" using lt True by (simp only: i_def)
    ultimately show ?thesis
      unfolding i_def [symmetric]
      by (subst mmap_scan.simps, cases "region_available m mbt k") (simp_all add: Let_def last_region_Suc e sizeof_mmap_entry_def)
  qed
qed

section \<open>The pool at boot\<close>

text \<open>
  A usable map: its last available region ends below 1 GiB and has 32 frames or more above the kernel image; no
  frame is marked yet, and the boot module is in one of the first frames after the first.
\<close>

definition first_frame :: "symbols \<Rightarrow> nat" where
  "first_frame L = (unat (sym_kernel_end_phys L) + 4095) div 4096 * 4096"

definition usable_map :: "symbols \<Rightarrow> multiboot_info \<Rightarrow> 'a pmm_state_scheme \<Rightarrow> bool" where
  "usable_map L mbt s \<longleftrightarrow> bit (mbi_flags mbt) 6 \<and> unat (mmap_length mbt) \<le> 2 ^ 32 - 24 \<and>
     (case List.find (region_available (mem s) mbt) (rev [0..<map_entries mbt]) of
        None \<Rightarrow> False
      | Some k \<Rightarrow> first_frame L + 32 * 4096 + 4095 \<le> unat (region_base (mem s) mbt k + region_len (mem s) mbt k) \<and>
          unat (region_base (mem s) mbt k + region_len (mem s) mbt k) \<le> 0x40000000) \<and>
     0 < sym_kernel_end_phys L \<and> unat (sym_kernel_end_phys L) \<le> 4096 * 1015 \<and> bitmap (pmm s) = (\<lambda>_. 0) \<and>
     (\<exists>k. 0 < k \<and> k < 64 \<and> unat (rd (mods_addr mbt) s) = first_frame L + 4096 * k)"

lemma pmm_init_usable:
  assumes "usable_map L mbt s"
  obtains t where "pmm_init L mbt s = Inr ((), t)" "pmm_wf (pmm t)" "unat (starting_addr (pmm t)) = first_frame L"
    "first_frame L + 4096 * pool_size (pmm t) \<le> 0x40000000"
    "page_free (pmm t) 0" "page_free (pmm t) 1" "page_free (pmm t) 2"
    "mem t = mem s" "int_flag t = int_flag s" "pmm_state.more t = pmm_state.more s"
proof -
  obtain n where n: "List.find (region_available (mem s) mbt) (rev [0..<map_entries mbt]) = Some n"
    using assms by (auto simp: usable_map_def split: option.splits)
  define e where "e = region_base (mem s) mbt n + region_len (mem s) mbt n"
  have a: "bit (mbi_flags mbt) 6" "unat (mmap_length mbt) \<le> 2 ^ 32 - 24"
    "first_frame L + 32 * 4096 + 4095 \<le> unat e" "unat e \<le> 0x40000000"
    "0 < sym_kernel_end_phys L" "unat (sym_kernel_end_phys L) \<le> 4096 * 1015" "bitmap (pmm s) = (\<lambda>_. 0)"
    using assms n by (simp_all add: usable_map_def e_def)
  obtain k where k: "0 < k" "k < 64" "unat (rd (mods_addr mbt) s) = first_frame L + 4096 * k"
    using assms by (auto simp: usable_map_def)
  define s1 where "s1 = s\<lparr>pmm := (pmm s)\<lparr>total_memory := region_len (mem s) mbt n\<rparr>\<rparr>"
  define s2 where "s2 = pmm_init_struct L e s1"
  have scan: "mmap_scan (mem s) mbt 0 (total_memory (pmm s)) None = Some (region_len (mem s) mbt n, Some e)"
    using mmap_scan_from [OF a(2), of 0 "mem s" "(total_memory (pmm s), None)"] n
    by (simp add: last_region_def e_def)
  have flag: "drop_bit 6 (mbi_flags mbt) AND 1 \<noteq> 0" using a(1) bit_drop_bit_eq [of 6 "mbi_flags mbt"]
    by (auto simp: and_one_eq odd_iff_mod_2_eq_one [symmetric] bit_0 [symmetric] bit_simps)
  have "(unat (sym_kernel_end_phys L) + 4095) div 4096 * 4096 \<le> unat e" "unat (sym_kernel_end_phys L) \<le> 2 ^ 32 - 4096"
    "unat e < 0xFFFFF000" using a by (simp_all add: first_frame_def)
  note v = pmm_init_struct_values [OF this(2,3,1), of s1, folded s2_def first_frame_def]
  have f: "bitmap (pmm s2) = (\<lambda>_. 0)" "\<exists>p. s2 = s\<lparr>pmm := p\<rparr>"
    using a(7) by (auto simp: s2_def s1_def pmm_init_struct_def Let_def)
  have st: "unat (starting_addr (pmm s2)) = first_frame L" using v(1) by (simp add: first_frame_def)
  have pc: "first_frame L + 4096 * unat (page_count (pmm s2)) = unat e - unat e mod 4096"
    using v(2) by (simp add: first_frame_def)
  have sz: "32 \<le> pool_size (pmm s2)" "pool_size (pmm s2) \<le> unat (page_count (pmm s2))"
    using pc a(3) by (auto simp: pool_size_def) 
  have top: "first_frame L + 4096 * pool_size (pmm s2) \<le> 0x40000000" using pc sz(2) a(4) by linarith
  have "0 < unat (sym_kernel_end_phys L)" using a(5) by (simp add: unat_gt_0)
  then have pos: "0 < first_frame L" by (simp add: first_frame_def)
  have "0 < starting_addr (pmm s2)" using pos st by (simp add: word_less_nat_alt)
  then have wf: "pmm_wf (pmm s2)" using top st by (simp add: pmm_wf_def PMM_BITMAP_WORDS_def)
  have m: "rd (mods_addr mbt) s2 = page_addr (pmm s2) k"
  proof -
    have "first_frame L + 4096 * k < 2 ^ 32" using k(2) top by simp
    then have "unat (page_addr (pmm s2) k) = first_frame L + 4096 * k"
      using k(2) by (simp add: page_addr_def PAGE_SIZE_def unat_word_ariths unat_of_nat st)
    moreover have "rd (mods_addr mbt) s2 = rd (mods_addr mbt) s" using f(2) by (auto simp: rd_def)
    ultimately show ?thesis using k(3) by (simp add: word_unat_eq_iff)
  qed
  obtain t where t: "pmm_init_user_task (mods_addr mbt) s2 = Inr ((), t)" "pmm t = mark_page (4096 * k) (pmm s2)"
    using pmm_init_user_task_misses_module [OF m k(1,2)] by blast
  have fr: "page_free (pmm t) i" if "i < 3" for i
    using that k(1) sz(1) f(1) by (auto simp: t(2) page_free_mark) (simp add: page_free_def)
  show ?thesis
  proof (rule that [of t])
    show "pmm_init L mbt s = Inr ((), t)"
      using flag scan t(1) by (simp add: pmm_init_def Let_def s2_def s1_def)
    show "pmm_wf (pmm t)" "unat (starting_addr (pmm t)) = first_frame L"
      "first_frame L + 4096 * pool_size (pmm t) \<le> 0x40000000" using wf st top by (simp_all add: t(2)) (simp add: mark_page_def)
    show "page_free (pmm t) 0" "page_free (pmm t) 1" "page_free (pmm t) 2" by (simp_all add: fr)
    show "mem t = mem s" "int_flag t = int_flag s" "pmm_state.more t = pmm_state.more s"
      using t(1) f(2) by (auto simp: pmm_init_user_task_def Let_def task_init_user_task_info_def split: if_splits)
  qed
qed

section \<open>Properties\<close>

lemma wrapped_step:
  assumes "2 ^ 32 - 8 < unat (len :: u32)" "unat i mod 8 = 0"
  shows "i < len" "unat (i + 24) mod 8 = 0"
proof -
  have lt: "unat i < 2 ^ 32" using unsigned_less [of i] by simp
  obtain q where q: "unat i = 8 * q" using assms(2) by (auto simp: mod_eq_0_iff_dvd elim: dvdE)
  then have "q < 2 ^ 29" using lt by simp
  then have "unat i \<le> 2 ^ 32 - 8" using q by simp
  then show "i < len" using assms(1) by (simp add: word_less_nat_alt)
  have "unat (i + 24) mod 8 = (unat i + 24) mod 2 ^ 32 mod 8" by (simp add: unat_word_ariths)
  also have "\<dots> = (unat i + 24) mod 8" by (rule mod_mod_cancel) simp
  finally show "unat (i + 24) mod 8 = 0" using q by simp
qed

lemma mmap_scan_wraps:
  assumes "mmap_scan m mbt i tot lst = Some y"
  shows "2 ^ 32 - 8 < unat (mmap_length mbt) \<longrightarrow> unat i mod 8 \<noteq> 0"
proof (rule mmap_scan.raw_induct [OF _ assms])
  fix scan :: "bytes \<Rightarrow> multiboot_info \<Rightarrow> u32 \<Rightarrow> u32 \<Rightarrow> u32 option \<Rightarrow> (u32 \<times> u32 option) option"
    and m mbt i tot lst y
  assume IH: "\<And>m mbt i tot lst y. scan m mbt i tot lst = Some y \<Longrightarrow>
      2 ^ 32 - 8 < unat (mmap_length mbt) \<longrightarrow> unat i mod 8 \<noteq> 0"
    and run: "(if i < mmap_length mbt
        then let entry = mmap_entry_at m (mmap_addr mbt + i)
             in if mme_type entry = MULTIBOOT_MEMORY_AVAILABLE
                then scan m mbt (i + sizeof_mmap_entry) (len_low entry) (Some (addr_low entry + len_low entry))
                else scan m mbt (i + sizeof_mmap_entry) tot lst
        else Some (tot, lst)) = Some y"
  show "2 ^ 32 - 8 < unat (mmap_length mbt) \<longrightarrow> unat i mod 8 \<noteq> 0"
  proof (intro impI notI)
    assume len: "2 ^ 32 - 8 < unat (mmap_length mbt)" and i: "unat i mod 8 = 0"
    note w = wrapped_step [OF len i]
    from run w(1) obtain tot' lst' where "scan m mbt (i + 24) tot' lst' = Some y"
      unfolding Let_def sizeof_mmap_entry_def by (metis (full_types))
    from IH [OF this] len w(2) show False by blast
  qed
qed

text \<open>
  C29: the walk over the memory map ends, and what it reports is the last available region of the map, not the sum of
  the regions. For a map of up to 2^32 - 24 bytes it returns that region's length and end, or what it was given when no
  region is available; for a map longer than 2^32 - 8 bytes the 32-bit index never reaches the end.
\<close>

theorem mmap_scan_last_region:
  "(unat (mmap_length mbt) \<le> 2 ^ 32 - 24 \<longrightarrow>
     mmap_scan m mbt 0 tot lst = Some (last_region m mbt (map_entries mbt) (tot, lst))) \<and>
   (2 ^ 32 - 8 < unat (mmap_length mbt) \<longrightarrow> mmap_scan m mbt 0 tot lst = None)"
proof (intro conjI impI)
  assume "unat (mmap_length mbt) \<le> 2 ^ 32 - 24"
  from mmap_scan_from [OF this, of 0 m "(tot, lst)"]
  show "mmap_scan m mbt 0 tot lst = Some (last_region m mbt (map_entries mbt) (tot, lst))"
    by (simp add: last_region_def)
next
  assume l: "2 ^ 32 - 8 < unat (mmap_length mbt)"
  show "mmap_scan m mbt 0 tot lst = None"
  proof (cases "mmap_scan m mbt 0 tot lst")
    case (Some y)
    with mmap_scan_wraps [OF this] l show ?thesis by simp
  qed
qed

text \<open>A map of two regions, of which the second is reserved.\<close>

definition example_map :: multiboot_info where
  "example_map = \<lparr>mbi_flags = 0x40, mods_count = 1, mods_addr = 0x9000, mmap_length = 48, mmap_addr = 0x8000\<rparr>"

definition example_map_mem :: "bytes \<Rightarrow> bytes" where
  "example_map_mem m = store32 (store32 (store32 (store32 (store32 (m)
     0x8004 0x100000) 0x800C 0x700000) 0x8014 1) 0x802C 2) 0x9000 0x126000"

theorem mmap_scan_last_region_witness:
  "\<forall>m. mmap_scan (example_map_mem m) example_map 0 0 None = Some (0x700000, Some 0x800000) \<and>
     mmap_scan m (example_map\<lparr>mmap_length := 0xFFFFFFF9\<rparr>) 0 0 None = None"
proof
  fix m
  have "load32 (example_map_mem m) 0x8014 = 1" "load32 (example_map_mem m) 0x802C = 2"
    "load32 (example_map_mem m) 0x8004 = 0x100000" "load32 (example_map_mem m) 0x800C = 0x700000"
    unfolding example_map_mem_def by (simp_all add: load32_store32_apart apart32_def)
  then have "last_region (example_map_mem m) example_map 2 (0, None) = (0x700000, Some 0x800000)"
    by (simp add: last_region_def numeral_2_eq_2 region_available_def region_base_def region_len_def
        MULTIBOOT_MEMORY_AVAILABLE_def example_map_def mmap_entry_at_def)
  then show "mmap_scan (example_map_mem m) example_map 0 0 None = Some (0x700000, Some 0x800000) \<and>
     mmap_scan m (example_map\<lparr>mmap_length := 0xFFFFFFF9\<rparr>) 0 0 None = None"
    using mmap_scan_last_region [of example_map "example_map_mem m" 0 None]
      mmap_scan_last_region [of "example_map\<lparr>mmap_length := 0xFFFFFFF9\<rparr>" m 0 None]
    by (simp add: map_entries_def) (simp add: example_map_def)
qed

end
