(* ===== verification/Kmain.thy ===== *)
theory Kmain
  imports Boot Mmap
begin

text \<open>
  The entry of the kernel: \<^verbatim>\<open>higher_half_kernel\<close> of \<^verbatim>\<open>kernel/boot/boot.asm\<close> with \<^verbatim>\<open>kernel/memory/init_gdt.asm\<close>, and
  \<^verbatim>\<open>kmain\<close> of \<^verbatim>\<open>kernel/kernel.c\<close> from the multiboot information to the loop of the console. A machine
  booted by another loader stops with interrupts off; with a usable memory map the kernel reaches the console
  with its three tasks.
\<close>

section \<open>State and operations\<close>

record kernel_state = shell_state +
  gdtr :: gdt_pointer
  task_register :: u16

definition MULTIBOOT_BOOTLOADER_MAGIC :: u32 where
  "MULTIBOOT_BOOTLOADER_MAGIC = 0x2BADB002"

text \<open>\<^verbatim>\<open>gdt_init_asm\<close>: the far jump and the moves that load the segment registers change the processor's segments.\<close>

definition gdt_init_asm :: "symbols \<Rightarrow> 'a kernel_state_scheme \<Rightarrow> 'a kernel_state_scheme" where
  "gdt_init_asm L s =
     (let s = cli s;
          s = snd (gdt_init L s);
          s = s\<lparr>gdtr := gdt_descriptor s\<rparr>;
          s = s\<lparr>cr0 := cr0 s OR 1\<rparr>;
          s = s\<lparr>cpu := (cpu s)\<lparr>r_cs := GDT_KERNEL_CODE_SEG\<rparr>\<rparr>
      in s\<lparr>cpu := (cpu s)\<lparr>r_ds := GDT_KERNEL_DATA_SEG, r_ss := GDT_KERNEL_DATA_SEG\<rparr>\<rparr>)"

definition gdt_load_tss_asm :: "'a kernel_state_scheme \<Rightarrow> 'a kernel_state_scheme" where
  "gdt_load_tss_asm s = s\<lparr>task_register := ucast GDT_TSS_SEG\<rparr>"

text \<open>The end of \<^verbatim>\<open>kmain\<close>, from the scheduler on; \<open>cmd\<close> is the address of the console's array.\<close>

definition kmain_last :: "u32 \<Rightarrow> 'a kernel_state_scheme \<Rightarrow> ('a kernel_state_scheme, u32) result" where
  "kmain_last cmd s =
     bindR (kprintf (litn ''[-] Initializing Scheduler...'') [] s) (\<lambda>_ s.
     let s = scheduler_init s in
     bindR (paging_add_temp_userspace s) (\<lambda>_ s.
     bindR (kprintf (litn ''[-] Initializing Keyboard...'') [] s) (\<lambda>_ s.
     let s = keyboard_init s;
         timer_frequency = 20 in
     bindR (kprintf (litn ''[-] Initializing Timer (Freq: %dHz)...'') [VInt timer_frequency] s) (\<lambda>_ s.
     bindR (pic_init timer_frequency False s) (\<lambda>_ s.
     bindR (kprintf (litn ''[-] Launching Kernel Console...'') [] s) (\<lambda>_ s.
     kshell_start cmd s))))))"

text \<open>
  \<^verbatim>\<open>kmain\<close> up to the first round of the console's loop, whose first length of the line is the
  result.
\<close>

definition kmain ::
  "symbols \<Rightarrow> multiboot_info \<Rightarrow> u32 \<Rightarrow> u32 \<Rightarrow> 'a kernel_state_scheme \<Rightarrow> ('a kernel_state_scheme, u32) result" where
  "kmain L mbt magic cmd s =
     (let s = initialize_terminal s in
     bindR (kprintf (litn ''[-] Terminal Initalized'') [] s) (\<lambda>_ s.
     bindR (kprintf (litn ''[-] Initializing Interrupts...'') [] s) (\<lambda>_ s.
     let s = interrupt_init L s in
     bindR (if magic \<noteq> MULTIBOOT_BOOTLOADER_MAGIC
            then panic (Some (lit ''invalid bootloader magic number'')) s else Inr ((), s)) (\<lambda>_ s.
     bindR (kprintf (litn ''[-] Initializing Physical Memory Management...'') [] s) (\<lambda>_ s.
     bindR (pmm_init L mbt s) (\<lambda>_ s.
     bindR (kprintf (litn ''[-] Initializing Paging and Virtual Memory...'') [] s) (\<lambda>_ s.
     bindR (memory_init L s) (\<lambda>_ s.
     let s = gdt_load_tss_asm s in
     bindR (task_init s) (\<lambda>_ s.
     bindR (task_create_kernel L s) (\<lambda>_ s.
     bindR (task_create_user L s) (\<lambda>_ s.
     kmain_last cmd s)))))))))))"

text \<open>
  The code from \<^verbatim>\<open>higher_half_kernel\<close> on; were \<^verbatim>\<open>kmain\<close> to return, the processor would be halted with
  interrupts off, so the result of the model is again the start of the console's loop.
\<close>

definition higher_half_kernel ::
  "symbols \<Rightarrow> multiboot_info \<Rightarrow> u32 \<Rightarrow> u32 \<Rightarrow> 'a kernel_state_scheme \<Rightarrow> ('a kernel_state_scheme, u32) result" where
  "higher_half_kernel L mbt magic cmd s = kmain L mbt magic cmd (gdt_init_asm L s)"

section \<open>What the messages leave alone\<close>

lemma same_kernel_kernel:
  fixes s t :: "'a kernel_state_scheme"
  assumes "same_kernel s t"
  shows "mem t = mem s" "cr3 t = cr3 s" "pmm t = pmm s" "kernel_page_directory t = kernel_page_directory s"
    "block_list_head t = block_list_head s" "vmm_block_list_head t = vmm_block_list_head s"
    "task_list_head t = task_list_head s" "task_list_tail t = task_list_tail s" "current_task t = current_task s"
    "scheduler_initialized t = scheduler_initialized s" "idt_handlers t = idt_handlers s" "int_flag t = int_flag s"
    "user_task_once t = user_task_once s" "task_register t = task_register s" "keyboard t = keyboard s"
    "global_descriptor_table t = global_descriptor_table s" "tss_region t = tss_region s"
  using assms by (cases s; cases t; simp add: same_kernel_def)+

text \<open>The states of the memory components and the ring are in memory and in these variables.\<close>

lemma kernel_core:
  fixes s t :: "'a task_state_scheme"
  assumes "mem t = mem s" "block_list_head t = block_list_head s" "vmm_block_list_head t = vmm_block_list_head s"
    "kernel_page_directory t = kernel_page_directory s" "cr3 t = cr3 s"
    "task_list_head t = task_list_head s" "task_list_tail t = task_list_tail s"
  shows "rd a t = rd a s" "boot_heap B m t = boot_heap B m s" "vmm_free_set t = vmm_free_set s"
    "kernel_space t = kernel_space s" "task_ring ks t = task_ring ks s" "task_heap B m js t = task_heap B m js s"
proof -
  show r: "rd a t = rd a s" for a by (simp add: rd_def assms(1))
  show f: "vmm_free_set t = vmm_free_set s" by (simp add: vmm_free_set_def page_used_def r assms(3))
  have v: "vmm_ready t = vmm_ready s" by (simp add: vmm_ready_def Let_def page_used_def r assms(3) f)
  have h: "heap bs t = heap bs s" for bs by (simp add: heap_def assms(1,2))
  show b: "boot_heap B m t = boot_heap B m s" by (simp add: boot_heap_def h v r f assms(3))
  show "kernel_space t = kernel_space s" by (simp add: kernel_space_def Let_def v f r assms(3-5))
  show g: "task_ring ks t = task_ring ks s" for ks by (simp add: task_ring_def r assms(6,7))
  show "task_heap B m js t = task_heap B m js s" by (simp add: task_heap_def b g)
qed

lemma initialize_terminal_same: "same_kernel s (initialize_terminal s)"
proof -
  obtain M ps where c: "tty_clear s = s\<lparr>tty_buffer := 0xC00B8000,
     tty_color := vga_color_entry VGA_COLOR_WHITE VGA_COLOR_BLACK, vga_mem := M,
     tty_xpos := 0, tty_ypos := 0, port_out := ps\<rparr>" using tty_clear_upd [of s] by blast
  show ?thesis
    by (simp add: initialize_terminal_def Let_def c update_cursor_def outb_def same_kernel_def)
qed

lemma same_kernel_trans: "same_kernel s t \<Longrightarrow> same_kernel t u \<Longrightarrow> same_kernel s u"
  by (simp add: same_kernel_def)

text \<open>The messages of \<^verbatim>\<open>kmain\<close> are printed whatever the state is.\<close>

lemma kprintf_returns:
  assumes "\<And>s :: 'a kernel_state_scheme. \<exists>n t. kprintf fmt args s = Inr (n, t)"
  obtains n t where "kprintf fmt args (s :: 'a kernel_state_scheme) = Inr (n, t)" "same_kernel s t"
  using assms [of s] kprintf_prints prints_same_kernel that by blast

text \<open>Up to the check of the magic number.\<close>

lemma kmain_early:
  fixes s :: "'a kernel_state_scheme"
  obtains n1 s1 n2 s2 where
    "kprintf (litn ''[-] Terminal Initalized'') [] (initialize_terminal s) = Inr (n1, s1)"
    "kprintf (litn ''[-] Initializing Interrupts...'') [] s1 = Inr (n2, s2)" "same_kernel s s2"
proof -
  let ?i = "initialize_terminal s"
  obtain n1 s1 where s1: "kprintf (litn ''[-] Terminal Initalized'') [] ?i = Inr (n1, s1)" "same_kernel ?i s1"
    by (rule kprintf_message [of "''[-] Terminal Initalized''" ?i]) simp_all
  obtain n2 s2 where s2: "kprintf (litn ''[-] Initializing Interrupts...'') [] s1 = Inr (n2, s2)" "same_kernel s1 s2"
    by (rule kprintf_message [of "''[-] Initializing Interrupts...''" s1]) simp_all
  show ?thesis
    by (rule that [OF s1(1) s2(1) same_kernel_trans [OF same_kernel_trans [OF initialize_terminal_same s1(2)] s2(2)]])
qed

lemma panic_state: "\<exists>u. panic (Some msg) s = Inl (Panic msg, cli u) \<and> same_kernel s u"
proof -
  have "\<exists>n u. kprintf (litn ''KERNEL PANIC: %s'') [VStr msg] s = Inr (n, u)"
    by (simp add: kprintf_def litn_def)
  then obtain n u where u: "kprintf (litn ''KERNEL PANIC: %s'') [VStr msg] s = Inr (n, u)" by blast
  then have "same_kernel s u" using kprintf_prints prints_same_kernel by blast
  with u show ?thesis by (auto simp: panic_def)
qed

section \<open>From one component to the next\<close>

lemma kernel_space_shrink:
  assumes "kernel_space s" "vmm_ready t" "vmm_block_list_head t = vmm_block_list_head s"
    "kernel_page_directory t = kernel_page_directory s" "cr3 t = cr3 s" "vmm_free_set t \<subseteq> vmm_free_set s"
    "rd (page_table (vmm_block_list_head s)) t = rd (page_table (vmm_block_list_head s)) s"
    "\<And>q j. q \<in> {kernel_page_directory s, rd (page_table (vmm_block_list_head s)) s} \<Longrightarrow> j < 1024 \<Longrightarrow>
      rd (slot q j) t = rd (slot q j) s"
  shows "kernel_space t"
  using assms(1,2,6,7,8) by (auto simp: kernel_space_def Let_def assms(3-5))

lemma task_heap_keep:
  assumes "task_heap B m ks s" "vmm_ready t" "vmm_block_list_head t = vmm_block_list_head s"
    "block_list_head t = block_list_head s" "task_list_head t = task_list_head s" "task_list_tail t = task_list_tail s"
    "vmm_free_set t \<subseteq> vmm_free_set s"
    "\<And>j. j < 1024 \<Longrightarrow> j \<notin> {986..<1020} \<Longrightarrow> rd (slot B j) t = rd (slot B j) s"
  shows "task_heap B m ks t"
proof -
  have h: "boot_heap B m s" "\<forall>k\<in>set ks. m + 2 \<le> k \<and> k + 10 \<le> 986" "sorted_wrt (\<lambda>a b. b + 10 \<le> a) ks"
    "task_ring (map (slot B) ks) s" using assms(1) by (simp_all add: task_heap_def)
  note p = boot_heap_pages [OF h(1)]
  have b: "heap [(B, of_nat (4 * m))] s" "B \<notin> vmm_free_set s" "rd (page_table (slot B 986)) s \<notin> vmm_free_set s"
    using h(1) by (simp_all add: boot_heap_def)
  have pt: "rd (page_table (slot B 986)) t = rd (page_table (slot B 986)) s"
    using assms(8) [of 1021] by (simp add: desc_fields slot_slot)
  have "heap [(B, of_nat (4 * m))] t"
    using b(1) assms(4) assms(8) [of 0] assms(8) [of 1] by (simp add: heap_single)
  then have "boot_heap B m t" using p b(2,3) pt assms(2,3,7) by (auto simp: boot_heap_def)
  moreover have "task_ring (map (slot B) ks) t"
  proof -
    have "rd (slot B (k + 9)) t = rd (slot B (k + 9)) s" if "k \<in> set ks" for k
      using h(2) that by (intro assms(8)) auto
    then have "rd (task_next_task (map (slot B) ks ! i)) t = rd (task_next_task (map (slot B) ks ! i)) s"
      if "i < length ks" for i
      using that by (simp add: task_slots)
    then show ?thesis using h(4) assms(5,6) by (simp add: task_ring_def)
  qed
  ultimately show ?thesis using h(2,3) by (simp add: task_heap_def)
qed

text \<open>In the kernel's address space the heap is in none of the pages of the page tables.\<close>

lemma kernel_space_heap:
  assumes "kernel_space s" "boot_heap B m s"
  shows "B \<noteq> kernel_page_directory s" "B \<noteq> rd (page_table (slot B 986)) s" "page_aligned (kernel_page_directory s)"
    "kernel_page_directory s \<notin> vmm_free_set s" "rd (page_table (slot B 986)) s \<notin> vmm_free_set s"
proof -
  note p = boot_heap_pages [OF assms(2)]
  have k: "\<forall>i<37. \<forall>j<1024. slot (slot B 986) i \<noteq> slot (kernel_page_directory s) j"
    "page_aligned (kernel_page_directory s)" "kernel_page_directory s \<notin> vmm_free_set s"
    "rd (page_table (slot B 986)) s \<notin> vmm_free_set s"
    using assms(1) p(4) by (simp_all add: kernel_space_def Let_def)
  have "slot (slot B 986) 0 \<noteq> slot (kernel_page_directory s) 986" using k(1) by simp
  then show "B \<noteq> kernel_page_directory s" by (auto simp: slot_slot)
  show "B \<noteq> rd (page_table (slot B 986)) s" using p(6) by (rule not_sym)
  show "page_aligned (kernel_page_directory s)" "kernel_page_directory s \<notin> vmm_free_set s"
    "rd (page_table (slot B 986)) s \<notin> vmm_free_set s" by (rule k)+
qed

lemma kernel_space_task:
  assumes "kernel_space s" "boot_heap B m s" "boot_heap B n t"
    "kernel_page_directory t = kernel_page_directory s \<and> cr3 t = cr3 s"
    "vmm_free_set t \<subseteq> vmm_free_set s" "q = B \<or> q \<in> vmm_free_set s"
    "\<And>x j. page_aligned x \<Longrightarrow> j < 1024 \<Longrightarrow> x \<noteq> q \<Longrightarrow> x \<noteq> B \<or> 1020 \<le> j \<Longrightarrow> rd (slot x j) t = rd (slot x j) s"
    "rd (slot B 1021) t = rd (slot B 1021) s"
  shows "kernel_space t"
proof -
  note p = boot_heap_pages [OF assms(2)] and k = kernel_space_heap [OF assms(1,2)]
  have same: "vmm_block_list_head t = vmm_block_list_head s" "kernel_page_directory t = kernel_page_directory s"
    "cr3 t = cr3 s" using assms(4) p(4) boot_heap_pages(4) [OF assms(3)] by simp_all
  have pt: "rd (page_table (vmm_block_list_head s)) t = rd (page_table (vmm_block_list_head s)) s"
    using assms(8) by (simp add: p(4) desc_fields slot_slot)
  show ?thesis
  proof (rule kernel_space_shrink [OF assms(1) _ same assms(5) pt])
    show "vmm_ready t" using assms(3) by (simp add: boot_heap_def)
    show "rd (slot x j) t = rd (slot x j) s"
      if "x \<in> {kernel_page_directory s, rd (page_table (vmm_block_list_head s)) s}" "j < 1024" for x j
      using that k p(5) assms(6) unfolding p(4) by (intro assms(7)) auto
  qed
qed

text \<open>The boot task and the two tasks created at boot.\<close>

lemma boot_tasks:
  fixes s :: "'a task_state_scheme"
  assumes "kernel_space s" "boot_heap B 984 s" "4 \<le> card (vmm_free_set s)"
  obtains t1 t2 t3 q2 q3 where "task_init s = Inr ((), t1)" "task_create_kernel L t1 = Inr ((), t2)"
    "task_create_user L t2 = Inr ((), t3)" "kernel_space t3" "task_heap B 948 [974, 962, 950] t3"
    "rd (task_pid (slot B 974)) t3 = 0" "rd (task_pid (slot B 962)) t3 = 1" "rd (task_pid (slot B 950)) t3 = 2"
    "current_task t3 = slot B 974" "vmm_free_set t3 \<subseteq> vmm_free_set s" "2 \<le> card (vmm_free_set t3)"
    "pmm t3 = pmm s" "int_flag t3 = int_flag s" "rd (page_table (slot B 986)) t3 = rd (page_table (slot B 986)) s"
    "q2 \<in> vmm_free_set s" "\<forall>p\<in>vmm_free_set s. unat q2 \<le> unat p" "rd (task_kernel_stack_base (slot B 962)) t3 = q2 + PAGE_SIZE"
    "\<exists>mm ct h tl. t3 = s\<lparr>mem := mm, current_task := ct, task_list_head := h, task_list_tail := tl\<rparr>"
    "q3 \<in> vmm_free_set s" "q3 \<noteq> q2" "vmm_free_set t3 = vmm_free_set s - {q2, q3}"
    "rd (task_trapframe (slot B 962)) t3 = slot q2 1010" "frame_saved (slot q2 1010) 0 (kernel_start L) t3"
    "rd (task_trapframe (slot B 950)) t3 = slot q3 1008" "frame_saved (slot q3 1008) 0 (user_start L) t3"
    "mem t3 (task_is_user (slot B 950)) = 1" "rd (task_kernel_stack_base (slot B 950)) t3 = q3 + PAGE_SIZE"
proof -
  obtain t1 where t1: "task_init s = Inr ((), t1)" "task_heap B 972 [974] t1" "vmm_free_set t1 = vmm_free_set s"
    "current_task t1 = slot B 974" "rd (task_pid (slot B 974)) t1 = 0"
    "\<exists>mm. t1 = s\<lparr>mem := mm, current_task := slot B 974, task_list_head := slot B 974, task_list_tail := slot B 974\<rparr>"
    "\<And>q j. page_aligned q \<Longrightarrow> j < 1024 \<Longrightarrow> q \<noteq> B \<or> 984 \<le> j \<Longrightarrow> rd (slot q j) t1 = rd (slot q j) s"
    by (rule task_init_ring [OF assms(2)]) (rule that)
  have h1: "boot_heap B 972 t1" using t1(2) by (simp add: task_heap_def)
  have al: "page_aligned B" using boot_heap_pages(1) [OF assms(2)] .
  have k1: "kernel_space t1"
    by (rule kernel_space_task [OF assms(1,2) h1, where q = B]) (use t1(3,6,7) al in auto)
  have c1: "4 \<le> card (vmm_free_set t1)" using assms(3) t1(3) by simp
  then have ne1: "vmm_free_set t1 \<noteq> {}" by auto
  obtain q2 t2 where t2: "task_create_kernel L t1 = Inr ((), t2)" "q2 \<in> vmm_free_set t1"
    "task_heap B 960 [974, 962] t2" "vmm_free_set t2 = vmm_free_set t1 - {q2}" "rd (task_pid (slot B 962)) t2 = 1"
    "\<exists>mm. t2 = t1\<lparr>mem := mm, task_list_tail := slot B 962\<rparr>"
    "\<And>k i. k \<in> {974} \<Longrightarrow> i < 9 \<Longrightarrow> rd (slot B (k + i)) t2 = rd (slot B (k + i)) t1"
    "\<And>x j. page_aligned x \<Longrightarrow> j < 1024 \<Longrightarrow> x \<noteq> q2 \<Longrightarrow> x \<noteq> B \<or> 1020 \<le> j \<Longrightarrow> rd (slot x j) t2 = rd (slot x j) t1"
    "\<forall>p\<in>vmm_free_set t1. unat q2 \<le> unat p" "rd (task_kernel_stack_base (slot B 962)) t2 = q2 + PAGE_SIZE"
    "rd (task_trapframe (slot B 962)) t2 = slot q2 1010" "frame_saved (slot q2 1010) 0 (kernel_start L) t2"
    by (rule task_create_kernel_aux [OF t1(2) _ ne1, where n = 962 and L = L]) (simp_all add: t1(5) kernel_start_frame)
  have h2: "boot_heap B 960 t2" using t2(3) by (simp add: task_heap_def)
  have far1: "q \<noteq> B" if "q \<in> vmm_free_set t1" for q using h1 that by (auto simp: boot_heap_def)
  have k2: "kernel_space t2"
  proof (rule kernel_space_task [OF k1 h1 h2 _ _ _ t2(8)])
    show "rd (slot B 1021) t2 = rd (slot B 1021) t1" using far1 [OF t2(2)] al by (intro t2(8)) auto
    show "kernel_page_directory t2 = kernel_page_directory t1 \<and> cr3 t2 = cr3 t1" using t2(6) by auto
  qed (use t2(2,4) in auto)
  have c2: "3 \<le> card (vmm_free_set t2)" using c1 t2(2) by (simp add: t2(4) card_Diff_singleton)
  then have ne2: "vmm_free_set t2 \<noteq> {}" by auto
  obtain q3 t3 where t3: "task_create_user L t2 = Inr ((), t3)" "q3 \<in> vmm_free_set t2"
    "task_heap B 948 [974, 962, 950] t3" "vmm_free_set t3 = vmm_free_set t2 - {q3}" "rd (task_pid (slot B 950)) t3 = 2"
    "\<exists>mm. t3 = t2\<lparr>mem := mm, task_list_tail := slot B 950\<rparr>"
    "\<And>k i. k \<in> {974, 962} \<Longrightarrow> i < 9 \<Longrightarrow> rd (slot B (k + i)) t3 = rd (slot B (k + i)) t2"
    "\<And>x j. page_aligned x \<Longrightarrow> j < 1024 \<Longrightarrow> x \<noteq> q3 \<Longrightarrow> x \<noteq> B \<or> 1020 \<le> j \<Longrightarrow> rd (slot x j) t3 = rd (slot x j) t2"
    "rd (task_trapframe (slot B 950)) t3 = slot q3 1008" "frame_saved (slot q3 1008) 0 (user_start L) t3"
    "mem t3 (task_is_user (slot B 950)) = 1" "rd (task_kernel_stack_base (slot B 950)) t3 = q3 + PAGE_SIZE"
    by (rule task_create_user_aux [OF t2(3) _ ne2, where n = 950 and L = L]) (simp_all add: t2(5) user_start_frame)
  have h3: "boot_heap B 948 t3" using t3(3) by (simp add: task_heap_def)
  have far2: "q \<noteq> B" if "q \<in> vmm_free_set t2" for q using h2 that by (auto simp: boot_heap_def)
  have k3: "kernel_space t3"
  proof (rule kernel_space_task [OF k2 h2 h3 _ _ _ t3(8)])
    show "rd (slot B 1021) t3 = rd (slot B 1021) t2" using far2 [OF t3(2)] al by (intro t3(8)) auto
    show "kernel_page_directory t3 = kernel_page_directory t2 \<and> cr3 t3 = cr3 t2" using t3(6) by auto
  qed (use t3(2,4) in auto)
  have q: "page_aligned q2" "q2 \<noteq> q3" "q2 \<noteq> B"
    using t2(2,4) t3(2) boot_heap_pages(7) [OF h1] by auto
  have fr: "frame_saved (slot q2 1010) 0 (kernel_start L) t3"
    by (rule frame_saved_cong [OF t2(12)])
      (use t3(8) [OF q(1)] q(2,3) in \<open>simp add: slot_frame_word frame_size_def start_modes\<close>)
  show ?thesis
  proof (rule that [OF t1(1) t2(1) t3(1) k3 t3(3) _ _ t3(5) _ _ _ _ _ _ _ _ _ _ _ _ _ _ fr t3(9-12)])
    show "q3 \<in> vmm_free_set s" "q3 \<noteq> q2" "vmm_free_set t3 = vmm_free_set s - {q2, q3}"
      using t3(2,4) t2(4) t1(3) by auto
    show "rd (task_trapframe (slot B 962)) t3 = slot q2 1010" using t3(7) [of 962 1] t2(11) by (simp add: task_slots)
    show "rd (task_pid (slot B 974)) t3 = 0" "rd (task_pid (slot B 962)) t3 = 1"
      using t3(7) [of 974 3] t3(7) [of 962 3] t2(7) [of 974 3] t1(5) t2(5) by (simp_all add: task_slots)
    show "q2 \<in> vmm_free_set s" "\<forall>p\<in>vmm_free_set s. unat q2 \<le> unat p" using t2(2,9) t1(3) by simp_all
    show "rd (task_kernel_stack_base (slot B 962)) t3 = q2 + PAGE_SIZE"
      using t3(7) [of 962 6] t2(10) by (simp add: task_slots)
    show "vmm_free_set t3 \<subseteq> vmm_free_set s" using t1(3) t2(4) t3(4) by auto
    show "2 \<le> card (vmm_free_set t3)" using c2 t3(2) by (simp add: t3(4) card_Diff_singleton)
    have "rd (slot B 1021) t3 = rd (slot B 1021) t2" using far2 [OF t3(2)] al by (intro t3(8)) auto
    also have "\<dots> = rd (slot B 1021) t1" using far1 [OF t2(2)] al by (intro t2(8)) auto
    also have "\<dots> = rd (slot B 1021) s" using al by (intro t1(7)) auto
    finally show "rd (page_table (slot B 986)) t3 = rd (page_table (slot B 986)) s" by (simp add: desc_fields slot_slot)
    have "current_task t3 = current_task t1" "pmm t3 = pmm t1" "int_flag t3 = int_flag t1"
      using t2(6) t3(6) by auto
    then show "current_task t3 = slot B 974" "pmm t3 = pmm s" "int_flag t3 = int_flag s" using t1(4,6) by auto
    obtain m1 m2 m3 where "t1 = s\<lparr>mem := m1, current_task := slot B 974, task_list_head := slot B 974, task_list_tail := slot B 974\<rparr>"
      "t2 = t1\<lparr>mem := m2, task_list_tail := slot B 962\<rparr>" "t3 = t2\<lparr>mem := m3, task_list_tail := slot B 950\<rparr>"
      using t1(6) t2(6) t3(6) by blast
    then have "t3 = s\<lparr>mem := m3, current_task := slot B 974, task_list_head := slot B 974, task_list_tail := slot B 950\<rparr>"
      by simp
    then show "\<exists>mm ct h tl. t3 = s\<lparr>mem := mm, current_task := ct, task_list_head := h, task_list_tail := tl\<rparr>" by blast
  qed
qed

text \<open>Opening the kernel's directory to user code keeps the heap and the tasks.\<close>

lemma boot_userspace:
  assumes "kernel_space s" "task_heap B m ks s" "2 \<le> card (vmm_free_set s)" "pmm_wf (pmm s)"
    "page_free (pmm s) k" "\<forall>l<k. \<not> page_free (pmm s) l"
  obtains q t where "paging_add_temp_userspace s = Inr ((), t)" "kernel_space t" "task_heap B m ks t"
    "q \<in> vmm_free_set s" "rd (slot (kernel_page_directory s) 767) t = word_of_pde (stack_pde (V2P_ADDR q))"
    "rd (slot q 1023) t = word_of_pte (stack_pte (page_addr (pmm s) k))"
    "\<And>j. j < 986 \<Longrightarrow> rd (slot B j) t = rd (slot B j) s"
    "\<exists>mm p. t = s\<lparr>pmm := p, mem := mm\<rparr>" "vmm_free_set t \<subseteq> vmm_free_set s"
    "rd (page_table (slot B 986)) t = rd (page_table (slot B 986)) s"
    "\<And>x j. page_aligned x \<Longrightarrow> j < 1024 \<Longrightarrow> x \<notin> vmm_free_set s \<union> {B, kernel_page_directory s} \<Longrightarrow> rd (slot x j) t = rd (slot x j) s"
proof -
  have h: "boot_heap B m s" using assms(2) by (simp add: task_heap_def)
  note p = boot_heap_pages [OF h] and b = kernel_space_heap [OF assms(1) h]
  obtain q1 q2 t where t: "paging_add_temp_userspace s = Inr ((), t)" "kernel_space t"
    "q1 \<in> vmm_free_set s" "q2 \<in> vmm_free_set s" "vmm_free_set t = vmm_free_set s - {q1, q2}"
    "\<exists>m. t = s\<lparr>pmm := mark_page k (pmm s), mem := m\<rparr>"
    "\<And>p j. page_aligned p \<Longrightarrow> j < 1024 \<Longrightarrow> p \<notin> {q1, q2, kernel_page_directory s} \<Longrightarrow>
      slot p j \<notin> slot (vmm_block_list_head s) ` {..<34} \<Longrightarrow> rd (slot p j) t = rd (slot p j) s"
    and st: "rd (slot (kernel_page_directory s) 767) t = word_of_pde (stack_pde (V2P_ADDR q2))"
    "rd (slot q2 1023) t = word_of_pte (stack_pte (page_addr (pmm s) k))"
    by (rule temp_userspace_state [OF assms(1,3-6)]) (rule that)
  have keep: "rd (slot B j) t = rd (slot B j) s" if "j < 1024" "j \<notin> {986..<1020}" for j
  proof (rule t(7) [OF p(1) that(1)])
    show "B \<notin> {q1, q2, kernel_page_directory s}" using p(7) t(3,4) b(1) by blast
    show "slot B j \<notin> slot (vmm_block_list_head s) ` {..<34}"
      using that p(1) by (auto simp: p(4) slot_slot slot_eq_iff)
  qed
  have f: "vmm_block_list_head t = vmm_block_list_head s" "block_list_head t = block_list_head s"
    "task_list_head t = task_list_head s" "task_list_tail t = task_list_tail s"
    using t(6) by auto
  have s: "vmm_free_set t \<subseteq> vmm_free_set s" using t(5) by blast
  have "task_heap B m ks t"
    by (rule task_heap_keep [OF assms(2) kernel_space_pages(1) [OF t(2)] f s keep])
  moreover have "\<exists>mm p. t = s\<lparr>pmm := p, mem := mm\<rparr>" using t(6) by blast
  moreover have "rd (page_table (slot B 986)) t = rd (page_table (slot B 986)) s"
    using keep [of 1021] by (simp add: desc_fields slot_slot)
  moreover have "rd (slot x j) t = rd (slot x j) s"
    if "page_aligned x" "j < 1024" "x \<notin> vmm_free_set s \<union> {B, kernel_page_directory s}" for x j
    using that t(3,4) p(1) by (intro t(7)) (auto simp: p(4) slot_slot slot_eq_iff)
  ultimately show ?thesis using t(1,2,4) s keep st by (intro that [of t q2]) auto
qed

text \<open>The console starts by clearing its array, which lies outside the pages of the heap and of the page tables.\<close>

definition array_apart :: "u32 \<Rightarrow> u32 \<Rightarrow> bool" where
  "array_apart cmd q \<longleftrightarrow> unat cmd + 1024 \<le> unat q \<or> unat q + 4096 \<le> unat cmd \<and> unat cmd + 1024 \<le> 2 ^ 32"

lemma rd_memset_apart:
  assumes "array_apart cmd q" "page_aligned q" "j < 1024" "mem t = memset (mem s) cmd 0 sizeof_cmd"
  shows "rd (slot q j) t = rd (slot q j) s"
  unfolding rd_def
proof (rule load32_cong)
  fix i :: nat assume i: "i < 4"
  obtain k where k: "unat q = 4096 * k" using assms(2) by (auto simp: page_aligned_def mod_eq_0_iff_dvd elim: dvdE)
  moreover have "unat q < 2 ^ 32" using unsigned_less [of q] by simp
  ultimately have q: "unat q + 4096 \<le> 2 ^ 32" by simp
  have "unat (slot q j + of_nat i) = unat q + (4 * j + i)"
    using q i assms(3) by (simp add: slot_def unat_word_ariths unat_of_nat)
  then have "unat (slot q j + of_nat i) < unat cmd \<or> unat cmd + 1024 \<le> unat (slot q j + of_nat i)"
    using assms(1,3) i by (auto simp: array_apart_def)
  then have "1024 \<le> slot q j + of_nat i - cmd"
    using assms(1) q by (auto simp: word_le_nat_alt unat_sub_if' array_apart_def)
  then show "mem t (slot q j + of_nat i) = mem s (slot q j + of_nat i)"
    by (auto simp: assms(4) memset_apply sizeof_cmd_def dest: leD)
qed

lemma boot_console:
  fixes s :: "'a kernel_state_scheme"
  assumes "kernel_space s" "task_heap B m ks s" "array_apart cmd B"
    "array_apart cmd (rd (page_table (slot B 986)) s)" "array_apart cmd (kernel_page_directory s)"
  obtains t where "kshell_start cmd s = Inr (0, t)" "kernel_space t" "task_heap B m ks t" "line_at cmd 0 (mem t)"
    "\<And>q j. array_apart cmd q \<Longrightarrow> page_aligned q \<Longrightarrow> j < 1024 \<Longrightarrow> rd (slot q j) t = rd (slot q j) s"
    "kernel_page_directory t = kernel_page_directory s" "current_task t = current_task s"
    "scheduler_initialized t = scheduler_initialized s" "idt_handlers t = idt_handlers s" "int_flag t = int_flag s"
    "task_register t = task_register s" "tss_region t = tss_region s"
proof -
  have h: "boot_heap B m s" using assms(2) by (simp add: task_heap_def)
  note p = boot_heap_pages [OF h] and b = kernel_space_heap [OF assms(1) h]
  let ?fmt = "[10] @ litn ''Welcome to AOSIS: Run 'help' to get started!''"
  have "\<exists>n u. kprintf ?fmt [] s = Inr (n, u)" by (simp add: kprintf_def litn_def)
  then obtain n u where u: "kprintf ?fmt [] s = Inr (n, u)" by blast
  define w where "w = command_start u"
  have su: "same_kernel s u" using u kprintf_prints prints_same_kernel by blast
  have "same_kernel u w" unfolding w_def command_start_def by (rule prints_same_kernel [OF prints_printstr])
  note k = same_kernel_kernel [OF same_kernel_trans [OF su this]]
  define t where "t = w\<lparr>mem := memset (mem w) cmd 0 sizeof_cmd\<rparr>"
  have run: "kshell_start cmd s = Inr (0, t)" using u by (simp add: kshell_start_def Let_def w_def t_def)
  note c = kernel_core [OF k(1,5,6,4,2,7,8)]
  have w: "kernel_space w" "task_heap B m ks w" using assms(1,2) by (simp_all only: c)
  have fr: "rd (slot q j) t = rd (slot q j) w" if "array_apart cmd q" "page_aligned q" "j < 1024" for q j
    by (rule rd_memset_apart [OF that]) (simp add: t_def)
  have hd: "vmm_block_list_head w = slot B 986" using k(6) p(4) by simp
  have kt: "kernel_space t" and ft: "vmm_free_set t = vmm_free_set w"
  proof -
    have m: "\<exists>m. t = w\<lparr>mem := m\<rparr>" by (auto simp: t_def)
    have d: "rd (slot (vmm_block_list_head w) i) t = rd (slot (vmm_block_list_head w) i) w" if "i < 37" for i
      using fr [OF assms(3) p(1), of "986 + i"] that by (simp add: hd slot_slot)
    have pt: "rd (slot (rd (page_table (vmm_block_list_head w)) w) j) t = rd (slot (rd (page_table (vmm_block_list_head w)) w) j) w"
      if "j < 1024" for j
      using fr [OF assms(4) p(5) that] by (simp only: hd c)
    have pd: "rd (slot (kernel_page_directory w) 0x300) t = rd (slot (kernel_page_directory w) 0x300) w"
      using fr [OF assms(5) b(3)] k(4) by simp
    show "kernel_space t" "vmm_free_set t = vmm_free_set w" using kernel_space_cong(1,2) [OF w(1) m d pt pd] by simp_all
  qed
  have "task_heap B m ks t"
    by (rule task_heap_keep [OF w(2) kernel_space_pages(1) [OF kt]])
      (use ft fr [OF assms(3) p(1)] in \<open>simp_all add: t_def\<close>)
  moreover have "line_at cmd 0 (mem t)" unfolding t_def using line_at_clear [of cmd "mem w"] by simp
  moreover have "rd (slot q j) t = rd (slot q j) s" if "array_apart cmd q" "page_aligned q" "j < 1024" for q j
    using fr [OF that] c(1) by simp
  ultimately show ?thesis using run kt k(4,9-12,14,17) by (intro that [of t]) (simp_all add: t_def)
qed

lemma first_frame_bound:
  assumes "usable_map L mbt s"
  shows "first_frame L \<le> 4096 * 1015" "first_frame L mod 4096 = 0"
proof -
  have "unat (sym_kernel_end_phys L) \<le> 4096 * 1015" using assms by (simp add: usable_map_def)
  then have "(unat (sym_kernel_end_phys L) + 4095) div 4096 \<le> 1015" by linarith
  then show "first_frame L \<le> 4096 * 1015" "first_frame L mod 4096 = 0" by (simp_all add: first_frame_def)
qed

lemma usable_map_cong: "mem t = mem s \<Longrightarrow> pmm t = pmm s \<Longrightarrow> usable_map L mbt t = usable_map L mbt s"
  by (simp add: usable_map_def rd_def split: option.split)

text \<open>
  The kernel image: the array of the initial heap is a zero page of its own below the first frame of the pool, and
  the array of the console, which is on the boot stack, is in the image outside this page.
\<close>

definition boot_image :: "symbols \<Rightarrow> u32 \<Rightarrow> 'a machine_scheme \<Rightarrow> bool" where
  "boot_image L cmd s \<longleftrightarrow> page_aligned (sym_kmalloc_init_block L) \<and> 0xC0000000 \<le> unat (sym_kmalloc_init_block L) \<and>
     unat (sym_kmalloc_init_block L) < 0xC0000000 + first_frame L \<and>
     (\<forall>i<1024. rd (slot (sym_kmalloc_init_block L) i) s = 0) \<and>
     PAGE_DIRECTORY_INDEX (sym_kernel_start_virt L) = 0x300 \<and>
     unat cmd + 1024 \<le> 0xC0000000 + first_frame L \<and> array_apart cmd (sym_kmalloc_init_block L)"

text \<open>
  \<^verbatim>\<open>kmain\<close> up to the tasks. The page directory and the page table are the first two frames of the pool;
  the page allocator has the pages above them.
\<close>

lemma kmain_first:
  fixes s :: "'a kernel_state_scheme"
  assumes "usable_map L mbt s" "boot_image L cmd s"
  defines "B \<equiv> sym_kmalloc_init_block L" and "p \<equiv> first_frame L div 4096 + 1"
  obtains s7 where
    "kmain L mbt MULTIBOOT_BOOTLOADER_MAGIC cmd s = bindR (task_init s7) (\<lambda>_ s. bindR (task_create_kernel L s) (\<lambda>_ s.
       bindR (task_create_user L s) (\<lambda>_. kmain_last cmd)))"
    "kernel_space s7" "boot_heap B 984 s7" "vmm_free_set s7 = vmm_page_addr ` {p<..<1021}"
    "pmm_wf (pmm s7)" "page_free (pmm s7) 2" "\<forall>l<2. \<not> page_free (pmm s7) l" "page_addr (pmm s7) 2 = V2P_ADDR (vmm_page_addr (p + 1))"
    "kernel_page_directory s7 = vmm_page_addr (p - 1)" "rd (page_table (slot B 986)) s7 = vmm_page_addr p"
    "int_flag s7" "idt_handlers s7 14 = Paging_page_fault_handler" "task_register s7 = 0x18" "tss_region s7 = tss_region s"
proof -
  obtain n1 s1 n2 s2 where e: "kprintf (litn ''[-] Terminal Initalized'') [] (initialize_terminal s) = Inr (n1, s1)"
    "kprintf (litn ''[-] Initializing Interrupts...'') [] s1 = Inr (n2, s2)" "same_kernel s s2"
    by (rule kmain_early)
  let ?i = "interrupt_init L s2"
  obtain n3 s3 where m3: "kprintf (litn ''[-] Initializing Physical Memory Management...'') [] ?i = Inr (n3, s3)" "same_kernel ?i s3"
    by (rule kprintf_message [of "''[-] Initializing Physical Memory Management...''" ?i]) simp_all
  have i3: "mem s3 = mem s" "pmm s3 = pmm s" "int_flag s3"
    using same_kernel_kernel [OF m3(2)] same_kernel_kernel [OF e(3)] by (simp_all add: interrupt_init_eq)
  have um: "usable_map L mbt s3" using assms(1) usable_map_cong [of s3 s] i3 by simp
  obtain s4 where s4: "pmm_init L mbt s3 = Inr ((), s4)" "pmm_wf (pmm s4)" "unat (starting_addr (pmm s4)) = first_frame L"
    "first_frame L + 4096 * pool_size (pmm s4) \<le> 0x40000000"
    "page_free (pmm s4) 0" "page_free (pmm s4) 1" "page_free (pmm s4) 2" "mem s4 = mem s3" "int_flag s4 = int_flag s3"
    "pmm_state.more s4 = pmm_state.more s3"
    by (rule pmm_init_usable [OF um]) (rule that)
  obtain n5 s5 where m5: "kprintf (litn ''[-] Initializing Paging and Virtual Memory...'') [] s4 = Inr (n5, s5)" "same_kernel s4 s5"
    by (rule kprintf_message [of "''[-] Initializing Paging and Virtual Memory...''" s4]) simp_all
  note k5 = same_kernel_kernel [OF m5(2)]
  have bm: "boot_image L cmd s5" using assms(2) i3(1) s4(8) k5(1) by (simp add: boot_image_def rd_def)
  note ff = first_frame_bound [OF um]
  have br: "boot_ready L s5"
    using bm s4(2-7) ff k5(3) by (simp add: boot_ready_def boot_image_def page_aligned_def)
  let ?st = "starting_addr (pmm s5)" and ?p = "unat (starting_addr (pmm s5)) div 4096 + 1"
  obtain s6 where s6: "memory_init L s5 = Inr ((), s6)" "kernel_space s6" "boot_heap B 984 s6"
    "vmm_free_set s6 = vmm_page_addr ` {?p<..<1021}" "pmm s6 = mark_page 1 (mark_page 0 (pmm s5))"
    "kernel_page_directory s6 = P2V_ADDR ?st" "rd (page_table (slot B 986)) s6 = P2V_ADDR (?st + 4096)"
    "int_flag s6 = int_flag s5"
    "idt_handlers s6 14 = Paging_page_fault_handler" "vmm_state.more s6 = vmm_state.more s5"
    by (rule memory_init_state [OF br, folded B_def]) (rule that)
  define s7 where "s7 = gdt_load_tss_asm s6"
  have c7: "mem s7 = mem s6" "block_list_head s7 = block_list_head s6" "vmm_block_list_head s7 = vmm_block_list_head s6"
    "kernel_page_directory s7 = kernel_page_directory s6" "cr3 s7 = cr3 s6"
    "task_list_head s7 = task_list_head s6" "task_list_tail s7 = task_list_tail s6"
    by (simp_all add: s7_def gdt_load_tss_asm_def)
  have s7: "kernel_space s7" "boot_heap B 984 s7" "vmm_free_set s7 = vmm_free_set s6"
    using s6(2,3) by (simp_all only: kernel_core [OF c7])
  have ps: "unat ?st = 4096 * (p - 1)" "?p = p" "1 \<le> p" "p \<le> 1016"
    using ff s4(3) k5(3) by (auto simp: p_def)
  have pm: "pmm s7 = mark_page 1 (mark_page 0 (pmm s5))" by (simp add: s7_def gdt_load_tss_asm_def s6(5))
  show ?thesis
  proof (rule that [of s7])
    show "kmain L mbt MULTIBOOT_BOOTLOADER_MAGIC cmd s = bindR (task_init s7) (\<lambda>_ s. bindR (task_create_kernel L s) (\<lambda>_ s.
       bindR (task_create_user L s) (\<lambda>_. kmain_last cmd)))"
      by (simp add: kmain_def Let_def e(1,2) m3(1) s4(1) m5(1) s6(1) s7_def [symmetric])
    show "vmm_free_set s7 = vmm_page_addr ` {p<..<1021}" using s6(4) by (simp only: s7(3) ps(2))
    show "pmm_wf (pmm s7)" "page_free (pmm s7) 2" "\<forall>l<2. \<not> page_free (pmm s7) l"
      using mark_page_least [OF s4(5-7)] s4(2) by (simp_all only: pm k5(3)) simp_all
    have "page_addr (pmm s7) 2 = ?st + 8192" by (simp add: pm page_addr_small)
    also have "\<dots> = V2P_ADDR (vmm_page_addr (p + 1))"
      using ps by (simp add: word_unat_eq_iff V2P_ADDR_def KERNEL_VIRT_BASE_def unat_sub_if' unat_word_ariths vmm_page_addr_unat)
    finally show "page_addr (pmm s7) 2 = V2P_ADDR (vmm_page_addr (p + 1))" .
    show "kernel_page_directory s7 = vmm_page_addr (p - 1)" "rd (page_table (slot B 986)) s7 = vmm_page_addr p"
      using ps by (simp_all add: c7(4) s6(6,7) kernel_core(1) [OF c7])
        (simp_all add: word_unat_eq_iff P2V_ADDR_def KERNEL_VIRT_BASE_def unat_word_ariths vmm_page_addr_unat)
    show "int_flag s7" "idt_handlers s7 14 = Paging_page_fault_handler" "task_register s7 = 0x18"
      using i3(3) s4(9) k5(12) s6(8,9) by (simp_all add: s7_def gdt_load_tss_asm_def GDT_TSS_SEG_def)
    have "pmm_state.more x = pmm_state.more y \<Longrightarrow> tss_region x = tss_region y"
      "vmm_state.more x = vmm_state.more y \<Longrightarrow> tss_region x = tss_region y" for x y :: "'a kernel_state_scheme"
      by (cases x; cases y; simp)+
    note more = this(1) [OF s4(10)] this(2) [OF s6(10)]
    have "tss_region s3 = tss_region s"
      using same_kernel_kernel(17) [OF m3(2)] same_kernel_kernel(17) [OF e(3)] by (simp add: interrupt_init_eq)
    then show "tss_region s7 = tss_region s" using more k5(17) by (simp add: s7_def gdt_load_tss_asm_def)
  qed (fact s7(1,2))+
qed

text \<open>\<^verbatim>\<open>kmain\<close> from the scheduler on.\<close>

lemma kmain_last_state:
  fixes s :: "'a kernel_state_scheme"
  assumes "kernel_space s" "task_heap B m ks s" "2 \<le> card (vmm_free_set s)" "pmm_wf (pmm s)"
    "page_free (pmm s) k" "\<forall>l<k. \<not> page_free (pmm s) l"
    "\<forall>q\<in>{B, rd (page_table (slot B 986)) s, kernel_page_directory s} \<union> vmm_free_set s. array_apart cmd q"
  obtains q t where "kmain_last cmd s = Inr (0, t)" "line_at cmd 0 (mem t)" "kernel_space t" "task_heap B m ks t"
    "\<And>j. j < 986 \<Longrightarrow> rd (slot B j) t = rd (slot B j) s"
    "current_task t = current_task s" "scheduler_initialized t" "int_flag t = int_flag s" "task_register t = task_register s"
    "idt_handlers t = (idt_handlers s)(33 := Isr_key_press, 32 := Pic_callback)"
    "page_aligned q" "rd (slot (kernel_page_directory t) 767) t = word_of_pde (stack_pde (V2P_ADDR q))"
    "rd (slot q 1023) t = word_of_pte (stack_pte (page_addr (pmm s) k))"
    "tss_region t = tss_region s"
    "\<And>x j. array_apart cmd x \<Longrightarrow> page_aligned x \<Longrightarrow> j < 1024 \<Longrightarrow> x \<notin> vmm_free_set s \<union> {B, kernel_page_directory s} \<Longrightarrow>
      rd (slot x j) t = rd (slot x j) s"
proof -
  obtain n8 s8 where m8: "kprintf (litn ''[-] Initializing Scheduler...'') [] s = Inr (n8, s8)" "same_kernel s s8"
    by (rule kprintf_message [of "''[-] Initializing Scheduler...''" s]) simp_all
  note k8 = same_kernel_kernel [OF m8(2)]
  define s9 where "s9 = scheduler_init s8"
  have c9: "mem s9 = mem s" "block_list_head s9 = block_list_head s" "vmm_block_list_head s9 = vmm_block_list_head s"
    "kernel_page_directory s9 = kernel_page_directory s" "cr3 s9 = cr3 s"
    "task_list_head s9 = task_list_head s" "task_list_tail s9 = task_list_tail s"
    and p9: "pmm s9 = pmm s"
    by (simp_all add: s9_def scheduler_init_def k8)
  note kc9 = kernel_core [OF c9]
  have f9: "kernel_space s9" "task_heap B m ks s9" "2 \<le> card (vmm_free_set s9)" "pmm_wf (pmm s9)"
    "page_free (pmm s9) k" "\<forall>l<k. \<not> page_free (pmm s9) l"
    using assms(1-6) by (simp_all only: kc9 p9)
  obtain q s10 where s10: "paging_add_temp_userspace s9 = Inr ((), s10)" "kernel_space s10" "task_heap B m ks s10"
    "q \<in> vmm_free_set s9" "rd (slot (kernel_page_directory s9) 767) s10 = word_of_pde (stack_pde (V2P_ADDR q))"
    "rd (slot q 1023) s10 = word_of_pte (stack_pte (page_addr (pmm s9) k))"
    "\<And>j. j < 986 \<Longrightarrow> rd (slot B j) s10 = rd (slot B j) s9" "\<exists>mm p. s10 = s9\<lparr>pmm := p, mem := mm\<rparr>"
    "rd (page_table (slot B 986)) s10 = rd (page_table (slot B 986)) s9"
    "\<And>x j. page_aligned x \<Longrightarrow> j < 1024 \<Longrightarrow> x \<notin> vmm_free_set s9 \<union> {B, kernel_page_directory s9} \<Longrightarrow> rd (slot x j) s10 = rd (slot x j) s9"
    by (rule boot_userspace [OF f9]) (rule that)
  obtain n11 s11 where m11: "kprintf (litn ''[-] Initializing Keyboard...'') [] s10 = Inr (n11, s11)" "same_kernel s10 s11"
    by (rule kprintf_message [of "''[-] Initializing Keyboard...''" s10]) simp_all
  let ?fmt = "litn ''[-] Initializing Timer (Freq: %dHz)...''"
  define s12 where "s12 = keyboard_init s11"
  have "\<exists>n u. kprintf ?fmt [VInt 20] s12 = Inr (n, u)" by (simp add: kprintf_def litn_def)
  then obtain n13 s13 where m13: "kprintf ?fmt [VInt 20] s12 = Inr (n13, s13)" by blast
  then have "same_kernel s12 s13" using kprintf_prints prints_same_kernel by blast
  note k13 = same_kernel_kernel [OF this] and k11 = same_kernel_kernel [OF m11(2)]
  obtain s14 where s14: "pic_init 20 False s13 = Inr ((), s14)"
    "\<exists>ps. s14 = s13\<lparr>pic_print := False, idt_handlers := (idt_handlers s13)(32 := Pic_callback), port_out := ps\<rparr>"
    by (simp add: pic_init_def Let_def outb_def) metis
  obtain n15 s15 where m15: "kprintf (litn ''[-] Launching Kernel Console...'') [] s14 = Inr (n15, s15)" "same_kernel s14 s15"
    by (rule kprintf_message [of "''[-] Launching Kernel Console...''" s14]) simp_all
  note k15 = same_kernel_kernel [OF m15(2)]
  obtain ps where ps: "s14 = s13\<lparr>pic_print := False, idt_handlers := (idt_handlers s13)(32 := Pic_callback), port_out := ps\<rparr>"
    using s14(2) by blast
  have c15: "mem s15 = mem s10" "block_list_head s15 = block_list_head s10" "vmm_block_list_head s15 = vmm_block_list_head s10"
    "kernel_page_directory s15 = kernel_page_directory s10" "cr3 s15 = cr3 s10"
    "task_list_head s15 = task_list_head s10" "task_list_tail s15 = task_list_tail s10"
    by (simp_all add: k15 ps k13 s12_def keyboard_init_def k11)
  note kc15 = kernel_core [OF c15]
  have f15: "kernel_space s15" "task_heap B m ks s15" using s10(2,3) by (simp_all only: kc15)
  have g10: "current_task s10 = current_task s" "scheduler_initialized s10" "int_flag s10 = int_flag s"
    "idt_handlers s10 = idt_handlers s" "task_register s10 = task_register s" "kernel_page_directory s10 = kernel_page_directory s"
    "tss_region s10 = tss_region s"
    using s10(8) by (auto simp: s9_def scheduler_init_def k8)
  have ap: "array_apart cmd B" "array_apart cmd (rd (page_table (slot B 986)) s15)" "array_apart cmd (kernel_page_directory s15)"
    "array_apart cmd q" using assms(7) s10(4) by (simp_all add: c15(4) g10(6) kc15(1) s10(9) kc9)
  obtain v where v: "kshell_start cmd s15 = Inr (0, v)" "kernel_space v" "task_heap B m ks v" "line_at cmd 0 (mem v)"
    "\<And>q j. array_apart cmd q \<Longrightarrow> page_aligned q \<Longrightarrow> j < 1024 \<Longrightarrow> rd (slot q j) v = rd (slot q j) s15"
    "kernel_page_directory v = kernel_page_directory s15" "current_task v = current_task s15"
    "scheduler_initialized v = scheduler_initialized s15" "idt_handlers v = idt_handlers s15" "int_flag v = int_flag s15"
    "task_register v = task_register s15" "tss_region v = tss_region s15"
    by (rule boot_console [OF f15 ap(1-3)]) (rule that)
  have al: "page_aligned B" "page_aligned q" "page_aligned (kernel_page_directory s)"
    using assms(1,2) boot_heap_pages(1) vmm_free_set_page(1) [OF s10(4)]
    by (auto simp: task_heap_def kernel_space_def Let_def)
  show ?thesis
  proof (rule that [of v q])
    show "kmain_last cmd s = Inr (0, v)"
      by (simp add: kmain_last_def Let_def m8(1) s9_def [symmetric] s10(1) m11(1) s12_def [symmetric] m13 s14(1) m15(1) v(1))
    show "rd (slot B j) v = rd (slot B j) s" if "j < 986" for j
      using that by (simp add: v(5) [OF ap(1) al(1)] kc15(1) s10(7) kc9(1))
    show "rd (slot (kernel_page_directory v) 767) v = word_of_pde (stack_pde (V2P_ADDR q))"
      "rd (slot q 1023) v = word_of_pte (stack_pte (page_addr (pmm s) k))"
      using v(5) [OF ap(3)] v(5) [OF ap(4) al(2)] al(3) s10(5,6) by (simp_all add: v(6) c15(4) g10(6) c9(4) p9 kc15(1))
    show "rd (slot x j) v = rd (slot x j) s"
      if "array_apart cmd x" "page_aligned x" "j < 1024" "x \<notin> vmm_free_set s \<union> {B, kernel_page_directory s}" for x j
      using v(5) [OF that(1-3)] s10(10) [OF that(2,3)] that(4) by (simp add: kc15(1) kc9 c9(4))
  qed (use v(2-4,6-12) al(2) in \<open>simp_all add: k15 ps k13 s12_def keyboard_init_def k11 g10\<close>)
qed

text \<open>The whole of \<^verbatim>\<open>kmain\<close>.\<close>

lemma kmain_state:
  fixes s :: "'a kernel_state_scheme"
  assumes "usable_map L mbt s" "boot_image L cmd s"
  defines "B \<equiv> sym_kmalloc_init_block L" and "p \<equiv> first_frame L div 4096 + 1"
  obtains t q where "kmain L mbt MULTIBOOT_BOOTLOADER_MAGIC cmd s = Inr (0, t)" "line_at cmd 0 (mem t)" "kernel_space t"
    "task_heap B 948 [974, 962, 950] t" "current_task t = slot B 974" "scheduler_initialized t" "int_flag t"
    "task_register t = 0x18" "idt_handlers t 14 = Paging_page_fault_handler" "idt_handlers t 32 = Pic_callback"
    "idt_handlers t 33 = Isr_key_press"
    "rd (task_pid (slot B 974)) t = 0" "rd (task_pid (slot B 962)) t = 1" "rd (task_pid (slot B 950)) t = 2"
    "rd (task_kernel_stack_base (slot B 962)) t = vmm_page_addr (p + 1) + PAGE_SIZE" "p + 1 < 1024"
    "\<And>va. 0xBFFFF000 \<le> unat va \<Longrightarrow> unat va < 0xC0000000 \<Longrightarrow>
      mmu_translate t va = Some (V2P_ADDR (vmm_page_addr (p + 1)) OR (va AND 0xFFF)) \<and> mmu_user t va"
    "tss_region t = tss_region s" "q \<in> vmm_page_addr ` {p<..<1021}" "q \<noteq> vmm_page_addr (p + 1)"
    "rd (task_trapframe (slot B 962)) t = slot (vmm_page_addr (p + 1)) 1010"
    "frame_saved (slot (vmm_page_addr (p + 1)) 1010) 0 (kernel_start L) t"
    "rd (task_trapframe (slot B 950)) t = slot q 1008" "frame_saved (slot q 1008) 0 (user_start L) t"
    "mem t (task_is_user (slot B 950)) = 1" "rd (task_kernel_stack_base (slot B 950)) t = q + PAGE_SIZE"
proof -
  obtain s7 where s7: "kmain L mbt MULTIBOOT_BOOTLOADER_MAGIC cmd s = bindR (task_init s7) (\<lambda>_ s. bindR (task_create_kernel L s) (\<lambda>_ s.
       bindR (task_create_user L s) (\<lambda>_. kmain_last cmd)))"
    "kernel_space s7" "boot_heap B 984 s7" "vmm_free_set s7 = vmm_page_addr ` {p<..<1021}"
    and pm: "pmm_wf (pmm s7)" "page_free (pmm s7) 2" "\<forall>l<2. \<not> page_free (pmm s7) l" "page_addr (pmm s7) 2 = V2P_ADDR (vmm_page_addr (p + 1))"
    and pg: "kernel_page_directory s7 = vmm_page_addr (p - 1)" "rd (page_table (slot B 986)) s7 = vmm_page_addr p"
    and fl: "int_flag s7" "idt_handlers s7 14 = Paging_page_fault_handler" "task_register s7 = 0x18" "tss_region s7 = tss_region s"
    by (rule kmain_first [OF assms(1,2), folded B_def p_def]) (rule that)
  have p: "1 \<le> p" "p \<le> 1016" "first_frame L = 4096 * (p - 1)" using first_frame_bound [OF assms(1)] by (auto simp: p_def)
  have "inj_on vmm_page_addr {p<..<1021}" by (rule inj_onI) (simp add: vmm_page_addr_inj)
  then have "4 \<le> card (vmm_free_set s7)" using p(2) unfolding s7(4) by (simp add: card_image)
  then obtain t1 t2 t3 q q3 where t: "task_init s7 = Inr ((), t1)" "task_create_kernel L t1 = Inr ((), t2)"
    "task_create_user L t2 = Inr ((), t3)" "kernel_space t3" "task_heap B 948 [974, 962, 950] t3"
    "rd (task_pid (slot B 974)) t3 = 0" "rd (task_pid (slot B 962)) t3 = 1" "rd (task_pid (slot B 950)) t3 = 2"
    "current_task t3 = slot B 974" "vmm_free_set t3 \<subseteq> vmm_free_set s7" "2 \<le> card (vmm_free_set t3)" "pmm t3 = pmm s7"
    "rd (page_table (slot B 986)) t3 = rd (page_table (slot B 986)) s7"
    "q \<in> vmm_free_set s7" "\<forall>p\<in>vmm_free_set s7. unat q \<le> unat p" "rd (task_kernel_stack_base (slot B 962)) t3 = q + PAGE_SIZE"
    and free: "q3 \<in> vmm_free_set s7" "q3 \<noteq> q" "vmm_free_set t3 = vmm_free_set s7 - {q, q3}"
    and fr: "rd (task_trapframe (slot B 962)) t3 = slot q 1010" "frame_saved (slot q 1010) 0 (kernel_start L) t3"
    "rd (task_trapframe (slot B 950)) t3 = slot q3 1008" "frame_saved (slot q3 1008) 0 (user_start L) t3"
    "mem t3 (task_is_user (slot B 950)) = 1" "rd (task_kernel_stack_base (slot B 950)) t3 = q3 + PAGE_SIZE"
    and u3: "\<exists>mm ct h tl. t3 = s7\<lparr>mem := mm, current_task := ct, task_list_head := h, task_list_tail := tl\<rparr>"
    by (rule boot_tasks [OF s7(2,3)]) (rule that)
  have kd: "kernel_page_directory t3 = vmm_page_addr (p - 1)" "int_flag t3" "idt_handlers t3 = idt_handlers s7" "task_register t3 = 0x18"
    "tss_region t3 = tss_region s"
    using u3 pg(1) fl by auto
  have q: "q = vmm_page_addr (p + 1)"
  proof -
    obtain k where k: "q = vmm_page_addr k" "p < k" "k < 1021" using t(14) unfolding s7(4) by auto
    have "vmm_page_addr (p + 1) \<in> vmm_free_set s7" unfolding s7(4) using p by (intro imageI) auto
    then have "unat q \<le> unat (vmm_page_addr (p + 1))" using t(15) by blast
    then have "4096 * k \<le> 4096 * (p + 1)" using k p by (simp add: vmm_page_addr_unat)
    then have "k = p + 1" using k(2) by simp
    then show ?thesis using k(1) by simp
  qed
  have far: "array_apart cmd (vmm_page_addr k)" if "p - 1 \<le> k" "k < 1021" for k
    using assms(2) that p by (simp add: boot_image_def array_apart_def vmm_page_addr_unat)
  then have "\<forall>q\<in>vmm_free_set t3. array_apart cmd q" using t(10) unfolding s7(4) by force
  moreover have "array_apart cmd B" using assms(2) by (simp add: boot_image_def B_def)
  ultimately have ap: "\<forall>q\<in>{B, rd (page_table (slot B 986)) t3, kernel_page_directory t3} \<union> vmm_free_set t3. array_apart cmd q"
    using far p by (auto simp: t(13) pg(2) kd(1))
  obtain r v where v: "kmain_last cmd t3 = Inr (0, v)" "line_at cmd 0 (mem v)" "kernel_space v" "task_heap B 948 [974, 962, 950] v"
    "\<And>j. j < 986 \<Longrightarrow> rd (slot B j) v = rd (slot B j) t3"
    "current_task v = current_task t3" "scheduler_initialized v" "int_flag v = int_flag t3" "task_register v = task_register t3"
    "idt_handlers v = (idt_handlers t3)(33 := Isr_key_press, 32 := Pic_callback)"
    "page_aligned r" "rd (slot (kernel_page_directory v) 767) v = word_of_pde (stack_pde (V2P_ADDR r))"
    "rd (slot r 1023) v = word_of_pte (stack_pte (page_addr (pmm t3) 2))"
    "tss_region v = tss_region t3"
    "\<And>x j. array_apart cmd x \<Longrightarrow> page_aligned x \<Longrightarrow> j < 1024 \<Longrightarrow> x \<notin> vmm_free_set t3 \<union> {B, kernel_page_directory t3} \<Longrightarrow>
      rd (slot x j) v = rd (slot x j) t3"
    by (rule kmain_last_state [OF t(4,5,11) pm(1-3) [folded t(12)] ap]) (rule that)
  have stack: "rd (slot x j) v = rd (slot x j) t3" if "x = q \<or> x = q3" "j < 1024" for x j
  proof (rule v(15) [OF _ _ that(2)])
    have x: "x \<in> vmm_page_addr ` {p<..<1021}" using that(1) t(14) free(1) by (auto simp: s7(4))
    then show "array_apart cmd x" using far by force
    show "page_aligned x" using that(1) t(14) free(1) vmm_free_set_page(1) by blast
    have "x \<noteq> B" using that(1) t(14) free(1) boot_heap_pages(7) [OF s7(3)] by blast
    moreover have "x \<noteq> vmm_page_addr (p - 1)" using x p(2) by (auto dest!: arg_cong [where f = unat] simp: vmm_page_addr_unat)
    ultimately show "x \<notin> vmm_free_set t3 \<union> {B, kernel_page_directory t3}" using that(1) free(3) kd(1) by auto
  qed
  have frames: "frame_saved (slot q 1010) 0 (kernel_start L) v" "frame_saved (slot q3 1008) 0 (user_start L) v"
    by (rule frame_saved_cong [OF fr(2)] frame_saved_cong [OF fr(4)];
        simp add: slot_frame_word frame_size_def start_modes stack)+
  show ?thesis
  proof (rule that [of v q3])
    show "q3 \<in> vmm_page_addr ` {p<..<1021}" "q3 \<noteq> vmm_page_addr (p + 1)" using free(1,2) by (simp_all add: s7(4) q)
    show "frame_saved (slot (vmm_page_addr (p + 1)) 1010) 0 (kernel_start L) v"
      "frame_saved (slot q3 1008) 0 (user_start L) v" using frames by (simp_all add: q)
    have "rd (task_is_user (slot B 950)) v = rd (task_is_user (slot B 950)) t3" by (simp add: task_slots v(5))
    then show "mem v (task_is_user (slot B 950)) = 1"
      using fr(5) ucast_rd [of "task_is_user (slot B 950)" v] ucast_rd [of "task_is_user (slot B 950)" t3] by simp
    show "rd (task_trapframe (slot B 962)) v = slot (vmm_page_addr (p + 1)) 1010"
      "rd (task_trapframe (slot B 950)) v = slot q3 1008" "rd (task_kernel_stack_base (slot B 950)) v = q3 + PAGE_SIZE"
      using fr(1,3,6) by (simp_all add: task_slots v(5) q)
    show "kmain L mbt MULTIBOOT_BOOTLOADER_MAGIC cmd s = Inr (0, v)" by (simp add: s7(1) t(1-3) v(1))
    show "rd (task_kernel_stack_base (slot B 962)) v = vmm_page_addr (p + 1) + PAGE_SIZE"
      using t(16) by (simp add: task_slots v(5) q)
    have "page_aligned (vmm_page_addr (p + 1))" using vmm_free_set_page(1) [OF t(14)] by (simp add: q)
    then show "mmu_translate v va = Some (V2P_ADDR (vmm_page_addr (p + 1)) OR (va AND 0xFFF)) \<and> mmu_user v va"
      if "0xBFFFF000 \<le> unat va" "unat va < 0xC0000000" for va
      using user_stack_translate [OF _ v(11-13) _ that] v(3) page_aligned_V2P
      by (simp add: kernel_space_def Let_def t(12) pm(4))
  qed (use v(2-4,6-10) v(14) p t(6-9) kd fl in \<open>simp_all add: task_slots v(5)\<close>)
qed

section \<open>Properties\<close>

text \<open>
  A kernel that was not started by a multiboot loader stops. With any other magic number
  \<^verbatim>\<open>kmain\<close> panics with its message, with interrupts off, before it touches the memory or the frame pool; only the terminal, the
  interrupt tables and the controllers have been set up.
\<close>

theorem kmain_wrong_magic:
  fixes s :: "'a kernel_state_scheme"
  assumes "magic \<noteq> MULTIBOOT_BOOTLOADER_MAGIC"
  shows "\<exists>t. kmain L mbt magic cmd s = Inl (Panic (lit ''invalid bootloader magic number''), t) \<and>
    \<not> int_flag t \<and> mem t = mem s \<and> pmm t = pmm s \<and> cr3 t = cr3 s \<and> idt_handlers t 32 = NULL_handler"
proof -
  obtain n1 s1 n2 s2 where e: "kprintf (litn ''[-] Terminal Initalized'') [] (initialize_terminal s) = Inr (n1, s1)"
    "kprintf (litn ''[-] Initializing Interrupts...'') [] s1 = Inr (n2, s2)" "same_kernel s s2"
    by (rule kmain_early)
  let ?m = "lit ''invalid bootloader magic number''"
  let ?i = "interrupt_init L s2"
  have "\<exists>u. (panic (Some ?m) ?i :: ('a kernel_state_scheme, unit) result) = Inl (Panic ?m, cli u) \<and> same_kernel ?i u"
    by (rule panic_state)
  then obtain u where u: "(panic (Some ?m) ?i :: ('a kernel_state_scheme, unit) result) = Inl (Panic ?m, cli u)"
    "same_kernel ?i u" by blast
  have "kmain L mbt magic cmd s = Inl (Panic ?m, cli u)"
    using assms by (simp add: kmain_def Let_def e(1,2) u(1))
  moreover have "mem ?i = mem s" "pmm ?i = pmm s" "cr3 ?i = cr3 s" "idt_handlers ?i 32 = NULL_handler"
    using same_kernel_kernel [OF e(3)] by (simp_all add: interrupt_init_eq)
  ultimately show ?thesis using same_kernel_kernel [OF u(2)] by (simp add: cli_def)
qed

lemma gdt_init_asm_ready:
  "usable_map L mbt (gdt_init_asm L s) = usable_map L mbt s" "boot_image L cmd (gdt_init_asm L s) = boot_image L cmd s"
proof -
  have m: "mem (gdt_init_asm L s) = mem s" "pmm (gdt_init_asm L s) = pmm s"
    by (simp_all add: gdt_init_asm_def gdt_init_def cli_def Let_def)
  show "usable_map L mbt (gdt_init_asm L s) = usable_map L mbt s" by (rule usable_map_cong [OF m])
  show "boot_image L cmd (gdt_init_asm L s) = boot_image L cmd s" by (simp add: boot_image_def rd_def m)
qed

text \<open>
  The kernel boots. With the magic number, a usable memory map, a boot module and the image where the linker puts
  it, the code from \<^verbatim>\<open>higher_half_kernel\<close> on reaches the loop of the console with an empty line. Three tasks,
  numbered 0 to 2, are in the ring with the first one current; the scheduler is on; the page fault, the timer and the
  keyboard have their handlers, interrupts are enabled and the task register is loaded; the heap is one block below the
  tasks, and the kernel's addresses are mapped for the kernel only.
\<close>

theorem kernel_boots:
  fixes s :: "'a kernel_state_scheme"
  assumes "usable_map L mbt s" "boot_image L cmd s"
  shows "\<exists>t. higher_half_kernel L mbt MULTIBOOT_BOOTLOADER_MAGIC cmd s = Inr (0, t) \<and> line_at cmd 0 (mem t) \<and>
    (let B = sym_kmalloc_init_block L in
       task_heap B 948 [974, 962, 950] t \<and> current_task t = slot B 974 \<and> rd (task_pid (slot B 974)) t = 0 \<and>
       rd (task_pid (slot B 962)) t = 1 \<and> rd (task_pid (slot B 950)) t = 2) \<and>
    scheduler_initialized t \<and> idt_handlers t 14 = Paging_page_fault_handler \<and> idt_handlers t 32 = Pic_callback \<and>
    idt_handlers t 33 = Isr_key_press \<and> int_flag t \<and> task_register t = 0x18 \<and>
    (\<forall>va. 0xC0000000 \<le> unat va \<and> unat va < 0xC0400000 \<longrightarrow> mmu_translate t va = Some (V2P_ADDR va) \<and> \<not> mmu_user t va)"
proof -
  let ?B = "sym_kmalloc_init_block L"
  obtain t where t: "kmain L mbt MULTIBOOT_BOOTLOADER_MAGIC cmd (gdt_init_asm L s) = Inr (0, t)" "line_at cmd 0 (mem t)"
    "kernel_space t" "task_heap ?B 948 [974, 962, 950] t" "current_task t = slot ?B 974" "scheduler_initialized t" "int_flag t"
    "task_register t = 0x18" "idt_handlers t 14 = Paging_page_fault_handler" "idt_handlers t 32 = Pic_callback"
    "idt_handlers t 33 = Isr_key_press"
    "rd (task_pid (slot ?B 974)) t = 0" "rd (task_pid (slot ?B 962)) t = 1" "rd (task_pid (slot ?B 950)) t = 2"
    by (rule kmain_state [of L mbt "gdt_init_asm L s" cmd, unfolded gdt_init_asm_ready, OF assms]) (rule that)
  show ?thesis
    by (rule exI [of _ t]) (use t kernel_space_translate [OF t(3)] in \<open>simp add: higher_half_kernel_def Let_def\<close>)
qed

text \<open>
  C36: after boot the user task and the kernel task share their stack. The page that user code has as its stack, below
  0xC0000000, is mapped, for user mode, to the same frame as the page of the kernel stack of the task created first:
  \<^verbatim>\<open>vmm_alloc_page\<close> gave the page to the task without taking its frame from the pool, and
  \<^verbatim>\<open>paging_add_temp_userspace\<close> then took this frame for the user stack.
\<close>

theorem user_stack_is_task_stack:
  fixes s :: "'a kernel_state_scheme"
  assumes "usable_map L mbt s" "boot_image L cmd s"
  shows "\<exists>t. kmain L mbt MULTIBOOT_BOOTLOADER_MAGIC cmd s = Inr (0, t) \<and>
    (let stack = rd (task_kernel_stack_base (slot (sym_kmalloc_init_block L) 962)) t - PAGE_SIZE in
       mmu_translate t stack = Some (V2P_ADDR stack) \<and> \<not> mmu_user t stack \<and>
       mmu_translate t (KERNEL_VIRT_BASE - PAGE_SIZE) = mmu_translate t stack \<and> mmu_user t (KERNEL_VIRT_BASE - PAGE_SIZE))"
proof -
  let ?B = "sym_kmalloc_init_block L" and ?q = "vmm_page_addr (first_frame L div 4096 + 1 + 1)"
  obtain t where t: "kmain L mbt MULTIBOOT_BOOTLOADER_MAGIC cmd s = Inr (0, t)" "kernel_space t"
    "rd (task_kernel_stack_base (slot ?B 962)) t = ?q + PAGE_SIZE" "first_frame L div 4096 + 1 + 1 < 1024"
    "\<And>va. 0xBFFFF000 \<le> unat va \<Longrightarrow> unat va < 0xC0000000 \<Longrightarrow>
      mmu_translate t va = Some (V2P_ADDR ?q OR (va AND 0xFFF)) \<and> mmu_user t va"
    by (rule kmain_state [OF assms]) (rule that)
  have q: "unat ?q = 0xC0000000 + 4096 * (first_frame L div 4096 + 1 + 1)" by (rule vmm_page_addr_unat [OF t(4)])
  have "mmu_translate t ?q = Some (V2P_ADDR ?q) \<and> \<not> mmu_user t ?q"
    using q t(4) by (intro kernel_space_translate [OF t(2)]) simp_all
  moreover have "mmu_translate t (KERNEL_VIRT_BASE - PAGE_SIZE) = Some (V2P_ADDR ?q) \<and> mmu_user t (KERNEL_VIRT_BASE - PAGE_SIZE)"
    using t(5) [of "KERNEL_VIRT_BASE - PAGE_SIZE"] by (simp add: KERNEL_VIRT_BASE_def PAGE_SIZE_def)
  ultimately show ?thesis using t(1,3) by (simp add: Let_def)
qed

theorem kmain_wrong_magic_witness:
  "\<forall>(s :: kernel_state) L mbt cmd. \<exists>t. kmain L mbt 0x1BADB002 cmd s
     = Inl (Panic (lit ''invalid bootloader magic number''), t) \<and> \<not> int_flag t \<and> mem t = mem s"
proof (intro allI)
  fix s :: kernel_state and L mbt cmd
  have "(0x1BADB002 :: u32) \<noteq> MULTIBOOT_BOOTLOADER_MAGIC" by (simp add: MULTIBOOT_BOOTLOADER_MAGIC_def)
  from kmain_wrong_magic [OF this, of L mbt cmd s]
  show "\<exists>t. kmain L mbt 0x1BADB002 cmd s
     = Inl (Panic (lit ''invalid bootloader magic number''), t) \<and> \<not> int_flag t \<and> mem t = mem s" by blast
qed

text \<open>A machine with the example map, a module two frames above the kernel and otherwise zeroed memory.\<close>

definition example_kernel :: "'a kernel_state_scheme \<Rightarrow> 'a kernel_state_scheme" where
  "example_kernel s = s\<lparr>mem := example_map_mem (\<lambda>_. 0), pmm := example_pool\<lparr>bitmap := \<lambda>_. 0\<rparr>\<rparr>"

lemma example_first_frame: "first_frame example_symbols = 0x124000"
  by (simp add: first_frame_def example_symbols_def)

lemma example_kernel_map: "usable_map example_symbols example_map (example_kernel s)"
proof -
  let ?m = "example_map_mem (\<lambda>_. 0)"
  have l: "load32 ?m 0x8014 = 1" "load32 ?m 0x802C = 2" "load32 ?m 0x8004 = 0x100000" "load32 ?m 0x800C = 0x700000"
    "load32 ?m 0x9000 = 0x126000"
    unfolding example_map_mem_def by (simp_all add: load32_store32_apart apart32_def)
  have "map_entries example_map = 2" by (simp add: map_entries_def example_map_def)
  then have "List.find (region_available ?m example_map) (rev [0..<map_entries example_map]) = Some 0"
    "region_base ?m example_map 0 + region_len ?m example_map 0 = 0x800000"
    using l by (simp_all add: numeral_2_eq_2 region_available_def region_base_def region_len_def
        MULTIBOOT_MEMORY_AVAILABLE_def example_map_def mmap_entry_at_def)
  moreover have "\<exists>k. 0 < k \<and> k < 64 \<and> unat (rd (mods_addr example_map) (example_kernel s)) = first_frame example_symbols + 4096 * k"
    using l(5) by (intro exI [of _ 2]) (simp add: example_first_frame rd_def example_kernel_def example_map_def)
  ultimately show ?thesis
    unfolding usable_map_def example_first_frame
    by (simp add: example_kernel_def example_symbols_def) (simp add: example_map_def bit_iff_odd)
qed

lemma example_map_mem_high: "0x10000 \<le> a \<Longrightarrow> example_map_mem (\<lambda>_. 0) a = 0"
  by (auto simp: example_map_mem_def store32_def)

lemma example_kernel_image: "boot_image example_symbols 0xC0120000 (example_kernel s)"
proof -
  have "rd (slot 0xC0112000 i) (example_kernel s) = load32 (\<lambda>_. 0) (slot 0xC0112000 i)" if "i < 1024" for i
    unfolding rd_def
  proof (rule load32_cong)
    fix j :: nat assume "j < 4"
    then have "unat (slot 0xC0112000 i + of_nat j) = 0xC0112000 + 4 * i + j"
      using that by (simp add: slot_def unat_word_ariths unat_of_nat)
    then show "mem (example_kernel s) (slot 0xC0112000 i + of_nat j) = 0"
      by (simp add: example_kernel_def) (rule example_map_mem_high, simp add: word_le_nat_alt)
  qed
  then show ?thesis
    by (simp add: boot_image_def example_first_frame array_apart_def)
      (simp add: example_symbols_def page_aligned_def unat_PAGE_DIRECTORY_INDEX load32_def)
qed


theorem kernel_boots_witness:
  "\<forall>s :: kernel_state. \<exists>t. higher_half_kernel example_symbols example_map 0x2BADB002 0xC0120000 (example_kernel s) = Inr (0, t) \<and>
     task_heap 0xC0112000 948 [974, 962, 950] t \<and> rd (task_pid (slot 0xC0112000 950)) t = 2 \<and>
     mmu_translate t 0xC0101234 = Some 0x00101234"
proof
  fix s :: kernel_state
  have e: "sym_kmalloc_init_block example_symbols = 0xC0112000" "MULTIBOOT_BOOTLOADER_MAGIC = 0x2BADB002"
    "V2P_ADDR 0xC0101234 = 0x00101234"
    by (simp_all add: example_symbols_def MULTIBOOT_BOOTLOADER_MAGIC_def V2P_ADDR_def KERNEL_VIRT_BASE_def)
  show "\<exists>t. higher_half_kernel example_symbols example_map 0x2BADB002 0xC0120000 (example_kernel s) = Inr (0, t) \<and>
     task_heap 0xC0112000 948 [974, 962, 950] t \<and> rd (task_pid (slot 0xC0112000 950)) t = 2 \<and>
     mmu_translate t 0xC0101234 = Some 0x00101234"
    using kernel_boots [OF example_kernel_map example_kernel_image, of s] unfolding e Let_def by (force simp: e)
qed

theorem user_stack_is_task_stack_witness:
  "\<forall>s :: kernel_state. \<exists>t stack. kmain example_symbols example_map 0x2BADB002 0xC0120000 (example_kernel s) = Inr (0, t) \<and>
     rd (task_kernel_stack_base (slot 0xC0112000 962)) t = stack + PAGE_SIZE \<and> mmu_translate t 0xBFFFF000 = mmu_translate t stack"
proof
  fix s :: kernel_state
  have e: "sym_kmalloc_init_block example_symbols = 0xC0112000" "MULTIBOOT_BOOTLOADER_MAGIC = 0x2BADB002"
    "KERNEL_VIRT_BASE - PAGE_SIZE = 0xBFFFF000"
    by (simp_all add: example_symbols_def MULTIBOOT_BOOTLOADER_MAGIC_def KERNEL_VIRT_BASE_def PAGE_SIZE_def)
  obtain t where t: "kmain example_symbols example_map 0x2BADB002 0xC0120000 (example_kernel s) = Inr (0, t)"
    "mmu_translate t 0xBFFFF000 = mmu_translate t (rd (task_kernel_stack_base (slot 0xC0112000 962)) t - PAGE_SIZE)"
    using user_stack_is_task_stack [OF example_kernel_map example_kernel_image, of s] unfolding e Let_def by blast
  show "\<exists>t stack. kmain example_symbols example_map 0x2BADB002 0xC0120000 (example_kernel s) = Inr (0, t) \<and>
     rd (task_kernel_stack_base (slot 0xC0112000 962)) t = stack + PAGE_SIZE \<and> mmu_translate t 0xBFFFF000 = mmu_translate t stack"
    by (intro exI [of _ t] exI [of _ "rd (task_kernel_stack_base (slot 0xC0112000 962)) t - PAGE_SIZE"]) (simp add: t)
qed

end
