(* ===== verification/Multitask.thy ===== *)
theory Multitask
  imports Dispatch TaskCreate
begin

text \<open>
  The running system: task code, timer interrupts and keyboard interrupts in any order, as a step relation over the
  stubs, the handlers and the scheduler. Its specification gives every task a processor of its own; the one
  processor of the machine, with the trap frames in memory, refines it.
\<close>

section \<open>The processors of the tasks\<close>

text \<open>The registers a task goes on with when it is switched to, read from its trap frame.\<close>

definition frame_regs :: "u32 \<Rightarrow> u32 \<Rightarrow> 'a machine_scheme \<Rightarrow> cpu_regs" where
  "frame_regs ss0 tf s =
     (let user = rd (tf_cs tf) s AND 3 = 3
      in \<lparr>r_ds = rd tf s, r_edi = rd (tf + 4) s, r_esi = rd (tf + 8) s, r_ebp = rd (tf + 12) s,
          r_ebx = rd (tf + 20) s, r_edx = rd (tf + 24) s, r_ecx = rd (tf + 28) s, r_eax = rd (tf + 32) s,
          r_eip = rd (tf_eip tf) s, r_cs = rd (tf_cs tf) s, r_eflags = rd (tf_eflags tf) s OR 0x200,
          r_esp = (if user then rd (tf_esp tf) s else tf + 56), r_ss = (if user then rd (tf_ss tf) s else ss0)\<rparr>)"

definition virtual_cpu :: "'a task_state_scheme \<Rightarrow> u32 \<Rightarrow> cpu_regs" where
  "virtual_cpu s t = (if t = current_task s then cpu s
     else frame_regs (tss_ss0 (tss_region s)) (rd (task_trapframe t) s) s)"

lemma bit_0x200: "bit (0x200 :: u32) n \<longleftrightarrow> n = 9"
proof -
  have "(0x200 :: u32) = push_bit 9 1" by simp
  then have "bit (0x200 :: u32) n \<longleftrightarrow> 9 \<le> n \<and> n < 32 \<and> n - 9 = 0"
    by (simp only: bit_push_bit_iff bit_1_iff possible_bit_word) simp
  also have "\<dots> \<longleftrightarrow> n = 9" by presburger
  finally show ?thesis .
qed

lemma or_0x200_bit:
  assumes "bit w 9"
  shows "w OR 0x200 = (w :: u32)"
  by (rule bit_word_eqI) (use assms in \<open>simp only: bit_or_iff bit_0x200; blast\<close>)

lemma frame_regs_flag: "bit (r_eflags (frame_regs ss0 tf s)) 9"
proof -
  have "bit (w OR 0x200) 9" for w :: u32 by (simp only: bit_or_iff bit_0x200 simp_thms)
  then show ?thesis by (simp add: frame_regs_def Let_def)
qed

lemma user_mode_frame_regs: "user_mode (frame_regs ss0 tf s) \<longleftrightarrow> rd (tf_cs tf) s AND 3 = 3"
  by (simp add: user_mode_def frame_regs_def Let_def)

lemma frame_regs_kernel:
  "\<not> user_mode (frame_regs ss0 tf s) \<Longrightarrow> r_esp (frame_regs ss0 tf s) = tf + 56 \<and> r_ss (frame_regs ss0 tf s) = ss0"
  unfolding user_mode_frame_regs by (simp add: frame_regs_def)

text \<open>A frame that saved the registers gives them back, with interrupts on.\<close>

lemma frame_regs_frame:
  assumes "frame_saved tf n r s"
  shows "frame_regs ss0 tf s = r\<lparr>r_eflags := r_eflags r OR 0x200, r_esp := if user_mode r then r_esp r else tf + 56,
    r_ss := if user_mode r then r_ss r else ss0\<rparr>"
  using assms
  by (cases "user_mode r"; cases r)
    (simp_all add: frame_saved_def frame_regs_def Let_def user_mode_def tf_eip_def tf_cs_def tf_eflags_def tf_esp_def tf_ss_def)

lemma frame_regs_saved:
  assumes "frame_saved tf n r s" "bit (r_eflags r) 9" "\<not> user_mode r \<Longrightarrow> r_esp r = tf + 56 \<and> r_ss r = ss0"
  shows "frame_regs ss0 tf s = r"
  using frame_regs_frame [OF assms(1)] assms(3) or_0x200_bit [OF assms(2)] by (cases "user_mode r") simp_all

text \<open>The switch loads exactly the registers of the frame.\<close>

lemma task_switch_regs: "cpu (task_switch_asm t s) = frame_regs (r_ss (cpu s)) (rd (task_trapframe t) s) s"
proof -
  let ?tf = "rd (task_trapframe t) s" and ?ss = "r_ss (cpu s)"
  define r where "r = (frame_regs ?ss ?tf s)\<lparr>r_eflags := rd (tf_eflags ?tf) s\<rparr>"
  have "frame_saved ?tf (rd (?tf + 36) s) r s"
    by (simp add: frame_saved_def r_def user_mode_def frame_regs_def Let_def tf_eip_def tf_cs_def tf_eflags_def
        tf_esp_def tf_ss_def)
  from task_switch_cpu [OF this refl] show ?thesis
    by (simp add: resumed_def r_def user_mode_def frame_regs_def Let_def)
qed

lemma frame_regs_cong:
  assumes "\<And>i. i < frame_size (frame_regs ss0 tf s) \<Longrightarrow> i \<noteq> 13 \<Longrightarrow> rd (tf + 4 * of_nat i) t = rd (tf + 4 * of_nat i) s"
    "rd (tf_eflags tf) t OR 0x200 = rd (tf_eflags tf) s OR 0x200"
  shows "frame_regs ss0 tf t = frame_regs ss0 tf s"
proof -
  have "frame_size (frame_regs ss0 tf s) = (if rd (tf_cs tf) s AND 3 = 3 then 16 else 14)"
    by (simp add: frame_size_def user_mode_frame_regs)
  then have w: "rd (tf + 4 * of_nat i) t = rd (tf + 4 * of_nat i) s"
    if "i < (if rd (tf_cs tf) s AND 3 = 3 then 16 else 14)" "i \<noteq> 13" for i
    using assms(1) that by simp
  have "rd tf t = rd tf s" "rd (tf + 4) t = rd (tf + 4) s" "rd (tf + 8) t = rd (tf + 8) s" "rd (tf + 12) t = rd (tf + 12) s"
    "rd (tf + 20) t = rd (tf + 20) s" "rd (tf + 24) t = rd (tf + 24) s" "rd (tf + 28) t = rd (tf + 28) s"
    "rd (tf + 32) t = rd (tf + 32) s" "rd (tf_eip tf) t = rd (tf_eip tf) s" "rd (tf_cs tf) t = rd (tf_cs tf) s"
    using w [of 0] w [of 1] w [of 2] w [of 3] w [of 5] w [of 6] w [of 7] w [of 8] w [of 11] w [of 12]
    by (simp_all add: tf_eip_def tf_cs_def split: if_splits)
  moreover have "rd (tf_esp tf) t = rd (tf_esp tf) s \<and> rd (tf_ss tf) t = rd (tf_ss tf) s" if "rd (tf_cs tf) s AND 3 = 3"
    using w [of 14] w [of 15] that by (simp add: tf_esp_def tf_ss_def)
  ultimately show ?thesis using assms(2) by (simp add: frame_regs_def Let_def)
qed

section \<open>The steps of the system\<close>

text \<open>The words of a task structure that interrupts and the scheduler read.\<close>

definition task_words :: "u32 \<Rightarrow> u32 set" where
  "task_words u = {task_next_task u, task_trapframe u, task_is_user u, task_kernel_stack_base u}"

definition same_tasks :: "'a task_state_scheme \<Rightarrow> 'a task_state_scheme \<Rightarrow> bool" where
  "same_tasks s t \<longleftrightarrow> current_task t = current_task s \<and> task_list_head t = task_list_head s \<and>
     task_list_tail t = task_list_tail s \<and> scheduler_initialized t = scheduler_initialized s \<and>
     tss_region t = tss_region s \<and> idt_handlers t = idt_handlers s"

text \<open>
  What the current task may do between two interrupts, \<open>own u\<close> being the words of the kernel stack of task \<open>u\<close>: anything to the
  registers and the state within its privilege level and its own stack, which keeps room for a frame. It does
  not write the task structures, nor the stacks of the others.
\<close>

definition task_work :: "u32 list \<Rightarrow> (u32 \<Rightarrow> u32 set) \<Rightarrow> 'a task_state_scheme \<Rightarrow> 'a task_state_scheme \<Rightarrow> bool" where
  "task_work ts own s t \<longleftrightarrow> same_tasks s t \<and>
     (\<forall>u\<in>set ts. \<forall>x\<in>task_words u. rd x t = rd x s) \<and>
     (\<forall>u\<in>set ts - {current_task s}. \<forall>x\<in>own u. rd x t = rd x s) \<and>
     user_mode (cpu t) = user_mode (cpu s) \<and>
     (\<not> user_mode (cpu t) \<longrightarrow> r_ss (cpu t) = r_ss (cpu s) \<and>
        (\<forall>i<14. frame_addr_of t + 4 * of_nat i \<in> own (current_task s)))"

text \<open>An interrupt is taken when the interrupt flag is set; a key sets the byte the keyboard controller holds.\<close>

inductive multitask ::
  "u32 list \<Rightarrow> (u32 \<Rightarrow> u32 set) \<Rightarrow> 'a kb_kernel_state_scheme \<Rightarrow> 'a kb_kernel_state_scheme \<Rightarrow> bool"
  for ts own where
  Work: "task_work ts own s t \<Longrightarrow> multitask ts own s t"
| Timer: "bit (r_eflags (cpu s)) 9 \<Longrightarrow> irq_stub 32 s = Inr (c, t) \<Longrightarrow> multitask ts own s t"
| Key: "bit (r_eflags (cpu s)) 9 \<Longrightarrow> irq_stub 33 (s\<lparr>port_in := (port_in s)(0x60 := sc)\<rparr>) = Inr (c, t) \<Longrightarrow> multitask ts own s t"

inductive_cases multitask_cases: "multitask ts own s t"

text \<open>The same steps with what happens in them, and the runs with the sequence of these events.\<close>

datatype event = Computes cpu_regs | Tick | Press u8

inductive multitask_event ::
  "u32 list \<Rightarrow> (u32 \<Rightarrow> u32 set) \<Rightarrow> event \<Rightarrow> 'a kb_kernel_state_scheme \<Rightarrow> 'a kb_kernel_state_scheme \<Rightarrow> bool"
  for ts own where
  Work_event: "task_work ts own s t \<Longrightarrow> multitask_event ts own (Computes (cpu t)) s t"
| Timer_event: "bit (r_eflags (cpu s)) 9 \<Longrightarrow> irq_stub 32 s = Inr (c, t) \<Longrightarrow> multitask_event ts own Tick s t"
| Key_event: "bit (r_eflags (cpu s)) 9 \<Longrightarrow> irq_stub 33 (s\<lparr>port_in := (port_in s)(0x60 := sc)\<rparr>) = Inr (c, t) \<Longrightarrow>
    multitask_event ts own (Press sc) s t"

inductive_cases multitask_event_cases: "multitask_event ts own e s t"

lemma multitask_iff_event: "multitask ts own s t \<longleftrightarrow> (\<exists>e. multitask_event ts own e s t)"
  by (auto elim!: multitask_cases multitask_event_cases intro: multitask_event.intros multitask.intros)

inductive multitask_run ::
  "u32 list \<Rightarrow> (u32 \<Rightarrow> u32 set) \<Rightarrow> 'a kb_kernel_state_scheme \<Rightarrow> event list \<Rightarrow> 'a kb_kernel_state_scheme \<Rightarrow> bool"
  for ts own where
  Run_none: "multitask_run ts own s [] s"
| Run_event: "multitask_event ts own e s t \<Longrightarrow> multitask_run ts own t es u \<Longrightarrow> multitask_run ts own s (e # es) u"

lemma multitask_runs: "(multitask ts own)\<^sup>*\<^sup>* s t \<longleftrightarrow> (\<exists>es. multitask_run ts own s es t)"
proof
  show "\<exists>es. multitask_run ts own s es t" if "(multitask ts own)\<^sup>*\<^sup>* s t"
    using that
  proof (induction rule: converse_rtranclp_induct)
    case (step s u)
    then show ?case by (metis multitask_iff_event Run_event)
  qed (blast intro: Run_none)
  show "(multitask ts own)\<^sup>*\<^sup>* s t" if "\<exists>es. multitask_run ts own s es t"
  proof -
    from that obtain es where "multitask_run ts own s es t" by blast
    then show ?thesis
    proof (induction rule: multitask_run.induct)
      case (Run_event e s t es u)
      then show ?case by (metis multitask_iff_event converse_rtranclp_into_rtranclp)
    qed simp
  qed
qed

text \<open>
  The specification: one processor per task, of which one runs. The code of a task sets the registers of the running
  one, a tick moves on to the next one, a key does nothing to them.
\<close>

type_synonym processors = "nat \<times> cpu_regs list"

fun processor_event :: "event \<Rightarrow> processors \<Rightarrow> processors" where
  "processor_event (Computes r) (i, rs) = (i, rs[i := r])"
| "processor_event Tick (i, rs) = (Suc i mod length rs, rs)"
| "processor_event (Press sc) (i, rs) = (i, rs)"

definition index_of :: "'b list \<Rightarrow> 'b \<Rightarrow> nat" where
  "index_of xs x = length (takeWhile (\<lambda>y. y \<noteq> x) xs)"

definition processors_of :: "u32 list \<Rightarrow> 'a task_state_scheme \<Rightarrow> processors" where
  "processors_of ts s = (index_of ts (current_task s), map (virtual_cpu s) ts)"

lemma same_tasks_refl [simp]: "same_tasks s s"
  by (simp add: same_tasks_def)

section \<open>The invariant\<close>

text \<open>The stacks are apart from each other and from the task structures.\<close>

definition stacks_apart :: "u32 list \<Rightarrow> (u32 \<Rightarrow> u32 set) \<Rightarrow> bool" where
  "stacks_apart ts own \<longleftrightarrow> (\<forall>u\<in>set ts. aligned4 u \<and>
     (\<forall>x\<in>own u. aligned4 x \<and> (\<forall>v\<in>set ts. x \<notin> task_words v \<and> (v \<noteq> u \<longrightarrow> x \<notin> own v))) \<and>
     (\<forall>v\<in>set ts. task_trapframe u \<notin> {task_next_task v, task_is_user v, task_kernel_stack_base v}))"

definition tasks_ready :: "u32 list \<Rightarrow> (u32 \<Rightarrow> u32 set) \<Rightarrow> 'a task_state_scheme \<Rightarrow> bool" where
  "tasks_ready ts own s \<longleftrightarrow> task_ring ts s \<and> scheduler_initialized s \<and> current_task s \<in> set ts \<and> stacks_apart ts own \<and>
     idt_handlers s 32 = Pic_callback \<and> idt_handlers s 33 = Isr_key_press"

text \<open>A task with code in user mode is marked, and its recorded stack has room for a frame at its top.\<close>

definition user_stack_ready :: "(u32 \<Rightarrow> u32 set) \<Rightarrow> u32 \<Rightarrow> 'a machine_scheme \<Rightarrow> bool" where
  "user_stack_ready own u s \<longleftrightarrow> mem s (task_is_user u) \<noteq> 0 \<and>
     (\<forall>i<16. rd (task_kernel_stack_base u) s - 64 + 4 * of_nat i \<in> own u)"

text \<open>A task that waits for the processor, with registers \<open>r\<close>.\<close>

definition parked :: "(u32 \<Rightarrow> u32 set) \<Rightarrow> u32 \<Rightarrow> cpu_regs \<Rightarrow> 'a task_state_scheme \<Rightarrow> bool" where
  "parked own u r s \<longleftrightarrow>
     (let tf = rd (task_trapframe u) s
      in frame_regs (tss_ss0 (tss_region s)) tf s = r \<and> (\<forall>i<frame_size r. tf + 4 * of_nat i \<in> own u) \<and>
         (user_mode r \<longrightarrow> user_stack_ready own u s))"

definition running :: "(u32 \<Rightarrow> u32 set) \<Rightarrow> 'a task_state_scheme \<Rightarrow> bool" where
  "running own s \<longleftrightarrow>
     (\<forall>i<frame_size (cpu s). frame_addr_of s + 4 * of_nat i \<in> own (current_task s)) \<and>
     (if user_mode (cpu s)
      then user_stack_ready own (current_task s) s \<and> tss_esp0 (tss_region s) = rd (task_kernel_stack_base (current_task s)) s
      else r_ss (cpu s) = tss_ss0 (tss_region s))"

definition tasks_safe :: "u32 list \<Rightarrow> (u32 \<Rightarrow> u32 set) \<Rightarrow> 'a task_state_scheme \<Rightarrow> bool" where
  "tasks_safe ts own s \<longleftrightarrow> tasks_ready ts own s \<and> running own s \<and>
     (\<forall>u\<in>set ts - {current_task s}. parked own u (virtual_cpu s u) s)"

lemma stacks_apart_words:
  assumes "stacks_apart ts own" "u \<in> set ts"
  shows "x \<in> task_words u \<Longrightarrow> aligned4 x" "x \<in> own u \<Longrightarrow> aligned4 x"
    "v \<in> set ts \<Longrightarrow> x \<in> own v \<Longrightarrow> x \<notin> task_words u" "v \<in> set ts \<Longrightarrow> v \<noteq> u \<Longrightarrow> x \<in> own v \<Longrightarrow> x \<notin> own u"
    "v \<in> set ts \<Longrightarrow> x \<in> task_words v \<Longrightarrow> x \<noteq> task_trapframe v \<Longrightarrow> x \<noteq> task_trapframe u"
    "task_trapframe u \<notin> {task_next_task u, task_is_user u, task_kernel_stack_base u}"
proof -
  have l: "aligned4 u" "\<forall>x\<in>own u. aligned4 x" "\<forall>v\<in>set ts. \<forall>x\<in>own v. x \<notin> task_words u"
    "\<forall>v\<in>set ts. \<forall>x\<in>own v. v \<noteq> u \<longrightarrow> x \<notin> own u"
    "\<forall>v\<in>set ts. task_trapframe u \<notin> {task_next_task v, task_is_user v, task_kernel_stack_base v}"
    using assms unfolding stacks_apart_def by blast+
  have "aligned4 (4 :: u32)" "aligned4 (16 :: u32)" "aligned4 (24 :: u32)" "aligned4 (36 :: u32)"
    by (simp_all add: aligned4_def)
  then show "x \<in> task_words u \<Longrightarrow> aligned4 x"
    using aligned4_add [OF l(1)]
    by (auto simp: task_words_def task_next_task_def task_trapframe_def task_is_user_def task_kernel_stack_base_def)
  show "x \<in> own u \<Longrightarrow> aligned4 x" "v \<in> set ts \<Longrightarrow> x \<in> own v \<Longrightarrow> x \<notin> task_words u"
    "v \<in> set ts \<Longrightarrow> v \<noteq> u \<Longrightarrow> x \<in> own v \<Longrightarrow> x \<notin> own u"
    "v \<in> set ts \<Longrightarrow> x \<in> task_words v \<Longrightarrow> x \<noteq> task_trapframe v \<Longrightarrow> x \<noteq> task_trapframe u"
    "task_trapframe u \<notin> {task_next_task u, task_is_user u, task_kernel_stack_base u}"
    using l(2-5) assms(2) by (blast, blast, blast, auto simp: task_words_def)
qed

lemma is_user_cong: "rd (task_is_user u) t = rd (task_is_user u) s \<Longrightarrow> mem t (task_is_user u) = mem s (task_is_user u)"
  using ucast_rd [of "task_is_user u" t] ucast_rd [of "task_is_user u" s] by simp

lemma user_stack_cong:
  assumes "\<And>x. x \<in> task_words u - {task_trapframe u} \<Longrightarrow> rd x t = rd x s"
    "task_trapframe u \<notin> {task_is_user u, task_kernel_stack_base u}"
  shows "user_stack_ready own u t = user_stack_ready own u s"
  using assms(1) [of "task_is_user u"] assms(1) [of "task_kernel_stack_base u"] assms(2) is_user_cong [of u t s]
  by (auto simp: user_stack_ready_def task_words_def)

lemma parked_cong:
  assumes "parked own u r s" "\<And>x. x \<in> task_words u \<Longrightarrow> rd x t = rd x s" "\<And>x. x \<in> own u \<Longrightarrow> rd x t = rd x s"
    "tss_ss0 (tss_region t) = tss_ss0 (tss_region s)" "task_trapframe u \<notin> {task_is_user u, task_kernel_stack_base u}"
  shows "parked own u r t"
proof -
  let ?tf = "rd (task_trapframe u) s" and ?ss = "tss_ss0 (tss_region s)"
  have p: "frame_regs ?ss ?tf s = r" "\<forall>i<frame_size r. ?tf + 4 * of_nat i \<in> own u" "user_mode r \<Longrightarrow> user_stack_ready own u s"
    using assms(1) by (simp_all add: parked_def Let_def)
  have w: "rd (?tf + 4 * of_nat i) t = rd (?tf + 4 * of_nat i) s" if "i < frame_size r" for i
    using p(2) that assms(3) by blast
  have "rd (task_trapframe u) t = ?tf" using assms(2) by (simp add: task_words_def)
  moreover have "frame_regs ?ss ?tf t = r"
    using frame_regs_cong [of ?ss ?tf s t] w w [of 13] p(1) by (simp add: tf_eflags_def frame_size_def)
  moreover have "user_stack_ready own u t = user_stack_ready own u s"
    using assms(2,5) by (intro user_stack_cong) simp_all
  ultimately show ?thesis using p(2,3) assms(4) by (simp add: parked_def Let_def)
qed

lemma tasks_ready_cong:
  assumes "tasks_ready ts own s" "same_tasks s t" "\<And>u. u \<in> set ts \<Longrightarrow> rd (task_next_task u) t = rd (task_next_task u) s"
  shows "tasks_ready ts own t"
  using assms by (simp add: tasks_ready_def same_tasks_def task_ring_def)

lemma frame_word_aligned: "aligned4 (frame_addr_of s) \<Longrightarrow> aligned4 (frame_top s)"
proof -
  assume "aligned4 (frame_addr_of s)"
  then have "aligned4 (frame_addr_of s - 4 * - of_nat (frame_size (cpu s)))" by (rule aligned4_minus)
  then show ?thesis by (simp add: frame_addr_top)
qed

text \<open>
  Entering the kernel parks the current task: after the entry of an interrupt every task waits in its frame, with the
  registers its own processor has.
\<close>

lemma irq_entry_parks:
  fixes n :: u32
  assumes "tasks_safe ts own s" "bit (r_eflags (cpu s)) 9"
  defines "e \<equiv> irq_entry n s"
  shows "tasks_ready ts own e" "\<And>u. u \<in> set ts \<Longrightarrow> parked own u (virtual_cpu s u) e" "same_tasks s e"
    "r_ss (cpu e) = tss_ss0 (tss_region s)" "frame_saved (frame_addr_of s) n (cpu s) e" "r_esp (cpu e) = frame_addr_of s"
    "\<And>u x. u \<in> set ts \<Longrightarrow> x \<in> task_words u \<Longrightarrow> x \<noteq> task_trapframe (current_task s) \<Longrightarrow> rd x e = rd x s"
proof -
  let ?c = "current_task s" and ?f = "frame_addr_of s" and ?ss = "tss_ss0 (tss_region s)"
  have rdy: "tasks_ready ts own s" and run: "running own s"
    and prk: "\<And>u. u \<in> set ts \<Longrightarrow> u \<noteq> ?c \<Longrightarrow> parked own u (virtual_cpu s u) s"
    using assms(1) by (simp_all add: tasks_safe_def)
  have c: "?c \<in> set ts" "stacks_apart ts own" "?c \<noteq> 0"
    using rdy by (auto simp: tasks_ready_def task_ring_def)
  note w = stacks_apart_words [OF c(2)]
  have fw: "?f + 4 * of_nat i \<in> own ?c" if "i < frame_size (cpu s)" for i
    using run that by (simp add: running_def)
  have al: "aligned4 (frame_top s)"
    using w(2) [OF c(1) fw, of 0] by (intro frame_word_aligned) (simp add: frame_size_def)
  have tr: "task_trapframe u \<in> task_words u" for u by (simp add: task_words_def)
  have rde: "rd x e = (if x = task_trapframe ?c then ?f else rd x s)"
    if "aligned4 x" "x \<notin> own ?c" for x
    unfolding e_def using rd_irq_entry [OF al w(1) [OF c(1) tr] that(1)] fw that(2) c(3) by metis
  have tw: "rd x e = (if x = task_trapframe ?c then ?f else rd x s)" if "u \<in> set ts" "x \<in> task_words u" for u x
    using rde w(1,3) that c(1) by blast
  then show word: "\<And>u x. u \<in> set ts \<Longrightarrow> x \<in> task_words u \<Longrightarrow> x \<noteq> task_trapframe ?c \<Longrightarrow> rd x e = rd x s"
    by simp
  show st: "same_tasks s e"
    by (simp add: e_def irq_entry_def irq_entry_eq task_update_trapframe_def wr_def same_tasks_def)
  show "r_ss (cpu e) = ?ss"
    using run by (simp add: e_def irq_entry_def irq_entry_eq task_update_trapframe_def wr_def running_def)
  have fc: "frame_clear s"
    unfolding frame_clear_def using al fw w(1,2,3) c(1) tr aligned4_apart32 by metis
  show sv: "frame_saved ?f n (cpu s) e" "r_esp (cpu e) = ?f"
    unfolding e_def by (rule irq_entry_frame [OF fc])+
  have nx: "rd (task_next_task u) e = rd (task_next_task u) s" if "u \<in> set ts" for u
    using word [OF that, of "task_next_task u"] w(5) [OF c(1) that, of "task_next_task u"] w(6) [OF that]
    by (auto simp: task_words_def)
  show "tasks_ready ts own e" by (rule tasks_ready_cong [OF rdy st nx])
  have ut: "user_stack_ready own u e = user_stack_ready own u s" if "u \<in> set ts" for u
  proof (rule user_stack_cong)
    show "task_trapframe u \<notin> {task_is_user u, task_kernel_stack_base u}"
      using w(6) [OF that] by simp
    show "rd x e = rd x s" if "x \<in> task_words u - {task_trapframe u}" for x
      using word [OF \<open>u \<in> set ts\<close>, of x] w(5) [OF c(1) \<open>u \<in> set ts\<close>, of x] that by simp
  qed
  show "parked own u (virtual_cpu s u) e" if u: "u \<in> set ts" for u
  proof (cases "u = ?c")
    case True
    have "rd (task_trapframe ?c) e = ?f" using tw [OF c(1) tr] by simp
    moreover have "frame_regs ?ss ?f e = cpu s"
    proof (rule frame_regs_saved [OF sv(1) assms(2)])
      assume "\<not> user_mode (cpu s)"
      then show "r_esp (cpu s) = ?f + 56 \<and> r_ss (cpu s) = ?ss"
        using run by (simp add: running_def frame_addr_of_def frame_top_def)
    qed
    moreover have "user_mode (cpu s) \<Longrightarrow> user_stack_ready own ?c e" using ut [OF c(1)] run by (simp add: running_def)
    moreover have "tss_region e = tss_region s" using st by (simp add: same_tasks_def)
    ultimately show ?thesis using fw by (simp add: True parked_def virtual_cpu_def)
  next
    case False
    have "task_trapframe u \<noteq> task_trapframe ?c" using False by (simp add: task_trapframe_def)
    then have "x \<noteq> task_trapframe ?c" if "x \<in> task_words u" for x
      using w(5) [OF c(1) u that] by metis
    then have "rd x e = rd x s" if "x \<in> task_words u" for x using tw [OF u that] that by simp
    moreover have "rd x e = rd x s" if "x \<in> own u" for x
      using rde [OF w(2) [OF u that] w(4) [OF c(1) u _ that]] w(3) [OF c(1) u that] tr False by metis
    moreover have "tss_region e = tss_region s" using st by (simp add: same_tasks_def)
    moreover have "task_trapframe u \<notin> {task_is_user u, task_kernel_stack_base u}"
      using w(6) [OF u] by simp
    ultimately show ?thesis by (intro parked_cong [OF prk [OF u False]]) simp_all
  qed
qed

text \<open>
  Leaving the kernel: when every task waits in its frame, the switch gives the processor to the next one, and all others
  go on waiting.
\<close>

lemma switch_resumes:
  fixes s :: "'a task_state_scheme"
  assumes "tasks_ready ts own s" "\<And>u. u \<in> set ts \<Longrightarrow> parked own u (R u) s" "r_ss (cpu s) = tss_ss0 (tss_region s)" "n \<in> set ts"
  defines "t \<equiv> task_switch_asm n (if mem s (task_is_user n) \<noteq> 0 then gdt_update_tss (rd (task_kernel_stack_base n) s) s else s)"
  shows "tasks_safe ts own t" "current_task t = n" "\<And>u. u \<in> set ts \<Longrightarrow> virtual_cpu t u = R u" "int_flag t"
proof -
  let ?tf = "rd (task_trapframe n) s" and ?ss = "tss_ss0 (tss_region s)"
  define v where "v = (if mem s (task_is_user n) \<noteq> 0 then gdt_update_tss (rd (task_kernel_stack_base n) s) s else s)"
  have v: "rd a v = rd a s" "cpu v = cpu s" for a by (simp_all add: v_def) (simp add: gdt_update_tss_def)
  have tv: "t = task_switch_asm n v" by (simp add: t_def v_def)
  have sp: "stacks_apart ts own" using assms(1) by (simp add: tasks_ready_def)
  note w = stacks_apart_words [OF sp]
  have pn: "frame_regs ?ss ?tf s = R n" "\<forall>i<frame_size (R n). ?tf + 4 * of_nat i \<in> own n" "user_mode (R n) \<Longrightarrow> user_stack_ready own n s"
    using assms(2) [OF assms(4)] by (simp_all add: parked_def Let_def)
  have ef: "tf_eflags ?tf \<in> own n" using pn(2) [rule_format, of 13] by (simp add: tf_eflags_def frame_size_def)
  have rdt: "rd x t = rd x s" if "aligned4 x" "x \<noteq> tf_eflags ?tf" for x
    unfolding tv using rd_task_switch [of n v x] aligned4_apart32 [OF w(2) [OF assms(4) ef] that(1)] that(2) v(1) by simp
  have word: "rd x t = rd x s" if "u \<in> set ts" "x \<in> task_words u" for u x
    using rdt [OF w(1) [OF that]] w(3) [OF that(1) assms(4) ef] that(2) by blast
  have reg: "cpu t = R n"
  proof -
    have "cpu t = frame_regs ?ss ?tf v" using task_switch_regs [of n v] assms(3) by (simp add: tv v)
    also have "\<dots> = frame_regs ?ss ?tf s" by (rule frame_regs_cong) (simp_all add: v)
    finally show ?thesis using pn(1) by simp
  qed
  have fl: "task_list_head t = task_list_head s" "task_list_tail t = task_list_tail s"
    "scheduler_initialized t = scheduler_initialized s" "idt_handlers t = idt_handlers s" "tss_ss0 (tss_region t) = ?ss"
    by (simp_all add: tv v_def task_switch_asm_def Let_def cli_def wr_def gdt_update_tss_def)
  show cur: "current_task t = n" by (simp add: tv task_switch_fields)
  have rdy: "tasks_ready ts own t"
  proof -
    have "rd (task_next_task u) t = rd (task_next_task u) s" if "u \<in> set ts" for u
      using word [OF that] by (simp add: task_words_def)
    then show ?thesis using assms(1,4) fl cur by (simp add: tasks_ready_def task_ring_def)
  qed
  have prk: "parked own u (R u) t" if "u \<in> set ts" "u \<noteq> n" for u
  proof (rule parked_cong [OF assms(2) [OF that(1)] word [OF that(1)] _ fl(5)])
    show "rd x t = rd x s" if "x \<in> own u" for x
      using rdt [OF w(2) [OF \<open>u \<in> set ts\<close> that]] w(4) [OF \<open>u \<in> set ts\<close> assms(4) _ ef] that \<open>u \<noteq> n\<close> by metis
    show "task_trapframe u \<notin> {task_is_user u, task_kernel_stack_base u}" using w(6) [OF that(1)] by simp
  qed
  show virt: "virtual_cpu t u = R u" if "u \<in> set ts" for u
    using prk [OF that] that by (simp add: virtual_cpu_def cur reg parked_def Let_def)
  have run: "running own t"
  proof (cases "user_mode (R n)")
    case True
    then have u: "user_stack_ready own n s" by (rule pn(3))
    then have "tss_esp0 (tss_region t) = rd (task_kernel_stack_base n) s"
      by (simp add: tv task_switch_fields v_def user_stack_ready_def gdt_update_tss_def)
    moreover have "rd (task_kernel_stack_base n) t = rd (task_kernel_stack_base n) s"
      using word [OF assms(4)] by (simp add: task_words_def)
    moreover have "user_stack_ready own n t"
      using user_stack_cong [of n t s own] word [OF assms(4)] w(6) [OF assms(4)] u by simp
    ultimately show ?thesis
      using True u by (simp add: running_def cur reg frame_addr_of_def frame_top_def user_stack_ready_def frame_size_def)
  next
    case False
    then have "r_esp (R n) = ?tf + 56" "r_ss (R n) = ?ss" using frame_regs_kernel [of ?ss ?tf s] pn(1) by simp_all
    then show ?thesis
      using False pn(2) fl(5) by (simp add: running_def cur reg frame_addr_of_def frame_top_def frame_size_def)
  qed
  show "tasks_safe ts own t"
    using rdy run prk virt by (simp add: tasks_safe_def cur)
  show "int_flag t" unfolding tv by (rule task_switch_interrupts)
qed

text \<open>\<^verbatim>\<open>pic_callback\<close> prints at most, and calls the scheduler.\<close>

lemma pic_callback_scheduler:
  obtains u where "pic_callback s = scheduler u" "mem u = mem s" "cpu u = cpu s" "same_tasks s u" "tick u = tick s + 1"
proof -
  let ?s = "s\<lparr>tick := tick s + 1\<rparr>"
  let ?p = "tty_printstr (lit ''Tick: '') ?s"
  define u where "u = (if pic_print s then tty_putc 10 (tty_printint (tick ?p) ?p) else ?s)"
  have "prints ?s u"
    unfolding u_def by (auto intro!: prints_refl prints_trans [OF _ prints_putc] prints_trans [OF _ prints_printint] prints_printstr)
  then have "same_kernel ?s u" by (rule prints_same_kernel)
  then have "mem u = mem s \<and> cpu u = cpu s \<and> same_tasks s u \<and> tick u = tick s + 1"
    unfolding same_kernel_def same_tasks_def by (cases u; cases s; simp)
  moreover have "pic_callback s = scheduler u" by (simp add: pic_callback_def Let_def u_def)
  ultimately show ?thesis using that by blast
qed

text \<open>The timer interrupt, from the code of one task to the code of the next.\<close>

lemma timer_step:
  fixes s :: "'a kb_kernel_state_scheme"
  assumes "tasks_safe ts own s" "bit (r_eflags (cpu s)) 9" "i < length ts" "current_task s = ts ! i"
  obtains t where "irq_stub 32 s = Inr (Resume, t)" "tasks_safe ts own t" "current_task t = ts ! (Suc i mod length ts)"
    "\<And>u. u \<in> set ts \<Longrightarrow> virtual_cpu t u = virtual_cpu s u" "int_flag t"
proof -
  define e where "e = irq_entry 32 s"
  note ent = irq_entry_parks [OF assms(1,2), where n = 32, folded e_def]
  let ?e = "outb 0x20 0x20 e"
  obtain u where u: "pic_callback ?e = scheduler u" "mem u = mem ?e" "cpu u = cpu ?e" "same_tasks ?e u"
    by (rule pic_callback_scheduler [of ?e])
  have eu: "rd a u = rd a e" "cpu u = cpu e" "same_tasks e u" for a
    using u by (simp_all add: rd_def outb_def same_tasks_def)
  let ?n = "ts ! (Suc i mod length ts)"
  have ru: "tasks_ready ts own u" by (rule tasks_ready_cong [OF ent(1) eu(3)]) (simp add: eu(1))
  have ring: "task_ring ts u" "scheduler_initialized u" using ru by (simp_all add: tasks_ready_def)
  have cu: "current_task u = ts ! i" using eu(3) ent(3) assms(4) by (simp add: same_tasks_def)
  have nx: "rd (task_next_task (ts ! i)) u = ?n" "?n \<in> set ts" "ts ! i \<noteq> 0" "?n \<noteq> 0"
  proof -
    show "rd (task_next_task (ts ! i)) u = ?n" and n: "?n \<in> set ts" using ring(1) assms(3) by (simp_all add: task_ring_def)
    have "0 \<notin> set ts" "ts ! i \<in> set ts" using ring(1) assms(3) by (simp_all add: task_ring_def)
    with n show "ts ! i \<noteq> 0" "?n \<noteq> 0" by metis+
  qed
  have pk: "parked own x (virtual_cpu s x) u" if "x \<in> set ts" for x
    using stacks_apart_words(6) [of ts own x] that ru eu
    by (intro parked_cong [OF ent(2) [OF that]]) (simp_all add: tasks_ready_def same_tasks_def)
  let ?v = "if mem u (task_is_user ?n) \<noteq> 0 then gdt_update_tss (rd (task_kernel_stack_base ?n) u) u else u"
  let ?t = "task_switch_asm ?n ?v"
  have "rd (task_next_task (current_task ?v)) ?v = ?n" by (simp add: gdt_update_tss_fields cu nx(1))
  then have sch: "scheduler u = (Resume, ?t)"
    using ring(2) nx cu by (simp add: scheduler_def Let_def)
  have ss: "r_ss (cpu u) = tss_ss0 (tss_region u)" using ent(3,4) eu(2,3) by (simp add: same_tasks_def)
  note sw = switch_resumes [OF ru pk ss nx(2)]
  have no: "rd (r_esp (cpu e) + 36) e = 32" using ent(5,6) by (simp add: frame_saved_def)
  have h: "idt_handlers ?e 32 = Pic_callback" using ent(1) by (simp add: tasks_ready_def outb_def)
  have "irq_stub 32 s = Inr (Resume, ?t)"
    using no h u(1) sch
    by (simp add: irq_stub_def e_def [symmetric] Let_def irq_handler_def call_handler_def)
  then show ?thesis using sw by (intro that [of ?t])
qed

text \<open>The keyboard interrupt, which comes back to the task.\<close>

lemma isr_key_press_frame:
  assumes "isr_key_press s = Inr ((), t)"
  shows "mem t = mem s \<and> cpu t = cpu s \<and> same_tasks s t"
proof -
  have a: "mem u = mem s \<and> cpu u = cpu s \<and> same_tasks s u" if "add_key k s = Inr ((), u)" for k u
    using that by (auto simp: add_key_def Let_def same_tasks_def split: if_splits)
  have c: "mem (tty_clear s) = mem s \<and> cpu (tty_clear s) = cpu s \<and> same_tasks s (tty_clear s)"
  proof -
    obtain M ps where "tty_clear s = s\<lparr>tty_buffer := 0xC00B8000,
       tty_color := vga_color_entry VGA_COLOR_WHITE VGA_COLOR_BLACK, vga_mem := M,
       tty_xpos := 0, tty_ypos := 0, port_out := ps\<rparr>" using tty_clear_upd [of s] by blast
    then show ?thesis by (simp add: same_tasks_def)
  qed
  have o: "mem (outb p v u) = mem u" "cpu (outb p v u) = cpu u" "same_tasks s (outb p v u) = same_tasks s u"
    "same_tasks s (s\<lparr>kb_state := x\<rparr>)"
    for p v x and u :: "'a kb_kernel_state_scheme"
    by (simp_all add: outb_def same_tasks_def)
  show ?thesis using assms a c by (auto simp: isr_key_press_def Let_def o bindR_eq_Inr split: if_splits)
qed

lemma key_step:
  fixes s :: "'a kb_kernel_state_scheme"
  assumes "tasks_safe ts own s" "bit (r_eflags (cpu s)) 9" "irq_stub 33 s = Inr (c, t)"
  shows "c = Return" "tasks_safe ts own t" "current_task t = current_task s"
    "\<And>u. u \<in> set ts \<Longrightarrow> virtual_cpu t u = virtual_cpu s u"
proof -
  define e where "e = irq_entry 33 s"
  note ent = irq_entry_parks [OF assms(1,2), where n = 33, folded e_def]
  let ?e = "outb 0x20 0x20 e" and ?f = "frame_addr_of s" and ?c = "current_task s"
  have no: "rd (r_esp (cpu e) + 36) e = 33" using ent(5,6) by (simp add: frame_saved_def)
  have h: "idt_handlers ?e 33 = Isr_key_press" using ent(1) by (simp add: tasks_ready_def outb_def)
  obtain u where u: "isr_key_press ?e = Inr ((), u)" "c = Return" "t = irq_return ?f u"
    using assms(3) no h ent(6)
    by (auto simp: irq_stub_def e_def [symmetric] Let_def irq_handler_def call_handler_def bindR_eq_Inr)
  have eu: "rd a u = rd a e" "cpu u = cpu e" "same_tasks e u" for a
    using isr_key_press_frame [OF u(1)] by (simp_all add: rd_def outb_def same_tasks_def)
  have sv: "frame_saved ?f 33 (cpu s) u" by (rule frame_saved_cong [OF ent(5)]) (simp add: eu(1))
  have rdt: "rd a t = rd a e" for a using irq_return_cpu(2) [OF sv] eu(1) [of a] by (simp add: u(3) rd_def)
  have st: "same_tasks e t" using eu(3) by (simp add: u(3) irq_return_def Let_def sti_def same_tasks_def)
  have run: "running own s" and c: "?c \<in> set ts" "stacks_apart ts own"
    using assms(1) by (simp_all add: tasks_safe_def tasks_ready_def)
  have ct: "cpu t = cpu s"
    using irq_return_cpu(1) [OF sv] run ent(4) eu(2)
    by (simp add: u(3) resumed_def frame_addr_of_def frame_top_def running_def)
  have cur: "current_task t = ?c" "tss_region t = tss_region s" using st ent(3) by (simp_all add: same_tasks_def)
  have rdy: "tasks_ready ts own t" by (rule tasks_ready_cong [OF ent(1) st]) (simp add: rdt)
  have prk: "parked own x (virtual_cpu s x) t" if "x \<in> set ts" for x
    using stacks_apart_words(6) [OF c(2) that] cur(2) ent(3)
    by (intro parked_cong [OF ent(2) [OF that]]) (simp_all add: rdt same_tasks_def)
  show "c = Return" "current_task t = ?c" by (fact u(2), fact cur(1))
  show virt: "virtual_cpu t x = virtual_cpu s x" if "x \<in> set ts" for x
    using prk [OF that] by (simp add: virtual_cpu_def cur ct parked_def Let_def)
  note w = stacks_apart_words [OF c(2) c(1)]
  have word: "rd x t = rd x s" if "x \<in> task_words ?c - {task_trapframe ?c}" for x
    using ent(7) [OF c(1)] that by (simp add: rdt)
  have ut: "user_stack_ready own ?c t = user_stack_ready own ?c s"
    using w(6) by (intro user_stack_cong [OF word]) simp_all
  moreover have "rd (task_kernel_stack_base ?c) t = rd (task_kernel_stack_base ?c) s"
    using w(6) by (intro word) (simp add: task_words_def, metis)
  moreover have "frame_addr_of t = frame_addr_of s" by (simp add: cur ct frame_addr_of_def frame_top_def)
  ultimately have "running own t" using run by (simp add: running_def cur ct)
  then show "tasks_safe ts own t" using rdy prk virt by (simp add: tasks_safe_def cur)
qed

text \<open>The work of the current task.\<close>

lemma work_step:
  assumes "tasks_safe ts own s" "task_work ts own s t"
  shows "tasks_safe ts own t" "current_task t = current_task s"
    "\<And>u. u \<in> set ts \<Longrightarrow> u \<noteq> current_task s \<Longrightarrow> virtual_cpu t u = virtual_cpu s u"
    "user_mode (cpu t) = user_mode (cpu s)"
proof -
  let ?c = "current_task s"
  have st: "same_tasks s t" and word: "\<And>u x. u \<in> set ts \<Longrightarrow> x \<in> task_words u \<Longrightarrow> rd x t = rd x s"
    and oth: "\<And>u x. u \<in> set ts \<Longrightarrow> u \<noteq> ?c \<Longrightarrow> x \<in> own u \<Longrightarrow> rd x t = rd x s"
    and um: "user_mode (cpu t) = user_mode (cpu s)"
    and km: "\<not> user_mode (cpu t) \<Longrightarrow> r_ss (cpu t) = r_ss (cpu s) \<and> (\<forall>i<14. frame_addr_of t + 4 * of_nat i \<in> own ?c)"
    using assms(2) by (simp_all add: task_work_def)
  show cur: "current_task t = ?c" and "user_mode (cpu t) = user_mode (cpu s)"
    using st um by (simp_all add: same_tasks_def)
  have run: "running own s" and c: "?c \<in> set ts" "stacks_apart ts own"
    and prk: "\<And>u. u \<in> set ts \<Longrightarrow> u \<noteq> ?c \<Longrightarrow> parked own u (virtual_cpu s u) s" and rdy: "tasks_ready ts own s"
    using assms(1) by (simp_all add: tasks_safe_def tasks_ready_def)
  note w = stacks_apart_words [OF c(2)]
  have rdy': "tasks_ready ts own t"
    by (rule tasks_ready_cong [OF rdy st]) (use word in \<open>simp add: task_words_def\<close>)
  have prk': "parked own u (virtual_cpu s u) t" if "u \<in> set ts" "u \<noteq> ?c" for u
    using w(6) [OF that(1)] st
    by (intro parked_cong [OF prk [OF that] word [OF that(1)] oth [OF that]]) (simp_all add: same_tasks_def)
  then show virt: "virtual_cpu t u = virtual_cpu s u" if "u \<in> set ts" "u \<noteq> ?c" for u
    using that by (simp add: virtual_cpu_def cur parked_def Let_def)
  have "user_stack_ready own ?c t = user_stack_ready own ?c s"
    using w(6) [OF c(1)] word [OF c(1)] by (intro user_stack_cong) simp_all
  moreover have "rd (task_kernel_stack_base ?c) t = rd (task_kernel_stack_base ?c) s"
    using word [OF c(1)] by (simp add: task_words_def)
  moreover have "frame_addr_of t = frame_addr_of s" if "user_mode (cpu s)"
    using that um st by (simp add: frame_addr_of_def frame_top_def same_tasks_def)
  ultimately have "running own t"
    using run um km st by (cases "user_mode (cpu s)") (simp_all add: running_def cur same_tasks_def frame_size_def)
  then show "tasks_safe ts own t" using rdy' prk' virt by (simp add: tasks_safe_def cur)
qed

section \<open>Refinement\<close>

lemma index_of_nth: "distinct xs \<Longrightarrow> i < length xs \<Longrightarrow> index_of xs (xs ! i) = i"
proof (induction xs arbitrary: i)
  case (Cons x xs)
  then show ?case by (cases i) (auto simp: index_of_def)
qed simp

lemma map_update_nth:
  assumes "distinct xs" "i < length xs" "\<And>x. x \<in> set xs \<Longrightarrow> x \<noteq> xs ! i \<Longrightarrow> f x = g x"
  shows "map f xs = (map g xs)[i := f (xs ! i)]"
  using assms by (intro nth_equalityI) (auto simp: nth_list_update nth_eq_iff_index_eq)

lemma multitask_event_step:
  fixes s :: "'a kb_kernel_state_scheme"
  assumes "tasks_safe ts own s" "multitask_event ts own e s t"
  shows "tasks_safe ts own t" "processors_of ts t = processor_event e (processors_of ts s)"
    "\<And>u. u \<in> set ts \<Longrightarrow> u \<noteq> current_task s \<Longrightarrow> virtual_cpu t u = virtual_cpu s u"
    "\<And>u. u \<in> set ts \<Longrightarrow> user_mode (virtual_cpu t u) = user_mode (virtual_cpu s u)"
proof -
  have d: "distinct ts" "current_task s \<in> set ts"
    using assms(1) by (simp_all add: tasks_safe_def tasks_ready_def task_ring_def)
  then obtain i where i: "i < length ts" "current_task s = ts ! i" by (metis in_set_conv_nth)
  note ix = index_of_nth [OF d(1)]
  have next_less: "Suc i mod length ts < length ts" using i(1) by (intro mod_less_divisor) linarith
  have "tasks_safe ts own t \<and> processors_of ts t = processor_event e (processors_of ts s) \<and>
      (\<forall>u\<in>set ts. (u \<noteq> current_task s \<longrightarrow> virtual_cpu t u = virtual_cpu s u) \<and>
         user_mode (virtual_cpu t u) = user_mode (virtual_cpu s u))"
    using assms(2)
  proof (rule multitask_event_cases)
    assume e: "e = Computes (cpu t)" and "task_work ts own s t"
    note w = work_step [OF assms(1) this(2)]
    have "map (virtual_cpu t) ts = (map (virtual_cpu s) ts)[i := virtual_cpu t (ts ! i)]"
      using w(3) i by (intro map_update_nth [OF d(1)]) auto
    moreover have "virtual_cpu t (ts ! i) = cpu t" using w(2) i(2) by (simp add: virtual_cpu_def)
    ultimately have "processors_of ts t = processor_event e (processors_of ts s)"
      using w(2) i ix by (simp add: processors_of_def e)
    moreover have "user_mode (virtual_cpu t u) = user_mode (virtual_cpu s u)" if "u \<in> set ts" for u
      using w(2-4) that by (cases "u = current_task s") (simp_all add: virtual_cpu_def)
    ultimately show ?thesis using w(1,3) by blast
  next
    fix c assume e: "e = Tick" and Timer: "bit (r_eflags (cpu s)) 9" "irq_stub 32 s = Inr (c, t)"
    obtain v where v: "irq_stub 32 s = Inr (Resume, v)" "tasks_safe ts own v" "current_task v = ts ! (Suc i mod length ts)"
      "\<And>u. u \<in> set ts \<Longrightarrow> virtual_cpu v u = virtual_cpu s u"
      by (rule timer_step [OF assms(1) Timer(1) i]) (rule that)
    then have "v = t" using Timer(2) by simp
    moreover have "processors_of ts v = processor_event e (processors_of ts s)"
      using i ix next_less v(3,4) by (simp add: processors_of_def e cong: map_cong)
    ultimately show ?thesis using v by simp
  next
    fix sc c assume e: "e = Press sc"
      and Key: "bit (r_eflags (cpu s)) 9" "irq_stub 33 (s\<lparr>port_in := (port_in s)(0x60 := sc)\<rparr>) = Inr (c, t)"
    let ?s = "s\<lparr>port_in := (port_in s)(0x60 := sc)\<rparr>"
    have r: "rd a ?s = rd a s" for a by (simp add: rd_def)
    have f: "frame_addr_of ?s = frame_addr_of s" by (simp add: frame_addr_of_def frame_top_def)
    have "running own s" using assms(1) by (simp add: tasks_safe_def)
    then have "task_work ts own s ?s" by (auto simp: task_work_def same_tasks_def r f running_def frame_size_def)
    note wk = work_step [OF assms(1) this]
    have vs: "virtual_cpu ?s u = virtual_cpu s u" if "u \<in> set ts" for u
      using wk(3) [OF that] by (cases "u = current_task s") (simp_all add: virtual_cpu_def)
    note k = key_step [OF wk(1) _ Key(2)]
    have virt: "virtual_cpu t u = virtual_cpu s u" if "u \<in> set ts" for u using k(4) [OF _ that] Key(1) vs [OF that] by simp
    moreover have "tasks_safe ts own t" "current_task t = current_task s" using k(2,3) Key(1) by simp_all
    moreover from this(2) have "processors_of ts t = processor_event e (processors_of ts s)"
      using virt by (simp add: processors_of_def e cong: map_cong)
    ultimately show ?thesis by simp
  qed
  then show "tasks_safe ts own t" "processors_of ts t = processor_event e (processors_of ts s)"
    "\<And>u. u \<in> set ts \<Longrightarrow> u \<noteq> current_task s \<Longrightarrow> virtual_cpu t u = virtual_cpu s u"
    "\<And>u. u \<in> set ts \<Longrightarrow> user_mode (virtual_cpu t u) = user_mode (virtual_cpu s u)" by blast+
qed

lemma multitask_step:
  fixes s :: "'a kb_kernel_state_scheme"
  assumes "tasks_safe ts own s" "multitask ts own s t"
  shows "tasks_safe ts own t" "\<And>u. u \<in> set ts \<Longrightarrow> u \<noteq> current_task s \<Longrightarrow> virtual_cpu t u = virtual_cpu s u"
proof -
  obtain e where "multitask_event ts own e s t" using assms(2) by (auto simp: multitask_iff_event)
  note st = multitask_event_step [OF assms(1) this]
  show "tasks_safe ts own t" "\<And>u. u \<in> set ts \<Longrightarrow> u \<noteq> current_task s \<Longrightarrow> virtual_cpu t u = virtual_cpu s u"
    by (fact st(1), rule st(3))
qed

interpretation multitasking: invariant_system "multitask ts own" "tasks_safe ts own" for ts own
  by unfold_locales (rule multitask_step(1))

section \<open>Properties\<close>

lemma multitask_refines:
  fixes s :: "'a kb_kernel_state_scheme"
  assumes "multitask_run ts own s es t" "tasks_safe ts own s"
  shows "tasks_safe ts own t \<and> processors_of ts t = fold processor_event es (processors_of ts s) \<and>
    (\<forall>u\<in>set ts. user_mode (virtual_cpu t u) = user_mode (virtual_cpu s u))"
  using assms
proof (induction rule: multitask_run.induct)
  case (Run_event e s t es u)
  note st = multitask_event_step [OF Run_event.prems Run_event.hyps(1)]
  show ?case using Run_event.IH [OF st(1)] st(2,4) by simp
qed simp

text \<open>
  C4: multitasking is well-formed and never stuck. From a state in which every waiting task has its frame on its own
  stack, every state that task code, timer and keyboard interrupts reach, in any order, is such a state again;
  and whenever it has interrupts enabled, the timer interrupt takes it to the next task of the ring.
\<close>

theorem multitasking_never_stuck:
  fixes s :: "'a kb_kernel_state_scheme"
  assumes "tasks_safe ts own s" "(multitask ts own)\<^sup>*\<^sup>* s t"
  shows "tasks_safe ts own t \<and> (bit (r_eflags (cpu t)) 9 \<longrightarrow>
    (\<exists>u. irq_stub 32 t = Inr (Resume, u) \<and> tasks_safe ts own u \<and> int_flag u \<and>
       (\<forall>i<length ts. current_task t = ts ! i \<longrightarrow> current_task u = ts ! (Suc i mod length ts))))"
proof -
  have safe: "tasks_safe ts own t" by (rule multitasking.reachable_inv [OF assms(2,1)])
  then have "current_task t \<in> set ts" "distinct ts" by (simp_all add: tasks_safe_def tasks_ready_def task_ring_def)
  then obtain i where i: "i < length ts" "current_task t = ts ! i" "\<forall>j<length ts. ts ! i = ts ! j \<longrightarrow> j = i"
    by (metis in_set_conv_nth nth_eq_iff_index_eq)
  have "\<exists>u. irq_stub 32 t = Inr (Resume, u) \<and> tasks_safe ts own u \<and> int_flag u \<and>
      current_task u = ts ! (Suc i mod length ts)" if "bit (r_eflags (cpu t)) 9"
    by (rule timer_step [OF safe that i(1,2)]) blast
  with safe i show ?thesis by metis
qed

text \<open>
  C3: the kernel gives every task a processor of its own. Take any run of task code, timer and keyboard interrupts,
  with the sequence of its events. The registers of the current task and those in the frames of the waiting ones are
  exactly what the machine with one processor per task has after the same events: each piece of task code changes the
  registers of its own processor and of no other, each timer interrupt moves on by one place in the ring and changes no
  register of any task, each key changes none; and every task keeps its privilege level. Every execution is such a run
  (\<open>multitask_runs\<close>).
\<close>

theorem multitasking_refines_processors:
  fixes s :: "'a kb_kernel_state_scheme"
  assumes "tasks_safe ts own s" "multitask_run ts own s es t"
  shows "processors_of ts t = fold processor_event es (processors_of ts s) \<and>
    (\<forall>u\<in>set ts. user_mode (virtual_cpu t u) = user_mode (virtual_cpu s u))"
  using multitask_refines [OF assms(2,1)] by blast

text \<open>
  C5: a preempted task does not notice. Whatever the other tasks do and however many interrupts happen while it waits, when
  the task is current again all its registers are what they were when the timer interrupted it.
\<close>

theorem preempted_task_unaware:
  fixes s :: "'a kb_kernel_state_scheme"
  assumes "tasks_safe ts own s" "bit (r_eflags (cpu s)) 9" "irq_stub 32 s = Inr (c, u)"
    "(\<lambda>a b. multitask ts own a b \<and> current_task a \<noteq> current_task s)\<^sup>*\<^sup>* u t" "current_task t = current_task s"
  shows "cpu t = cpu s"
proof -
  have c: "current_task s \<in> set ts" using assms(1) by (simp add: tasks_safe_def tasks_ready_def)
  then obtain i where i: "i < length ts" "current_task s = ts ! i" by (metis in_set_conv_nth)
  have u: "tasks_safe ts own u" "virtual_cpu u (current_task s) = virtual_cpu s (current_task s)"
  proof -
    obtain v where v: "irq_stub 32 s = Inr (Resume, v)" "tasks_safe ts own v"
      "\<And>x. x \<in> set ts \<Longrightarrow> virtual_cpu v x = virtual_cpu s x"
      by (rule timer_step [OF assms(1,2) i]) (rule that)
    then have "u = v" using assms(3) by simp
    then show "tasks_safe ts own u" "virtual_cpu u (current_task s) = virtual_cpu s (current_task s)"
      using v(2,3) c by simp_all
  qed
  have "tasks_safe ts own t \<and> virtual_cpu t (current_task s) = virtual_cpu u (current_task s)"
    using assms(4)
  proof (induction rule: rtranclp_induct)
    case (step x y)
    then show ?case using multitask_step [of ts own x y] c by metis
  qed (simp add: u(1))
  then show ?thesis using u(2) assms(5) by (simp add: virtual_cpu_def)
qed

text \<open>
  The two tasks of \<^const>\<open>example_tasks\<close>: the first running in the kernel on the stack below 0x9000, the second waiting in a
  frame for kernel mode at 0x3100.
\<close>

definition example_stacks :: "u32 \<Rightarrow> u32 set" where
  "example_stacks u = (if u = 0x1000 then {0x8FC8, 0x8FCC, 0x8FD0, 0x8FD4, 0x8FD8, 0x8FDC, 0x8FE0, 0x8FE4, 0x8FE8, 0x8FEC,
       0x8FF0, 0x8FF4, 0x8FF8, 0x8FFC}
     else {0x3100, 0x3104, 0x3108, 0x310C, 0x3110, 0x3114, 0x3118, 0x311C, 0x3120, 0x3124, 0x3128, 0x312C, 0x3130, 0x3134})"

definition example_multitask :: "'a kb_kernel_state_scheme \<Rightarrow> 'a kb_kernel_state_scheme" where
  "example_multitask s = (wr 0x3130 8 (example_tasks s))\<lparr>cpu := (cpu s)\<lparr>r_cs := 8, r_esp := 0x9000, r_eflags := 0x202, r_ss := 0x10\<rparr>,
     tss_region := (tss_region s)\<lparr>tss_ss0 := 0x10\<rparr>,
     idt_handlers := (\<lambda>_. NULL_handler)(32 := Pic_callback, 33 := Isr_key_press), pic_print := False\<rparr>"

lemma example_multitask_safe: "tasks_safe [0x1000, 0x2000] example_stacks (example_multitask s)"
proof -
  let ?s = "example_multitask s"
  have rd: "rd a ?s = rd a (wr 0x3130 8 (wr 0x1024 0x2000 (wr 0x2024 0x1000 (wr 0x1004 0x3000 (wr 0x2004 0x3100 s)))))" for a
    by (simp add: example_multitask_def example_tasks_def rd_def wr_def)
  have w: "rd 0x1024 ?s = 0x2000" "rd 0x2024 ?s = 0x1000" "rd 0x2004 ?s = 0x3100" "rd 0x3130 ?s = 8"
    unfolding rd by (simp_all add: rd_wr_apart apart32_def)
  have f: "task_list_head ?s = 0x1000" "task_list_tail ?s = 0x2000" "scheduler_initialized ?s" "current_task ?s = 0x1000"
    "idt_handlers ?s 32 = Pic_callback" "idt_handlers ?s 33 = Isr_key_press" "r_cs (cpu ?s) = 8" "r_esp (cpu ?s) = 0x9000"
    "r_ss (cpu ?s) = 0x10" "tss_ss0 (tss_region ?s) = 0x10"
    by (simp_all add: example_multitask_def example_tasks_def wr_def)
  have k: "\<not> user_mode (cpu ?s)" by (simp add: user_mode_def f(7))
  then have fa: "frame_addr_of ?s = 0x8FC8" by (simp add: frame_addr_of_def frame_top_def f(8))
  have vk: "\<not> user_mode (frame_regs ss0 0x3100 ?s)" for ss0 by (simp add: user_mode_frame_regs tf_cs_def w(4))
  have "stacks_apart [0x1000, 0x2000] example_stacks"
    by (simp add: stacks_apart_def example_stacks_def task_words_def task_next_task_def task_trapframe_def task_is_user_def
        task_kernel_stack_base_def aligned4_def)
  then have "tasks_ready [0x1000, 0x2000] example_stacks ?s"
    by (simp add: tasks_ready_def task_ring_def all_less_two f w task_next_task_def)
  moreover have "running example_stacks ?s"
    using k by (simp add: running_def all_frame_words fa f example_stacks_def)
  moreover have "parked example_stacks 0x2000 (virtual_cpu ?s 0x2000) ?s"
    using vk by (simp add: parked_def virtual_cpu_def f(4) task_trapframe_def w(3) all_frame_words example_stacks_def)
  ultimately show ?thesis by (simp add: tasks_safe_def f(4))
qed

lemma example_multitask_flag: "bit (r_eflags (cpu (example_multitask s))) 9"
  by (simp add: example_multitask_def bit_0x200 bit_iff_odd)

lemma example_multitask_ticks:
  obtains u v where "irq_stub 32 (example_multitask s) = Inr (Resume, u)" "current_task u = 0x2000"
    "multitask_event [0x1000, 0x2000] example_stacks Tick u v" "current_task v = 0x1000"
proof -
  let ?s = "example_multitask s" and ?ts = "[0x1000, 0x2000] :: u32 list"
  have cur: "current_task ?s = 0x1000" by (simp add: example_multitask_def example_tasks_def wr_def)
  obtain u where u: "irq_stub 32 ?s = Inr (Resume, u)" "tasks_safe ?ts example_stacks u" "current_task u = 0x2000"
    "virtual_cpu u 0x2000 = virtual_cpu ?s 0x2000"
    by (rule timer_step [OF example_multitask_safe [of s] example_multitask_flag [of s], of 0]) (simp_all add: cur)
  have "bit (r_eflags (cpu u)) 9"
    using u(4) by (simp add: virtual_cpu_def u(3) cur frame_regs_flag)
  moreover from timer_step [OF u(2) this, of 1] obtain v where "irq_stub 32 u = Inr (Resume, v)" "current_task v = 0x1000"
    by (auto simp: u(3))
  ultimately show ?thesis using u(1,3) that multitask_event.Timer_event [OF \<open>bit (r_eflags (cpu u)) 9\<close>] by blast
qed

theorem multitasking_never_stuck_witness:
  "\<forall>s :: kb_kernel_state. \<exists>u. irq_stub 32 (example_multitask s) = Inr (Resume, u) \<and> current_task u = 0x2000"
proof
  fix s :: kb_kernel_state
  have "current_task (example_multitask s) = 0x1000" by (simp add: example_multitask_def example_tasks_def wr_def)
  then show "\<exists>u. irq_stub 32 (example_multitask s) = Inr (Resume, u) \<and> current_task u = 0x2000"
    using multitasking_never_stuck [OF example_multitask_safe rtranclp.rtrancl_refl, of s] example_multitask_flag [of s]
    by fastforce
qed

text \<open>Two ticks take the example around its ring, with the registers of both tasks as they were.\<close>

theorem multitasking_refines_processors_witness:
  "\<forall>s :: kb_kernel_state. \<exists>u v. irq_stub 32 (example_multitask s) = Inr (Resume, u) \<and> current_task u = 0x2000 \<and>
     multitask_run [0x1000, 0x2000] example_stacks (example_multitask s) [Tick, Tick] v \<and>
     processors_of [0x1000, 0x2000] v = processors_of [0x1000, 0x2000] (example_multitask s)"
proof
  fix s :: kb_kernel_state
  let ?s = "example_multitask s" and ?ts = "[0x1000, 0x2000] :: u32 list"
  obtain u v where u: "irq_stub 32 ?s = Inr (Resume, u)" "current_task u = 0x2000"
    "multitask_event ?ts example_stacks Tick u v" "current_task v = 0x1000"
    by (rule example_multitask_ticks)
  have "multitask_event ?ts example_stacks Tick ?s u" by (rule Timer_event [OF example_multitask_flag u(1)])
  then have run: "multitask_run ?ts example_stacks ?s [Tick, Tick] v" using u(3) by (blast intro: Run_event Run_none)
  have "current_task ?s = 0x1000" by (simp add: example_multitask_def example_tasks_def wr_def)
  then have "fold processor_event [Tick, Tick] (processors_of ?ts ?s) = processors_of ?ts ?s"
    by (simp add: processors_of_def index_of_def)
  with multitasking_refines_processors [OF example_multitask_safe run] u(1,2) run
  show "\<exists>u v. irq_stub 32 ?s = Inr (Resume, u) \<and> current_task u = 0x2000 \<and>
     multitask_run ?ts example_stacks ?s [Tick, Tick] v \<and> processors_of ?ts v = processors_of ?ts ?s"
    by metis
qed

theorem preempted_task_unaware_witness:
  "\<forall>s :: kb_kernel_state. \<exists>u v. irq_stub 32 (example_multitask s) = Inr (Resume, u) \<and>
     multitask [0x1000, 0x2000] example_stacks u v \<and> cpu v = cpu (example_multitask s)"
proof
  fix s :: kb_kernel_state
  let ?s = "example_multitask s"
  obtain u v where u: "irq_stub 32 ?s = Inr (Resume, u)" "current_task u = 0x2000"
    "multitask_event [0x1000, 0x2000] example_stacks Tick u v" "current_task v = 0x1000"
    by (rule example_multitask_ticks)
  have m: "multitask [0x1000, 0x2000] example_stacks u v" using u(3) by (auto simp: multitask_iff_event)
  have cur: "current_task ?s = 0x1000" by (simp add: example_multitask_def example_tasks_def wr_def)
  have "(\<lambda>a b. multitask [0x1000, 0x2000] example_stacks a b \<and> current_task a \<noteq> current_task ?s)\<^sup>*\<^sup>* u v"
    using u(2) m by (intro r_into_rtranclp) (simp add: cur)
  from preempted_task_unaware [OF example_multitask_safe example_multitask_flag u(1) this] u m cur
  show "\<exists>u v. irq_stub 32 ?s = Inr (Resume, u) \<and> multitask [0x1000, 0x2000] example_stacks u v \<and> cpu v = cpu ?s"
    by metis
qed

end
