(* ===== verification/System.thy ===== *)
theory System
  imports Kmain Multitask
begin

text \<open>
  The kernel as a whole: the state in which \<^verbatim>\<open>kmain\<close> enters the console is a well-formed multitasking state, so from
  then on the machine behaves as three processors, one for the console, one for \<^verbatim>\<open>task_test\<close> and one for
  \<^verbatim>\<open>task_userspace\<close>. The console and the test task keep to what the code of a task may do.
\<close>

section \<open>The stacks after boot\<close>

definition boot_ring :: "symbols \<Rightarrow> u32 list" where
  "boot_ring L = (let B = sym_kmalloc_init_block L in [slot B 974, slot B 962, slot B 950])"

text \<open>The words of the boot stack \<open>K\<close>, and the pages of the two stacks that creation allocates.\<close>

definition boot_stacks :: "symbols \<Rightarrow> u32 set \<Rightarrow> u32 \<Rightarrow> u32 \<Rightarrow> u32 \<Rightarrow> u32 set" where
  "boot_stacks L K q r u = (let B = sym_kmalloc_init_block L
     in if u = slot B 974 then K else if u = slot B 962 then slot q ` {..<1024} else slot r ` {..<1024})"

definition boot_stack :: "symbols \<Rightarrow> u32 set \<Rightarrow> bool" where
  "boot_stack L K \<longleftrightarrow> (\<forall>x\<in>K. aligned4 x \<and> unat x < 0xC0000000 + first_frame L \<and>
     x \<notin> slot (sym_kmalloc_init_block L) ` {..<1024})"

lemma boot_stacks_apart:
  assumes "page_aligned (sym_kmalloc_init_block L)" "page_aligned q" "page_aligned r" "q \<noteq> r"
    "q \<noteq> sym_kmalloc_init_block L" "r \<noteq> sym_kmalloc_init_block L"
    "boot_stack L K" "0xC0000000 + first_frame L \<le> unat q" "0xC0000000 + first_frame L \<le> unat r"
  shows "stacks_apart (boot_ring L) (boot_stacks L K q r)"
proof -
  let ?B = "sym_kmalloc_init_block L" and ?own = "boot_stacks L K q r"
  have ne: "slot ?B 962 \<noteq> slot ?B 974" "slot ?B 950 \<noteq> slot ?B 974" "slot ?B 950 \<noteq> slot ?B 962"
    using assms(1) by (simp_all add: slot_eq_iff)
  have own: "?own (slot ?B 974) = K" "?own (slot ?B 962) = slot q ` {..<1024}" "?own (slot ?B 950) = slot r ` {..<1024}"
    using ne by (simp_all add: boot_stacks_def)
  have low: "x \<notin> slot y ` {..<1024}" if "x \<in> K" "page_aligned y" "0xC0000000 + first_frame L \<le> unat y" for x y
    using that assms(7) unat_slot [OF that(2)] by (auto simp: boot_stack_def)
  have pages: "x \<notin> slot z ` {..<1024}" if "x \<in> slot y ` {..<1024}" "page_aligned y" "page_aligned z" "y \<noteq> z" for x y z
    using that by (auto simp: slot_eq_iff)
  have words: "task_words (slot ?B k) \<subseteq> slot ?B ` {..<1024}" if "k \<le> 974" for k
    using that by (auto simp: task_words_def task_slots)
  have ring: "u \<in> set (boot_ring L) \<longleftrightarrow> u \<in> {slot ?B 974, slot ?B 962, slot ?B 950}" for u
    by (simp add: boot_ring_def Let_def)
  have sets: "?own u \<in> {K, slot q ` {..<1024}, slot r ` {..<1024}}" if "u \<in> set (boot_ring L)" for u
    using that own unfolding ring by auto
  have K: "aligned4 x" "x \<notin> slot ?B ` {..<1024}" if "x \<in> K" for x
    using assms(7) that by (simp_all add: boot_stack_def)
  have al: "aligned4 x" and apart: "x \<notin> slot ?B ` {..<1024}" if h: "u \<in> set (boot_ring L)" "x \<in> ?own u" for u x
  proof -
    consider "x \<in> K" | "x \<in> slot q ` {..<1024}" | "x \<in> slot r ` {..<1024}" using sets [OF h(1)] h(2) by auto
    then have "aligned4 x \<and> x \<notin> slot ?B ` {..<1024}"
    proof cases
      case 1
      then show ?thesis using K by simp
    next
      case 2
      then show ?thesis using pages [OF 2 assms(2,1,5)] aligned4_slot [OF assms(2)] by fastforce
    next
      case 3
      then show ?thesis using pages [OF 3 assms(3,1,6)] aligned4_slot [OF assms(3)] by fastforce
    qed
    then show "aligned4 x" "x \<notin> slot ?B ` {..<1024}" by simp_all
  qed
  have dis: "x \<notin> ?own v" if uv: "u \<in> set (boot_ring L)" "v \<in> set (boot_ring L)" "u \<noteq> v" "x \<in> ?own u" for u v x
  proof -
    have d: "K \<inter> slot q ` {..<1024} = {}" "K \<inter> slot r ` {..<1024} = {}" "slot q ` {..<1024} \<inter> slot r ` {..<1024} = {}"
      using low [OF _ assms(2,8)] low [OF _ assms(3,9)] pages [OF _ assms(2,3,4)] by blast+
    have "?own u \<inter> ?own v = {}"
      using uv(1-3) d unfolding ring by (elim insertE emptyE) (simp_all add: own Int_commute)
    then show ?thesis using uv(4) by blast
  qed
  show ?thesis
    unfolding stacks_apart_def
  proof (intro ballI conjI impI)
    fix u assume u: "u \<in> set (boot_ring L)"
    then obtain k where k: "u = slot ?B k" "k \<in> {974, 962, 950}" by (auto simp: boot_ring_def Let_def)
    show "aligned4 u" using k aligned4_slot [OF assms(1)] by auto
    fix v assume v: "v \<in> set (boot_ring L)"
    then obtain l where l: "v = slot ?B l" "l \<in> {974, 962, 950}" by (auto simp: boot_ring_def Let_def)
    show "task_trapframe u \<notin> {task_next_task v, task_is_user v, task_kernel_stack_base v}"
      using k l assms(1) by (auto simp: task_slots slot_eq_iff)
    fix x assume x: "x \<in> ?own u"
    show "aligned4 x" by (rule al [OF u x])
    have "l \<le> 974" using l(2) by auto
    then show "x \<notin> task_words v" using apart [OF u x] words [of l] l(1) by blast
    show "x \<notin> ?own v" if "v \<noteq> u" using dis [OF u v _ x] that by blast
  qed
qed

section \<open>The first state\<close>

definition first_processors :: "symbols \<Rightarrow> u32 \<Rightarrow> cpu_regs \<Rightarrow> processors" where
  "first_processors L q c = (0, [c,
     (kernel_start L)\<lparr>r_eflags := 0x202, r_esp := q + PAGE_SIZE, r_ss := GDT_KERNEL_DATA_SEG\<rparr>,
     (user_start L)\<lparr>r_eflags := 0x202\<rparr>])"

text \<open>The registers of the console's code: kernel mode, on the boot stack.\<close>

definition console_regs :: "u32 set \<Rightarrow> cpu_regs \<Rightarrow> bool" where
  "console_regs K c \<longleftrightarrow> \<not> user_mode c \<and> r_ss c = GDT_KERNEL_DATA_SEG \<and> (\<forall>i<14. r_esp c - 56 + 4 * of_nat i \<in> K)"

lemma boot_is_safe:
  fixes s :: "'a kernel_state_scheme"
  assumes "usable_map L mbt s" "boot_image L cmd s" "boot_stack L K"
  obtains t q r where "higher_half_kernel L mbt MULTIBOOT_BOOTLOADER_MAGIC cmd s = Inr (0, t)"
    "page_aligned q" "page_aligned r" "q \<noteq> r"
    "\<And>c. console_regs K c \<Longrightarrow> tasks_safe (boot_ring L) (boot_stacks L K q r) (t\<lparr>cpu := c\<rparr>) \<and>
      processors_of (boot_ring L) (t\<lparr>cpu := c\<rparr>) = first_processors L q c"
proof -
  let ?s = "gdt_init_asm L s" and ?B = "sym_kmalloc_init_block L" and ?p = "first_frame L div 4096 + 1" and ?ts = "boot_ring L"
  define q where "q = vmm_page_addr (?p + 1)"
  obtain t r where t: "kmain L mbt MULTIBOOT_BOOTLOADER_MAGIC cmd ?s = Inr (0, t)"
    "task_heap ?B 948 [974, 962, 950] t" "current_task t = slot ?B 974" "scheduler_initialized t"
    "idt_handlers t 32 = Pic_callback" "idt_handlers t 33 = Isr_key_press" "?p + 1 < 1024" "tss_region t = tss_region ?s"
    and r: "r \<in> vmm_page_addr ` {?p<..<1021}" "r \<noteq> q"
    and fr: "rd (task_trapframe (slot ?B 962)) t = slot q 1010" "frame_saved (slot q 1010) 0 (kernel_start L) t"
    "rd (task_trapframe (slot ?B 950)) t = slot r 1008" "frame_saved (slot r 1008) 0 (user_start L) t"
    "mem t (task_is_user (slot ?B 950)) = 1" "rd (task_kernel_stack_base (slot ?B 950)) t = r + PAGE_SIZE"
    by (rule kmain_state [of L mbt "gdt_init_asm L s" cmd, unfolded gdt_init_asm_ready, folded q_def, OF assms(1,2)]) (rule that)
  let ?own = "boot_stacks L K q r"
  have ss: "tss_ss0 (tss_region t) = GDT_KERNEL_DATA_SEG"
    by (simp add: t(8) gdt_init_asm_def gdt_init_def Let_def)
  have B: "page_aligned ?B" using boot_heap_pages(1) [of ?B 948 t] t(2) by (simp add: task_heap_def)
  have ff: "first_frame L = 4096 * (?p - 1)" "?p \<le> 1016" using first_frame_bound [OF assms(1)] by auto
  obtain k where k: "r = vmm_page_addr k" "?p < k" "k < 1021" using r(1) by auto
  have un: "unat q = 0xC0000000 + 4096 * (?p + 1)" "unat r = 0xC0000000 + 4096 * k"
    unfolding q_def using vmm_page_addr_unat [of "?p + 1"] vmm_page_addr_unat [of k] t(7) k by simp_all
  then have al: "page_aligned q" "page_aligned r" by (simp_all add: page_aligned_def)
  have low: "0xC0000000 + first_frame L \<le> unat q" "0xC0000000 + first_frame L \<le> unat r" using ff(1) un k(2) by simp_all
  have bq: "q \<noteq> ?B" "r \<noteq> ?B"
    using assms(2) low ff unat_slot [OF B, of 0] by (auto simp: boot_image_def)
  have sp: "stacks_apart ?ts ?own"
    by (rule boot_stacks_apart [OF B al r(2) [symmetric] bq assms(3) low])
  have ne: "slot ?B 962 \<noteq> slot ?B 974" "slot ?B 950 \<noteq> slot ?B 974" "slot ?B 950 \<noteq> slot ?B 962"
    using B by (simp_all add: slot_eq_iff)
  have own: "?own (slot ?B 974) = K" "?own (slot ?B 962) = slot q ` {..<1024}" "?own (slot ?B 950) = slot r ` {..<1024}"
    using ne by (simp_all add: boot_stacks_def Let_def)
  have main: "tasks_safe ?ts ?own (t\<lparr>cpu := c\<rparr>) \<and> processors_of ?ts (t\<lparr>cpu := c\<rparr>) = first_processors L q c"
    if c: "console_regs K c" for c
  proof -
    let ?t = "t\<lparr>cpu := c\<rparr>" and ?ss = "GDT_KERNEL_DATA_SEG"
    have sv: "frame_saved (slot q 1010) 0 (kernel_start L) ?t" "frame_saved (slot r 1008) 0 (user_start L) ?t"
      by (rule frame_saved_cong [OF fr(2)] frame_saved_cong [OF fr(4)]; simp)+
    have top: "slot q 1010 + 56 = q + PAGE_SIZE" by (simp add: slot_def PAGE_SIZE_def)
    have regs: "frame_regs ?ss (slot q 1010) ?t = (kernel_start L)\<lparr>r_eflags := 0x202, r_esp := q + PAGE_SIZE, r_ss := ?ss\<rparr>"
      "frame_regs ?ss (slot r 1008) ?t = (user_start L)\<lparr>r_eflags := 0x202\<rparr>"
      using frame_regs_frame [OF sv(1)] frame_regs_frame [OF sv(2)] start_modes [of L] top
      by (simp_all add: kernel_start_def user_start_def)
    have modes: "\<not> user_mode (frame_regs ?ss (slot q 1010) ?t)" "user_mode (frame_regs ?ss (slot r 1008) ?t)"
      using start_modes [of L] unfolding regs by (simp_all add: user_mode_def)
    have virt: "virtual_cpu ?t (slot ?B 974) = c" "virtual_cpu ?t (slot ?B 962) = frame_regs ?ss (slot q 1010) ?t"
      "virtual_cpu ?t (slot ?B 950) = frame_regs ?ss (slot r 1008) ?t"
      using ne by (simp_all add: virtual_cpu_def t(3) fr(1,3) ss)
    have "task_ring ?ts t" using t(2) by (simp add: task_heap_def boot_ring_def Let_def)
    then have rdy: "tasks_ready ?ts ?own ?t"
      using sp t(3-6) by (simp add: tasks_ready_def task_ring_def) (simp add: boot_ring_def Let_def)
    have run: "running ?own ?t"
      using c by (simp add: running_def console_regs_def t(3) own frame_addr_of_def frame_top_def ss frame_size_def)
    have "parked ?own (slot ?B 962) (frame_regs ?ss (slot q 1010) ?t) ?t"
      using modes(1) by (simp add: parked_def fr(1) ss own frame_size_def slot_frame_word)
    moreover have "parked ?own (slot ?B 950) (frame_regs ?ss (slot r 1008) ?t) ?t"
    proof -
      have "r + PAGE_SIZE - 64 = slot r 1008" by (simp add: slot_def PAGE_SIZE_def)
      then have "user_stack_ready ?own (slot ?B 950) ?t"
        using fr(5,6) by (simp add: user_stack_ready_def own slot_frame_word)
      then show ?thesis using modes(2) by (simp add: parked_def fr(3) ss own frame_size_def slot_frame_word)
    qed
    ultimately have "tasks_safe ?ts ?own ?t"
      using rdy run virt(2,3) by (auto simp: tasks_safe_def boot_ring_def Let_def t(3))
    moreover have "processors_of ?ts ?t = first_processors L q c"
      using virt regs by (simp add: processors_of_def first_processors_def boot_ring_def Let_def index_of_def t(3))
    ultimately show ?thesis by blast
  qed
  show ?thesis
    by (rule that [OF _ al r(2) [symmetric] main]) (simp add: higher_half_kernel_def t(1))
qed

section \<open>The code of the kernel's tasks\<close>

lemma task_work_prints:
  fixes s :: "'a kb_kernel_state_scheme"
  assumes "running own s" "prints s t"
  shows "task_work ts own s t"
proof -
  have "mem t = mem s \<and> cpu t = cpu s \<and> same_tasks s t"
    using prints_same_kernel [OF assms(2)] unfolding same_kernel_def same_tasks_def by (cases s; cases t; simp)
  then have t: "mem t = mem s" "cpu t = cpu s" "same_tasks s t" by simp_all
  have "rd a t = rd a s" for a by (simp add: rd_def t(1))
  moreover have "frame_addr_of t = frame_addr_of s" using t(2,3) by (simp add: frame_addr_of_def frame_top_def same_tasks_def)
  ultimately show ?thesis using assms(1) t by (simp add: task_work_def running_def frame_size_def)
qed

lemma kb_get_key_keyboard:
  "kb_get_key w s = Inr (x, t) \<Longrightarrow> \<exists>kk. t = s\<lparr>keyboard := kk\<rparr>"
  by (cases s) (auto simp: kb_get_key_def Let_def split: if_splits)

lemma find_command_run_cmd:
  "find_command L i cs cmd s = Inr (x, t) \<Longrightarrow> \<exists>r. t = s\<lparr>run_cmd := r\<rparr>"
proof (induction L i cs cmd s rule: find_command.induct)
  case (1 L i cmd s)
  then show ?case by (cases s) auto
next
  case (2 L i c cs cmd s)
  then show ?case by (auto split: option.splits if_splits)
qed

text \<open>Whatever a round of the console does, it leaves the tasks and the processor alone.\<close>

definition tasks_kept :: "'a shell_state_scheme \<Rightarrow> 'a shell_state_scheme \<Rightarrow> bool" where
  "tasks_kept s t \<longleftrightarrow> same_tasks s t \<and> cpu t = cpu s"

lemma tasks_kept_trans: "tasks_kept s t \<Longrightarrow> tasks_kept t u \<Longrightarrow> tasks_kept s u"
  by (simp add: tasks_kept_def same_tasks_def)

lemma tasks_kept_updates [simp]:
  "tasks_kept r (s\<lparr>mem := m\<rparr>) = tasks_kept r s" "tasks_kept r (s\<lparr>keyboard := k\<rparr>) = tasks_kept r s"
  "tasks_kept r (s\<lparr>run_cmd := c\<rparr>) = tasks_kept r s" "tasks_kept s s"
  by (simp_all add: tasks_kept_def same_tasks_def)

lemma same_kernel_kept:
  assumes "same_kernel s t"
  shows "tasks_kept s t"
  using assms unfolding same_kernel_def tasks_kept_def same_tasks_def by (cases s; cases t; simp)

lemma tasks_kept_device:
  "prints s t \<Longrightarrow> tasks_kept s t" "tasks_kept s (tty_clear s)" "tasks_kept s (outb p v s)" "tasks_kept s (tty_deleteprev s)"
proof -
  have r: "same_kernel s s" by (simp add: same_kernel_def)
  have "same_kernel s (tty_deleteprev s)"
    by (simp add: tty_deleteprev_def Let_def frame_simps) (simp add: same_kernel_def)
  moreover have "same_kernel s (tty_clear s)" "same_kernel s (outb p v s)" using r by (simp_all add: frame_simps) (simp add: outb_def same_kernel_def)
  ultimately show "prints s t \<Longrightarrow> tasks_kept s t" "tasks_kept s (tty_clear s)" "tasks_kept s (outb p v s)"
    "tasks_kept s (tty_deleteprev s)"
    using same_kernel_kept same_kernel_kept [OF prints_same_kernel] by blast+
qed

lemma run_command_kept:
  assumes "run_command c s = Inr (b, t)"
  shows "tasks_kept s t"
  using assms tasks_kept_device(1) [OF cmd_help_prints, of s] tasks_kept_device(1) [OF prints_printstr]
    tasks_kept_device(1) [OF kprintf_prints] tasks_kept_device(2,3)
  by (cases c) (auto simp: run_command_def cmd_clear_def cmd_exit_def cmd_demo_def cmd_amogus_def cmd_reboot_def cmd_print_tick_def
      bindR_eq_Inr)

lemma prints_write: "prints s (tty_write str n s)"
proof -
  have "tty_write str n s = fold tty_putc (map ((!) str) [0..<n]) s" by (simp add: tty_write_def fold_map comp_def)
  then show ?thesis by (auto simp: prints_def)
qed

lemma command_run_kept:
  assumes "command_run L cmd n s = Inr (u, t)"
  shows "tasks_kept s t"
proof -
  obtain m len where st: "strip_cmd cmd (unat n) (mem s) = Inr (m, len)"
    using assms by (auto simp: command_run_def split: sum.splits)
  let ?s = "s\<lparr>mem := m, run_cmd := None\<rparr>"
  obtain v where v: "find_command L 0 commands cmd ?s = Inr ((), v)"
    and c: "(case run_cmd v of Some c \<Rightarrow> bindR (run_command c v) (\<lambda>_ s. Inr ((), s))
       | None \<Rightarrow> let s = tty_printstr (map of_char ''Unknown command '' @ [39, 0]) v;
           s = tty_write (map (\<lambda>i. mem s (cmd + of_nat i)) [0..<len]) len s in Inr ((), tty_printstr [39, 10, 0] s)) = Inr (u, t)"
    using assms st by (auto simp: command_run_def bindR_eq_Inr)
  obtain r where "v = ?s\<lparr>run_cmd := r\<rparr>" using find_command_run_cmd [OF v] by blast
  then have k: "tasks_kept s v" by simp
  show ?thesis
  proof (cases "run_cmd v")
    case None
    have "prints v t"
      using c prints_trans [OF prints_trans [OF prints_printstr prints_write] prints_printstr]
      by (auto simp: None Let_def simp del: tty_printstr.simps)
    then show ?thesis by (rule tasks_kept_trans [OF k tasks_kept_device(1)])
  next
    case (Some x)
    then obtain b where "run_command x v = Inr (b, t)" using c by (auto simp: bindR_eq_Inr)
    then show ?thesis by (rule tasks_kept_trans [OF k run_command_kept])
  qed
qed

lemma kshell_round_kept:
  assumes "kshell_round L cmd n s = Inr (n', t)"
  shows "tasks_kept s t"
proof -
  obtain ok k u where u: "kb_get_key True (halt s) = Inr ((ok, k), u)"
    using assms by (auto simp: kshell_round_def bindR_eq_Inr)
  then have su: "tasks_kept s u" using kb_get_key_keyboard by (fastforce simp: halt_def)
  have pr: "tasks_kept v (tty_putc c v)" for c v by (rule tasks_kept_device(1) [OF prints_putc])
  have ent: "tasks_kept u (command_start (v\<lparr>mem := m\<rparr>))" if "command_run L cmd n (tty_putc 10 u) = Inr (x, v)" for x v m
  proof -
    have "tasks_kept u (v\<lparr>mem := m\<rparr>)" using tasks_kept_trans [OF pr command_run_kept [OF that]] by simp
    then show ?thesis unfolding command_start_def by (rule tasks_kept_trans [OF _ tasks_kept_device(1) [OF prints_printstr]])
  qed
  have del: "tasks_kept u (tty_deleteprev (v\<lparr>mem := m\<rparr>))" if "kb_get_key False u = Inr (x, v)" for x v m
  proof -
    have "tasks_kept u (v\<lparr>mem := m\<rparr>)" using kb_get_key_keyboard [OF that] by auto
    then show ?thesis by (rule tasks_kept_trans [OF _ tasks_kept_device(4)])
  qed
  have put: "tasks_kept u (tty_putc c (u\<lparr>mem := m\<rparr>))" for c m by (rule tasks_kept_trans [OF _ pr]) simp
  have "tasks_kept u t"
    using assms u put ent del by (auto simp: kshell_round_def bindR_eq_Inr Let_def split: option.splits if_splits)
  then show ?thesis by (rule tasks_kept_trans [OF su])
qed

text \<open>A word none of whose bytes is in the console's array.\<close>

definition off_array :: "u32 \<Rightarrow> u32 \<Rightarrow> bool" where
  "off_array cmd x \<longleftrightarrow> (\<forall>i<4. 1024 \<le> x + of_nat i - cmd)"

section \<open>Properties\<close>

text \<open>
  After boot the machine is three processors. From the state in which \<^verbatim>\<open>kmain\<close> enters the console, with the
  console's code in kernel mode on the boot stack, whatever the three tasks, the timer and the keyboard do, the multitasking state
  stays well-formed, and the execution is one of three processors: the first goes on with the console's registers, the second
  starts \<^verbatim>\<open>task_test\<close> in kernel mode at the top of its page, the third starts \<^verbatim>\<open>task_userspace\<close> in user mode;
  they take turns in this order.
\<close>

theorem kernel_runs_three_processors:
  fixes s :: "'a kernel_state_scheme"
  assumes "usable_map L mbt s" "boot_image L cmd s" "boot_stack L K"
  shows "\<exists>t q r. higher_half_kernel L mbt MULTIBOOT_BOOTLOADER_MAGIC cmd s = Inr (0, t) \<and>
    page_aligned q \<and> page_aligned r \<and> q \<noteq> r \<and>
    (\<forall>c es u. console_regs K c \<longrightarrow> multitask_run (boot_ring L) (boot_stacks L K q r) (t\<lparr>cpu := c\<rparr>) es u \<longrightarrow>
       tasks_safe (boot_ring L) (boot_stacks L K q r) u \<and>
       processors_of (boot_ring L) u = fold processor_event es (first_processors L q c))"
proof -
  obtain t q r where t: "higher_half_kernel L mbt MULTIBOOT_BOOTLOADER_MAGIC cmd s = Inr (0, t)"
    "page_aligned q" "page_aligned r" "q \<noteq> r"
    and safe: "\<And>c. console_regs K c \<Longrightarrow> tasks_safe (boot_ring L) (boot_stacks L K q r) (t\<lparr>cpu := c\<rparr>) \<and>
      processors_of (boot_ring L) (t\<lparr>cpu := c\<rparr>) = first_processors L q c"
    by (rule boot_is_safe [OF assms]) (rule that)
  have "tasks_safe (boot_ring L) (boot_stacks L K q r) u \<and>
      processors_of (boot_ring L) u = fold processor_event es (first_processors L q c)"
    if "console_regs K c" "multitask_run (boot_ring L) (boot_stacks L K q r) (t\<lparr>cpu := c\<rparr>) es u" for c es u
    using multitask_refines [OF that(2)] safe [OF that(1)] by simp
  with t show ?thesis by blast
qed

text \<open>
  The test task behaves as a task. In a well-formed state a round of \<^verbatim>\<open>task_test\<close> returns: it prints when two ticks have
  passed since the last time and remembers the tick then; and the round is a step of the multitasking system.
\<close>

theorem task_test_round:
  fixes s :: "'a kb_kernel_state_scheme"
  assumes "tasks_safe ts own s"
  shows "\<exists>t. task_test p s = Inr (if p + 2 \<le> tick s then tick s else p, t) \<and> prints s t \<and> multitask ts own s t"
proof -
  have run: "running own s" using assms by (simp add: tasks_safe_def)
  let ?fmt = "litn ''Task_test: %d (SWITCHING TASK)''"
  have "\<exists>n u. kprintf ?fmt [VInt (tick s)] s = Inr (n, u)" by (simp add: kprintf_def litn_def)
  then obtain n u where u: "kprintf ?fmt [VInt (tick s)] s = Inr (n, u)" by blast
  have p: "prints s u" by (rule kprintf_prints [OF u])
  show ?thesis
    using u multitask.Work [OF task_work_prints [OF run p], of ts] p prints_refl [of s]
      multitask.Work [OF task_work_prints [OF run prints_refl], of ts]
    by (auto simp: task_test_def pic_get_tick_def Let_def)
qed

text \<open>
  C15: the console behaves as a task. When it is the current task of a well-formed state, and its array is on its own
  stack, a round of its loop that returns is a step of the multitasking system, and it keeps the console's own invariant.
\<close>

theorem console_round_is_task_work:
  fixes s :: "'a shell_state_scheme"
  assumes "tasks_safe ts own s" "console_inv L cmd m0 (s, n)" "kshell_round L cmd n s = Inr (n', t)"
    "\<forall>u\<in>set ts. \<forall>x\<in>task_words u. off_array cmd x" "\<forall>u\<in>set ts - {current_task s}. \<forall>x\<in>own u. off_array cmd x"
  shows "multitask ts own s t \<and> console_inv L cmd m0 (t, n')"
proof -
  have i: "console_inv L cmd m0 (t, n')" using console_round [OF assms(2)] assms(3) by auto
  have k: "same_tasks s t" "cpu t = cpu s" using kshell_round_kept [OF assms(3)] by (simp_all add: tasks_kept_def)
  have m: "mem t a = mem s a" if "1024 \<le> a - cmd" for a
    using assms(2) i that by (simp add: console_inv_def)
  have "rd x t = rd x s" if "off_array cmd x" for x
    unfolding rd_def using that by (intro load32_cong m) (simp add: off_array_def)
  then have r: "\<forall>u\<in>set ts. \<forall>x\<in>task_words u. rd x t = rd x s" "\<forall>u\<in>set ts - {current_task s}. \<forall>x\<in>own u. rd x t = rd x s"
    using assms(4,5) by blast+
  have "frame_addr_of t = frame_addr_of s" using k by (simp add: frame_addr_of_def frame_top_def same_tasks_def)
  then have "task_work ts own s t"
    using k r assms(1) by (simp add: task_work_def tasks_safe_def running_def frame_size_def)
  then show ?thesis using i by (simp add: multitask.Work)
qed

text \<open>The boot stack of the example machine: the page below the console's array.\<close>

definition example_stack :: "u32 set" where
  "example_stack = {x. aligned4 x \<and> 0xC011F000 \<le> x \<and> x < 0xC0120000}"

lemma example_boot_stack: "boot_stack example_symbols example_stack"
proof -
  have b: "sym_kmalloc_init_block example_symbols = 0xC0112000" by (simp add: example_symbols_def)
  have "page_aligned 0xC0112000" by (simp add: page_aligned_def)
  then have "unat (slot 0xC0112000 j) = 0xC0112000 + 4 * j" if "j < 1024" for j using that by (simp add: unat_slot)
  then have "x \<notin> slot 0xC0112000 ` {..<1024}" if "0xC011F000 \<le> x" for x
    using that by (fastforce simp: word_le_nat_alt)
  then show ?thesis
    by (auto simp: boot_stack_def example_stack_def example_first_frame b word_less_nat_alt)
qed

definition example_console_regs :: cpu_regs where
  "example_console_regs = (kernel_start example_symbols)\<lparr>r_esp := 0xC0120000, r_ss := GDT_KERNEL_DATA_SEG, r_eflags := 0x202\<rparr>"

lemma example_console_regs_ok: "console_regs example_stack example_console_regs"
proof -
  have "(\<forall>i<14. P i) \<longleftrightarrow> (\<forall>i<frame_size (kernel_start example_symbols). P i)" for P by (simp add: frame_size_def start_modes)
  then show ?thesis
    using start_modes(1) [of example_symbols]
    by (simp add: console_regs_def example_console_regs_def all_frame_words example_stack_def aligned4_def user_mode_def
        GDT_KERNEL_DATA_SEG_def)
qed

theorem kernel_runs_three_processors_witness:
  "\<forall>s :: kernel_state. \<exists>t q r. higher_half_kernel example_symbols example_map 0x2BADB002 0xC0120000 (example_kernel s) = Inr (0, t) \<and>
     tasks_safe (boot_ring example_symbols) (boot_stacks example_symbols example_stack q r) (t\<lparr>cpu := example_console_regs\<rparr>)"
proof
  fix s :: kernel_state
  have e: "MULTIBOOT_BOOTLOADER_MAGIC = 0x2BADB002" by (simp add: MULTIBOOT_BOOTLOADER_MAGIC_def)
  show "\<exists>t q r. higher_half_kernel example_symbols example_map 0x2BADB002 0xC0120000 (example_kernel s) = Inr (0, t) \<and>
     tasks_safe (boot_ring example_symbols) (boot_stacks example_symbols example_stack q r) (t\<lparr>cpu := example_console_regs\<rparr>)"
    using kernel_runs_three_processors [OF example_kernel_map example_kernel_image example_boot_stack, of s, unfolded e]
      example_console_regs_ok by (blast intro: Run_none)
qed

theorem task_test_round_witness:
  "\<forall>s :: kb_kernel_state. \<exists>t. task_test (tick (example_multitask s)) (example_multitask s) = Inr (tick (example_multitask s), t)
     \<and> multitask [0x1000, 0x2000] example_stacks (example_multitask s) t"
proof
  fix s :: kb_kernel_state
  let ?s = "example_multitask s"
  obtain t where t: "task_test (tick ?s) ?s = Inr (if tick ?s + 2 \<le> tick ?s then tick ?s else tick ?s, t)"
    "multitask [0x1000, 0x2000] example_stacks ?s t"
    using task_test_round [OF example_multitask_safe, of "tick ?s" s] by blast
  then show "\<exists>t. task_test (tick ?s) ?s = Inr (tick ?s, t) \<and> multitask [0x1000, 0x2000] example_stacks ?s t"
    by (simp only: if_cancel) blast
qed

text \<open>The console with one key, an a, in the buffer, as the first task of the example.\<close>

definition example_console :: "shell_state \<Rightarrow> shell_state" where
  "example_console s = example_multitask ((example_shell [] s)\<lparr>keyboard := empty_keyboard
     \<lparr>kb_buff := (\<lambda>i. (kb_buff empty_keyboard i)\<lparr>key_key := 97\<rparr>), kb_tail := 1, kb_len := 1\<rparr>\<rparr>)"

lemma example_multitask_mem: "0x10000 \<le> a \<Longrightarrow> mem (example_multitask s) a = mem s a"
  by (auto simp: example_multitask_def example_tasks_def wr_def store32_def)

lemma example_console_inv: "console_inv example_symbols 0xC0200000 (mem (example_console s)) (example_console s, 0)"
proof -
  have m: "mem (example_console s) a = example_shell_mem [] a" if "0x10000 \<le> a" for a
    using that by (simp add: example_console_def example_multitask_mem) (simp add: example_shell_def)
  have "mem (example_console s) (0xC0200000 + of_nat i) = 0" if "i < 1024" for i
  proof -
    have "0x10000 \<le> (0xC0200000 + of_nat i :: u32)" using that by (simp add: word_le_nat_alt unat_word_ariths unat_of_nat)
    then show ?thesis using m example_shell_line [OF that, of "[]"] by simp
  qed
  then have l: "line_at 0xC0200000 0 (mem (example_console s))" by (simp add: line_at_def)
  have n: "names_at example_symbols 0xC0200000 (mem (example_console s))"
    unfolding names_at_def
  proof (intro allI impI conjI)
    fix i assume i: "i < length commands"
    note e = example_shell_names [of "[]", unfolded names_at_def, rule_format, OF i]
    then have c: "cstring_at (example_shell_mem []) (sym_command_name example_symbols i) (map of_char (cmd_name (commands ! i)))" by blast
    have "0x10000 \<le> sym_command_name example_symbols i + of_nat j" if "j < 16" for j
    proof -
      have "unat (sym_command_name example_symbols i + of_nat j - 0xC0116000) = 16 * i + j"
        using i that by (intro example_shell_name(2)) (simp_all add: commands_def)
      then have "unat (sym_command_name example_symbols i + of_nat j) = 0xC0116000 + (16 * i + j)"
        using i that unat_sub_if' by (simp add: example_symbols_def unat_word_ariths unat_of_nat commands_def)
      then show ?thesis by (simp add: word_le_nat_alt)
    qed
    moreover have "length (cmd_name (commands ! i)) < 7" using command_names_short [OF nth_mem [OF i]] .
    ultimately show "cstring_at (mem (example_console s)) (sym_command_name example_symbols i) (map of_char (cmd_name (commands ! i)))"
      using c m by (simp add: cstring_at_def)
    show "1024 \<le> sym_command_name example_symbols i + of_nat j - 0xC0200000" if "j \<le> length (cmd_name (commands ! i))" for j
      using e that by blast
  qed
  have k: "keyboard (example_console s) = empty_keyboard
     \<lparr>kb_buff := (\<lambda>i. (kb_buff empty_keyboard i)\<lparr>key_key := 97\<rparr>), kb_tail := 1, kb_len := 1\<rparr>"
    "tty_xpos (example_console s) = 0" "tty_ypos (example_console s) = 0"
    by (simp_all add: example_console_def example_multitask_def example_tasks_def wr_def example_shell_def)
  show ?thesis
    using l n by (simp add: console_inv_def kb_inv_def tty_wf_def k SCREEN_WIDTH_def SCREEN_HEIGHT_def empty_keyboard_def
        KB_BUFF_ELEMENTS_def)
qed

theorem console_round_is_task_work_witness:
  "\<forall>s. \<exists>n t. kshell_round example_symbols 0xC0200000 0 (example_console s) = Inr (n, t) \<and>
     multitask [0x1000, 0x2000] example_stacks (example_console s) t"
proof
  fix s
  let ?s = "example_console s"
  note inv = example_console_inv [of s]
  have safe: "tasks_safe [0x1000, 0x2000] example_stacks ?s"
    unfolding example_console_def by (rule example_multitask_safe)
  have cur: "current_task ?s = 0x1000" and kb: "kb_keys ?s = [97]"
    by (simp_all add: example_console_def example_multitask_def example_tasks_def wr_def kb_keys_def kb_queue_def empty_keyboard_def)
  have "\<not> round_stops 0xC0200000 0 ?s e" for e by (simp add: round_stops_def kb KEY_ENTER_def)
  then obtain n t where t: "kshell_round example_symbols 0xC0200000 0 ?s = Inr (n, t)" using console_round [OF inv] by blast
  have off: "off_array 0xC0200000 x" if "x < 0x10000" for x :: u32
    unfolding off_array_def
  proof (intro allI impI)
    fix i :: nat assume "i < 4"
    then show "1024 \<le> x + of_nat i - 0xC0200000"
      using that by (simp add: word_le_nat_alt word_less_nat_alt unat_sub_if' unat_word_ariths unat_of_nat)
  qed
  have "\<forall>u\<in>set [0x1000, 0x2000]. \<forall>x\<in>task_words u. off_array 0xC0200000 x"
    by (auto simp: task_words_def task_next_task_def task_trapframe_def task_is_user_def task_kernel_stack_base_def intro!: off)
  moreover have "\<forall>u\<in>set [0x1000, 0x2000] - {current_task ?s}. \<forall>x\<in>example_stacks u. off_array 0xC0200000 x"
    by (auto simp: cur example_stacks_def intro!: off)
  ultimately show "\<exists>n t. kshell_round example_symbols 0xC0200000 0 ?s = Inr (n, t) \<and>
     multitask [0x1000, 0x2000] example_stacks ?s t"
    using console_round_is_task_work [OF safe inv t] t by blast
qed

end
