(* ===== verification/Start.thy ===== *)
theory Start
  imports System
begin

text \<open>
  The first instructions of the kernel, \<^verbatim>\<open>_start\<close> of \<^verbatim>\<open>kernel/boot/boot.asm\<close>, which run with paging off: they save what the
  boot loader passes in \<^verbatim>\<open>eax\<close> and \<^verbatim>\<open>ebx\<close>, fill a temporary page table and turn paging on. With them the
  theorems about the boot begin at the entry point of the image.
\<close>

section \<open>Operations\<close>

text \<open>The addresses the linker gives the stack, the two tables and the code after paging is on.\<close>

record boot_labels =
  stack_top :: u32
  temp_page_directory :: u32
  temp_page_table :: u32
  higher_half_label :: u32

text \<open>The header by which the boot loader finds the kernel: magic number, flags and checksum.\<close>

definition multiboot_header :: "u32 list" where
  "multiboot_header =
     (let MBALIGN = push_bit 0 1; MEMINFO = push_bit 1 1; FLAGS = MBALIGN OR MEMINFO; MAGIC = 0x1BADB002
      in [MAGIC, FLAGS, - (MAGIC + FLAGS)])"

lemma multiboot_header_valid: "multiboot_header ! 1 = 3" "sum_list multiboot_header = 0"
  by (simp_all add: multiboot_header_def)

definition PAGES_IN_PAGE_TABLE :: u32 where
  "PAGES_IN_PAGE_TABLE = 1024"

text \<open>The constants as they are defined there, each with the bit of the other.\<close>

definition PAGE_WRITEABLE :: u32 where
  "PAGE_WRITEABLE = 1"

definition PAGE_PRESENT :: u32 where
  "PAGE_PRESENT = 2"

text \<open>
  With paging off an address is physical. The image is in the memory of the model at its link addresses, so a
  store through a physical address goes to the address \<^const>\<open>P2V_ADDR\<close> gives.
\<close>

definition wr_phys :: "u32 \<Rightarrow> u32 \<Rightarrow> 'a machine_scheme \<Rightarrow> 'a machine_scheme" where
  "wr_phys p v s = wr (P2V_ADDR p) v s"

definition push_phys :: "u32 \<Rightarrow> 'a task_state_scheme \<Rightarrow> 'a task_state_scheme" where
  "push_phys v s =
     (let esp = r_esp (cpu s) - 4
      in wr_phys esp v (s\<lparr>cpu := (cpu s)\<lparr>r_esp := esp\<rparr>\<rparr>))"

definition identity_step :: "boot_labels \<Rightarrow> 'a task_state_scheme \<Rightarrow> 'a task_state_scheme" where
  "identity_step A s =
     (let s = s\<lparr>cpu := (cpu s)\<lparr>r_ebx := r_eax (cpu s)\<rparr>\<rparr>;
          s = s\<lparr>cpu := (cpu s)\<lparr>r_ebx := r_ebx (cpu s) OR (PAGE_PRESENT OR PAGE_WRITEABLE)\<rparr>\<rparr>;
          s = wr_phys (V2P_ADDR (temp_page_table A) + r_ecx (cpu s) * 4) (r_ebx (cpu s)) s;
          s = s\<lparr>cpu := (cpu s)\<lparr>r_eax := r_eax (cpu s) + 0x1000\<rparr>\<rparr>
      in s\<lparr>cpu := (cpu s)\<lparr>r_ecx := r_ecx (cpu s) + 1\<rparr>\<rparr>)"

text \<open>The loop ends when the signed comparison of the counter with the limit fails.\<close>

partial_function (option) identity_map_kernel :: "boot_labels \<Rightarrow> 'a task_state_scheme \<Rightarrow> 'a task_state_scheme option" where
  "identity_map_kernel A s =
     (let s = identity_step A s
      in if sint (r_ecx (cpu s)) < sint (r_edx (cpu s)) then identity_map_kernel A s else Some s)"

definition start :: "boot_labels \<Rightarrow> 'a task_state_scheme \<Rightarrow> ('a task_state_scheme, unit) result" where
  "start A s =
     (let s = s\<lparr>cpu := (cpu s)\<lparr>r_esp := V2P_ADDR (stack_top A)\<rparr>\<rparr>;
          s = push_phys (r_eax (cpu s)) s;
          s = push_phys (r_ebx (cpu s)) s;
          s = s\<lparr>cpu := (cpu s)\<lparr>r_eax := 0, r_ebx := 0, r_ecx := 0, r_edx := PAGES_IN_PAGE_TABLE\<rparr>\<rparr>
      in case identity_map_kernel A s of
           None \<Rightarrow> Inl (Spin, s)
         | Some s \<Rightarrow>
             let s = s\<lparr>cpu := (cpu s)\<lparr>r_eax := V2P_ADDR (temp_page_table A)\<rparr>\<rparr>;
                 s = s\<lparr>cpu := (cpu s)\<lparr>r_eax := r_eax (cpu s) OR (PAGE_PRESENT OR PAGE_WRITEABLE)\<rparr>\<rparr>;
                 s = wr_phys (V2P_ADDR (temp_page_directory A) + 0x000 * 4) (r_eax (cpu s)) s;
                 s = wr_phys (V2P_ADDR (temp_page_directory A) + 0x300 * 4) (r_eax (cpu s)) s;
                 s = s\<lparr>cpu := (cpu s)\<lparr>r_eax := V2P_ADDR (temp_page_directory A)\<rparr>\<rparr>;
                 s = s\<lparr>cr3 := r_eax (cpu s)\<rparr>;
                 s = s\<lparr>cpu := (cpu s)\<lparr>r_eax := cr0 s OR 0x80000000\<rparr>\<rparr>;
                 s = s\<lparr>cr0 := r_eax (cpu s)\<rparr>;
                 s = s\<lparr>cpu := (cpu s)\<lparr>r_ecx := higher_half_label A\<rparr>\<rparr>
             in Inr ((), s\<lparr>cpu := (cpu s)\<lparr>r_eip := r_ecx (cpu s)\<rparr>\<rparr>))"

text \<open>\<^verbatim>\<open>struct multiboot_info\<close> in memory.\<close>

definition multiboot_info_at :: "bytes \<Rightarrow> u32 \<Rightarrow> multiboot_info" where
  "multiboot_info_at m a = \<lparr>mbi_flags = load32 m a, mods_count = load32 m (a + 20), mods_addr = load32 m (a + 24),
     mmap_length = load32 m (a + 44), mmap_addr = load32 m (a + 48)\<rparr>"

text \<open>
  The whole of \<^verbatim>\<open>boot.asm\<close>: \<^verbatim>\<open>kmain\<close> finds its two arguments on the stack, which is now reached through its virtual address.
\<close>

definition boot_asm ::
  "symbols \<Rightarrow> boot_labels \<Rightarrow> u32 \<Rightarrow> 'a kernel_state_scheme \<Rightarrow> ('a kernel_state_scheme, u32) result" where
  "boot_asm L A cmd s =
     bindR (start A s) (\<lambda>_ s.
     let s = s\<lparr>cpu := (cpu s)\<lparr>r_esp := r_esp (cpu s) + KERNEL_VIRT_BASE\<rparr>\<rparr>;
         esp = r_esp (cpu s)
     in higher_half_kernel L (multiboot_info_at (mem s) (rd esp s)) (rd (esp + 4) s) cmd s)"

section \<open>The temporary page table\<close>

lemma P2V_offset: "P2V_ADDR (V2P_ADDR a + x) = a + x"
  by (simp add: P2V_ADDR_def V2P_ADDR_def)

lemma identity_step_eq:
  "identity_step A s = wr (temp_page_table A + r_ecx (cpu s) * 4) (r_eax (cpu s) OR 3)
     (s\<lparr>cpu := (cpu s)\<lparr>r_ebx := r_eax (cpu s) OR 3, r_eax := r_eax (cpu s) + 0x1000, r_ecx := r_ecx (cpu s) + 1\<rparr>\<rparr>)"
proof -
  have "PAGE_PRESENT OR PAGE_WRITEABLE = 3" by (simp add: PAGE_PRESENT_def PAGE_WRITEABLE_def)
  then show ?thesis by (simp add: identity_step_def Let_def wr_phys_def P2V_offset wr_def)
qed

text \<open>The bytes outside a page, and what a store into the page leaves of them.\<close>

definition outside_page :: "u32 \<Rightarrow> u32 \<Rightarrow> bool" where
  "outside_page p a \<longleftrightarrow> 4096 \<le> a - p"

lemma mem_wr_slot:
  assumes "outside_page p a" "i < 1024"
  shows "mem (wr (slot p i) v s) a = mem s a"
proof -
  have "unat (4 * of_nat i :: u32) = 4 * i" using assms(2) by (simp add: unat_word_ariths unat_of_nat)
  moreover have "4096 \<le> unat (a - p)" using assms(1) by (simp add: outside_page_def word_le_nat_alt)
  ultimately have "unat (a - p - 4 * of_nat i) = unat (a - p) - 4 * i" using assms(2) by (simp add: unat_sub_if')
  then have "4 \<le> a - slot p i"
    using assms(2) \<open>4096 \<le> unat (a - p)\<close> by (simp add: slot_def word_le_nat_alt diff_diff_eq)
  then show ?thesis by (simp add: wr_def store32_apart_byte)
qed

text \<open>What the loop has done after \<open>n\<close> rounds: the registers it still uses, the entries, the rest of the memory.\<close>

definition identity_mapped :: "boot_labels \<Rightarrow> nat \<Rightarrow> 'a task_state_scheme \<Rightarrow> 'a task_state_scheme \<Rightarrow> bool" where
  "identity_mapped A n s t \<longleftrightarrow>
     (\<exists>m c. t = s\<lparr>mem := m, cpu := c\<rparr> \<and> r_eax c = of_nat n * PAGE_SIZE \<and> r_ecx c = of_nat n \<and>
        r_edx c = r_edx (cpu s) \<and> r_esp c = r_esp (cpu s)) \<and>
     (\<forall>q i. page_aligned q \<longrightarrow> i < 1024 \<longrightarrow> rd (slot q i) t =
        (if q = temp_page_table A \<and> i < n then of_nat i * PAGE_SIZE OR 3 else rd (slot q i) s)) \<and>
     (\<forall>a. outside_page (temp_page_table A) a \<longrightarrow> mem t a = mem s a)"

lemma identity_mapped_step:
  assumes "page_aligned (temp_page_table A)" "identity_mapped A n s t" "n < 1024"
  shows "identity_mapped A (Suc n) s (identity_step A t)"
proof -
  let ?p = "temp_page_table A" and ?v = "of_nat n * PAGE_SIZE OR 3"
  obtain m c where t: "t = s\<lparr>mem := m, cpu := c\<rparr>" "r_eax c = of_nat n * PAGE_SIZE" "r_ecx c = of_nat n"
    "r_edx c = r_edx (cpu s)" "r_esp c = r_esp (cpu s)"
    using assms(2) by (auto simp: identity_mapped_def)
  define d where "d = c\<lparr>r_ebx := r_eax c OR 3, r_eax := r_eax c + 0x1000, r_ecx := r_ecx c + 1\<rparr>"
  have u: "identity_step A t = wr (slot ?p n) ?v (t\<lparr>cpu := d\<rparr>)"
    by (simp add: identity_step_eq slot_def d_def t(2,3) mult.commute) (simp add: t(1-3) mult.commute)
  have d: "r_eax d = of_nat (Suc n) * PAGE_SIZE" "r_ecx d = of_nat (Suc n)" "r_edx d = r_edx (cpu s)" "r_esp d = r_esp (cpu s)"
    by (simp_all add: d_def t(2-5) PAGE_SIZE_def algebra_simps)
  have "identity_step A t = s\<lparr>mem := store32 m (slot ?p n) ?v, cpu := d\<rparr>" unfolding u by (simp add: t(1) wr_def)
  moreover have "rd (slot q i) (identity_step A t) = (if q = ?p \<and> i < Suc n then of_nat i * PAGE_SIZE OR 3 else rd (slot q i) s)"
    if "page_aligned q" "i < 1024" for q i
  proof -
    have "rd (slot q i) (t\<lparr>cpu := d\<rparr>) = (if q = ?p \<and> i < n then of_nat i * PAGE_SIZE OR 3 else rd (slot q i) s)"
      using assms(2) that by (simp add: identity_mapped_def rd_def)
    then show ?thesis unfolding u using assms(1,3) that by (auto simp: rd_slot_wr less_Suc_eq)
  qed
  moreover have "mem (identity_step A t) a = mem s a" if "outside_page ?p a" for a
    unfolding u using that assms(2,3) by (simp add: mem_wr_slot identity_mapped_def)
  ultimately show ?thesis using d by (simp add: identity_mapped_def) blast
qed

lemma sint_of_nat_u32:
  assumes "k < 2 ^ 31"
  shows "sint (of_nat k :: u32) = int k"
proof -
  have "uint (of_nat k :: u32) = int k" using assms by (simp add: uint_nat unat_of_nat)
  then show ?thesis using assms by (simp add: sint_uint signed_take_bit_int_eq_self)
qed

text \<open>The loop ends after 1024 rounds.\<close>

lemma identity_map_from:
  assumes "page_aligned (temp_page_table A)" "r_edx (cpu s) = PAGES_IN_PAGE_TABLE" "identity_mapped A n s t" "n < 1024"
  shows "\<exists>u. identity_map_kernel A t = Some u \<and> identity_mapped A 1024 s u"
  using assms(3,4)
proof (induction "1024 - n" arbitrary: n t rule: less_induct)
  case less
  let ?t = "identity_step A t"
  have t: "identity_mapped A (Suc n) s ?t" by (rule identity_mapped_step [OF assms(1) less.prems])
  then have "r_ecx (cpu ?t) = of_nat (Suc n)" "r_edx (cpu ?t) = of_nat 1024"
    using assms(2) by (auto simp: identity_mapped_def PAGES_IN_PAGE_TABLE_def simp del: of_nat_Suc)
  moreover have "Suc n < 2 ^ 31" "(1024 :: nat) < 2 ^ 31" using less.prems(2) by simp_all
  ultimately have c: "sint (r_ecx (cpu ?t)) < sint (r_edx (cpu ?t)) \<longleftrightarrow> Suc n < 1024"
    by (simp only: sint_of_nat_u32 of_nat_less_iff)
  show ?case
  proof (cases "Suc n < 1024")
    case True
    then obtain u where "identity_map_kernel A ?t = Some u" "identity_mapped A 1024 s u"
      using less.hyps [OF _ t] by force
    then show ?thesis using c True by (subst identity_map_kernel.simps) (simp add: Let_def)
  next
    case False
    then have "Suc n = 1024" using less.prems(2) by simp
    then show ?thesis using c t by (subst identity_map_kernel.simps) (simp add: Let_def)
  qed
qed

text \<open>The two tables and the stack are three pages of the image, which the linker puts at 1 MiB.\<close>

definition stack_page :: "boot_labels \<Rightarrow> u32" where
  "stack_page A = stack_top A - PAGE_SIZE"

definition boot_pages :: "boot_labels \<Rightarrow> u32 list" where
  "boot_pages A = [temp_page_directory A, temp_page_table A, stack_page A]"

definition boot_layout :: "boot_labels \<Rightarrow> bool" where
  "boot_layout A \<longleftrightarrow> distinct (boot_pages A) \<and> (\<forall>p\<in>set (boot_pages A). page_aligned p \<and> 0xC0100000 \<le> unat p)"

lemma push_phys_slot:
  assumes "r_esp (cpu s) = V2P_ADDR (stack_top A) - 4 * of_nat k" "k < 1024"
  shows "push_phys v s = wr (slot (stack_page A) (1023 - k)) v (s\<lparr>cpu := (cpu s)\<lparr>r_esp := V2P_ADDR (stack_top A) - 4 * of_nat (Suc k)\<rparr>\<rparr>)"
proof -
  have "P2V_ADDR (r_esp (cpu s) - 4) = slot (stack_page A) (1023 - k)"
    using assms by (simp add: slot_def stack_page_def PAGE_SIZE_def P2V_ADDR_def V2P_ADDR_def of_nat_diff)
  moreover have "r_esp (cpu s) - 4 = V2P_ADDR (stack_top A) - 4 * of_nat (Suc k)" using assms(1) by simp
  ultimately show ?thesis by (simp only: push_phys_def Let_def wr_phys_def)
qed

lemma identity_mapped_refl:
  assumes "r_eax (cpu s) = 0" "r_ecx (cpu s) = 0"
  shows "identity_mapped A 0 s s"
proof -
  have "s = s\<lparr>mem := mem s, cpu := cpu s\<rparr>" by simp
  then show ?thesis unfolding identity_mapped_def using assms by (intro conjI exI [of _ "mem s"] exI [of _ "cpu s"]) simp_all
qed

lemma start_result:
  fixes s :: "'a task_state_scheme"
  assumes "boot_layout A"
  obtains m c t where "start A s = Inr ((), t)" "t = s\<lparr>mem := m, cpu := c, cr3 := V2P_ADDR (temp_page_directory A), cr0 := cr0 s OR 0x80000000\<rparr>"
    "r_esp c = V2P_ADDR (stack_top A) - 8"
    "\<And>q i. page_aligned q \<Longrightarrow> i < 1024 \<Longrightarrow> rd (slot q i) t =
       (if q = temp_page_table A then of_nat i * PAGE_SIZE OR 3
        else if q = temp_page_directory A \<and> i \<in> {0, 0x300} then V2P_ADDR (temp_page_table A) OR 3
        else if q = stack_page A \<and> i = 1023 then r_eax (cpu s)
        else if q = stack_page A \<and> i = 1022 then r_ebx (cpu s) else rd (slot q i) s)"
    "\<And>a. \<forall>p\<in>set (boot_pages A). outside_page p a \<Longrightarrow> mem t a = mem s a"
proof -
  let ?pd = "temp_page_directory A" and ?pt = "temp_page_table A" and ?st = "stack_page A"
  have al: "page_aligned ?pd" "page_aligned ?pt" "page_aligned ?st" and ne: "?pd \<noteq> ?pt" "?pd \<noteq> ?st" "?pt \<noteq> ?st"
    using assms by (auto simp: boot_layout_def boot_pages_def)
  define c1 where "c1 = (cpu s)\<lparr>r_esp := V2P_ADDR (stack_top A) - 8, r_eax := 0, r_ebx := 0, r_ecx := 0, r_edx := PAGES_IN_PAGE_TABLE\<rparr>"
  define s1 where "s1 = (wr (slot ?st 1022) (r_ebx (cpu s)) (wr (slot ?st 1023) (r_eax (cpu s)) s))\<lparr>cpu := c1\<rparr>"
  let ?sa = "s\<lparr>cpu := (cpu s)\<lparr>r_esp := V2P_ADDR (stack_top A)\<rparr>\<rparr>"
  have p1: "push_phys v ?sa = wr (slot ?st 1023) v (s\<lparr>cpu := (cpu s)\<lparr>r_esp := V2P_ADDR (stack_top A) - 4\<rparr>\<rparr>)" for v
    using push_phys_slot [of ?sa A 0 v] by simp
  let ?sb = "wr (slot ?st 1023) (r_eax (cpu s)) (s\<lparr>cpu := (cpu s)\<lparr>r_esp := V2P_ADDR (stack_top A) - 4\<rparr>\<rparr>)"
  have p2: "push_phys v ?sb = wr (slot ?st 1022) v (?sb\<lparr>cpu := (cpu s)\<lparr>r_esp := V2P_ADDR (stack_top A) - 8\<rparr>\<rparr>)" for v
    using push_phys_slot [of ?sb A 1 v] by (simp add: wr_def)
  have cpu1: "cpu s1 = c1" by (simp add: s1_def)
  have "identity_mapped A 0 s1 s1" by (rule identity_mapped_refl) (simp_all add: cpu1 c1_def)
  moreover have "r_edx (cpu s1) = PAGES_IN_PAGE_TABLE" by (simp add: cpu1 c1_def)
  ultimately obtain u where u: "identity_map_kernel A s1 = Some u" "identity_mapped A 1024 s1 u"
    using identity_map_from [OF al(2)] by (metis zero_less_numeral)
  obtain m d where d: "u = s1\<lparr>mem := m, cpu := d\<rparr>" "r_esp d = r_esp (cpu s1)"
    using u(2) unfolding identity_mapped_def by blast
  let ?e = "V2P_ADDR ?pt OR 3" and ?pg = "cr0 s OR 0x80000000"
  let ?c = "d\<lparr>r_eax := ?pg, r_ecx := higher_half_label A, r_eip := higher_half_label A\<rparr>"
  let ?w = "wr (slot ?pd 0x300) ?e (wr (slot ?pd 0) ?e u)"
  let ?t = "?w\<lparr>cpu := ?c, cr3 := V2P_ADDR ?pd, cr0 := ?pg\<rparr>"
  have w: "PAGE_PRESENT OR PAGE_WRITEABLE = 3" by (simp add: PAGE_PRESENT_def PAGE_WRITEABLE_def)
  have f: "cpu (wr a v x) = cpu x" "cr0 (wr a v x) = cr0 x" for a v and x :: "'a task_state_scheme" by (simp_all add: wr_def)
  have "push_phys (r_ebx (cpu (push_phys (r_eax (cpu ?sa)) ?sa))) (push_phys (r_eax (cpu ?sa)) ?sa)
      = wr (slot ?st 1022) (r_ebx (cpu s)) (?sb\<lparr>cpu := (cpu s)\<lparr>r_esp := V2P_ADDR (stack_top A) - 8\<rparr>\<rparr>)"
    by (simp add: p1 p2 f)
  moreover have "(wr (slot ?st 1022) (r_ebx (cpu s)) (?sb\<lparr>cpu := (cpu s)\<lparr>r_esp := V2P_ADDR (stack_top A) - 8\<rparr>\<rparr>))\<lparr>cpu := c1\<rparr> = s1"
    by (simp add: s1_def wr_def)
  ultimately have entry: "(let s = push_phys (r_eax (cpu ?sa)) ?sa; s = push_phys (r_ebx (cpu s)) s in
      s\<lparr>cpu := (cpu s)\<lparr>r_eax := 0, r_ebx := 0, r_ecx := 0, r_edx := PAGES_IN_PAGE_TABLE\<rparr>\<rparr>) = s1"
    by (simp only: Let_def) (simp add: f c1_def)
  have u0: "cpu u = d" "cr0 u = cr0 s" by (simp_all add: d(1) s1_def wr_def)
  have "start A s = (case identity_map_kernel A s1 of None \<Rightarrow> Inl (Spin, s1) | Some s \<Rightarrow>
      let s = wr (slot ?pd 0x300) ?e (wr (slot ?pd 0) ?e s)
      in Inr ((), s\<lparr>cpu := (cpu s)\<lparr>r_eax := cr0 s OR 0x80000000, r_ecx := higher_half_label A, r_eip := higher_half_label A\<rparr>,
           cr3 := V2P_ADDR ?pd, cr0 := cr0 s OR 0x80000000\<rparr>))"
    unfolding entry [symmetric] start_def
    by (simp add: Let_def w wr_phys_def P2V_offset slot_def f split: option.split) (simp add: wr_def slot_def)
  then have "start A s = Inr ((), ?t)" by (simp add: u(1) f u0)
  then show ?thesis
  proof (rule that)
    show "?t = s\<lparr>mem := mem ?t, cpu := ?c, cr3 := V2P_ADDR ?pd, cr0 := ?pg\<rparr>" by (simp add: d(1) s1_def wr_def)
    show "r_esp ?c = V2P_ADDR (stack_top A) - 8" by (simp add: d(2) cpu1 c1_def)
    show "rd (slot q i) ?t =
       (if q = ?pt then of_nat i * PAGE_SIZE OR 3 else if q = ?pd \<and> i \<in> {0, 0x300} then ?e
        else if q = ?st \<and> i = 1023 then r_eax (cpu s) else if q = ?st \<and> i = 1022 then r_ebx (cpu s) else rd (slot q i) s)"
      if "page_aligned q" "i < 1024" for q i
    proof -
      have "rd (slot q i) s1 = rd (slot q i) (wr (slot ?st 1022) (r_ebx (cpu s)) (wr (slot ?st 1023) (r_eax (cpu s)) s))"
        by (simp add: s1_def rd_def)
      also have "\<dots> = (if q = ?st \<and> i = 1023 then r_eax (cpu s) else if q = ?st \<and> i = 1022 then r_ebx (cpu s) else rd (slot q i) s)"
        using al that by (auto simp: rd_slot_wr)
      finally have r1: "rd (slot q i) s1 = \<dots>" .
      have ru: "rd (slot q i) u = (if q = ?pt then of_nat i * PAGE_SIZE OR 3 else rd (slot q i) s1)"
        using u(2) that by (simp add: identity_mapped_def)
      have "rd (slot q i) ?t = rd (slot q i) ?w" by (simp add: rd_def)
      also have "\<dots> = (if q = ?pd \<and> i \<in> {0, 0x300} then ?e else rd (slot q i) u)" using al that by (auto simp: rd_slot_wr)
      finally show ?thesis unfolding ru r1 using ne by auto
    qed
    show "mem ?t a = mem s a" if "\<forall>p\<in>set (boot_pages A). outside_page p a" for a
    proof -
      have o: "outside_page ?pd a" "outside_page ?pt a" "outside_page ?st a" using that by (simp_all add: boot_pages_def)
      have "mem ?t a = mem u a" using o(1) by (simp add: mem_wr_slot)
      also have "\<dots> = mem s1 a" using u(2) o(2) by (simp add: identity_mapped_def)
      also have "\<dots> = mem s a" using o(3) by (simp add: s1_def mem_wr_slot)
      finally show ?thesis .
    qed
  qed
qed

section \<open>The address space of the boot\<close>

lemma table_entry:
  assumes "page_aligned a"
  shows "pte_present (pte_of_word (a OR 3))" "pde_present (pde_of_word (a OR 3))"
    "frame_addr (pte_phys_addr (pte_of_word (a OR 3))) = a" "frame_addr (pde_phys_addr (pde_of_word (a OR 3))) = a"
proof -
  have "bit (3 :: u32) 0" by simp
  then show "pte_present (pte_of_word (a OR 3))" "pde_present (pde_of_word (a OR 3))" by (simp_all add: bit_or_iff)
  have "drop_bit 12 (a OR 3) = drop_bit 12 a" by (simp add: drop_bit_or)
  then show "frame_addr (pte_phys_addr (pte_of_word (a OR 3))) = a" "frame_addr (pde_phys_addr (pde_of_word (a OR 3))) = a"
    using frame_addr_of_aligned [OF assms] by (simp_all add: pte_of_word_def pde_of_word_def)
qed

lemma identity_frame:
  "unat (of_nat (PAGE_TABLE_INDEX va) * PAGE_SIZE OR (va AND 0xFFF)) = unat va mod 4194304"
proof -
  have "unat (of_nat (PAGE_TABLE_INDEX va) * PAGE_SIZE OR (va AND 0xFFF)) = 4096 * PAGE_TABLE_INDEX va + unat va mod 4096"
    by (simp add: page_offset [OF refl page_aligned_frame] unat_frame PAGE_TABLE_INDEX_lt)
  also have "\<dots> = unat va mod 4194304" using mod_mult2_eq [of "unat va" 4096 1024] by (simp add: unat_PAGE_TABLE_INDEX)
  finally show ?thesis .
qed

lemma boot_translate:
  assumes "page_aligned (temp_page_directory A)" "page_aligned (temp_page_table A)" "cr3 t = V2P_ADDR (temp_page_directory A)"
    "\<And>i. i < 1024 \<Longrightarrow> rd (slot (temp_page_directory A) i) t = (if i \<in> {0, 0x300} then V2P_ADDR (temp_page_table A) OR 3 else 0)"
    "\<And>i. i < 1024 \<Longrightarrow> rd (slot (temp_page_table A) i) t = of_nat i * PAGE_SIZE OR 3"
  shows "mmu_translate t va = (if unat va < 0x400000 then Some va
    else if 0xC0000000 \<le> unat va \<and> unat va < 0xC0400000 then Some (V2P_ADDR va) else None)"
proof -
  let ?i = "PAGE_TABLE_INDEX va" and ?d = "PAGE_DIRECTORY_INDEX va"
  have al: "page_aligned (V2P_ADDR (temp_page_table A))"
    using page_aligned_add [OF assms(2), of "- KERNEL_VIRT_BASE"]
    by (simp add: V2P_ADDR_def page_aligned_def KERNEL_VIRT_BASE_def)
  have walk: "mmu_translate t va = (if ?d \<in> {0, 0x300} then Some (of_nat ?i * PAGE_SIZE OR (va AND 0xFFF)) else None)"
    using table_entry [OF al] table_entry [OF page_aligned_frame [OF PAGE_TABLE_INDEX_lt]] pde_present_bit [of 0]
    by (simp add: Let_def mmu_translate_def get_pde_def get_pte_def assms(3-5) PAGE_DIRECTORY_INDEX_lt PAGE_TABLE_INDEX_lt
        del: pte_present_bit pde_present_bit)
  have frame: "of_nat ?i * PAGE_SIZE OR (va AND 0xFFF) = (if ?d = 0 then va else V2P_ADDR va)" if "?d \<in> {0, 0x300}"
  proof -
    have "unat va mod 4194304 = unat (if ?d = 0 then va else V2P_ADDR va)"
    proof (cases "?d = 0")
      case False
      then have "unat va div 4194304 = 768" using that by (simp add: unat_PAGE_DIRECTORY_INDEX)
      then show ?thesis
        using False by (simp add: V2P_ADDR_def KERNEL_VIRT_BASE_def unat_sub_if' minus_div_mult_eq_mod [symmetric])
    qed (simp add: unat_PAGE_DIRECTORY_INDEX)
    then show ?thesis unfolding word_unat_eq_iff identity_frame by simp
  qed
  have "?d = 0 \<longleftrightarrow> unat va < 0x400000" "?d = 0x300 \<longleftrightarrow> 0xC0000000 \<le> unat va \<and> unat va < 0xC0400000"
    by (auto simp: unat_PAGE_DIRECTORY_INDEX)
  then show ?thesis using walk frame by (auto split: if_splits)
qed

text \<open>
  C22: the kernel turns paging on. With the stack and the two tables on pages of their own and the directory zero,
  \<^verbatim>\<open>_start\<close> ends: paging is on, the first 4 MiB are mapped to themselves and at 0xC0000000, and nothing else is mapped; the
  stack holds what the boot loader passed, and the memory outside the three pages is unchanged.
\<close>

theorem start_maps_kernel:
  fixes s :: "'a task_state_scheme"
  assumes "boot_layout A" "\<forall>i<1024. rd (slot (temp_page_directory A) i) s = 0"
  shows "\<exists>t. start A s = Inr ((), t) \<and> bit (cr0 t) 31 \<and> cr3 t = V2P_ADDR (temp_page_directory A) \<and>
    (\<forall>va. mmu_translate t va = (if unat va < 0x400000 then Some va
       else if 0xC0000000 \<le> unat va \<and> unat va < 0xC0400000 then Some (V2P_ADDR va) else None)) \<and>
    P2V_ADDR (r_esp (cpu t)) = stack_top A - 8 \<and> rd (stack_top A - 8) t = r_ebx (cpu s) \<and> rd (stack_top A - 4) t = r_eax (cpu s) \<and>
    (\<forall>a. (\<forall>p\<in>set (boot_pages A). outside_page p a) \<longrightarrow> mem t a = mem s a)"
proof -
  let ?pd = "temp_page_directory A" and ?pt = "temp_page_table A" and ?st = "stack_page A"
  have al: "page_aligned ?pd" "page_aligned ?pt" "page_aligned ?st" and ne: "?pd \<noteq> ?pt" "?pd \<noteq> ?st" "?pt \<noteq> ?st"
    using assms by (auto simp: boot_layout_def boot_pages_def)
  obtain m c t where t: "start A s = Inr ((), t)" "t = s\<lparr>mem := m, cpu := c, cr3 := V2P_ADDR ?pd, cr0 := cr0 s OR 0x80000000\<rparr>"
    "r_esp c = V2P_ADDR (stack_top A) - 8"
    and rdt: "\<And>q i. page_aligned q \<Longrightarrow> i < 1024 \<Longrightarrow> rd (slot q i) t =
       (if q = ?pt then of_nat i * PAGE_SIZE OR 3 else if q = ?pd \<and> i \<in> {0, 0x300} then V2P_ADDR ?pt OR 3
        else if q = ?st \<and> i = 1023 then r_eax (cpu s) else if q = ?st \<and> i = 1022 then r_ebx (cpu s) else rd (slot q i) s)"
    and mt: "\<And>a. \<forall>p\<in>set (boot_pages A). outside_page p a \<Longrightarrow> mem t a = mem s a"
    by (rule start_result [OF assms(1), of s]) (rule that)
  have "stack_top A - 8 = slot ?st 1022" "stack_top A - 4 = slot ?st 1023"
    by (simp_all add: slot_def stack_page_def PAGE_SIZE_def)
  then have args: "rd (stack_top A - 8) t = r_ebx (cpu s)" "rd (stack_top A - 4) t = r_eax (cpu s)"
    using rdt [OF al(3)] ne by simp_all
  have cr: "cr3 t = V2P_ADDR ?pd" by (simp add: t(2))
  have "mmu_translate t va = (if unat va < 0x400000 then Some va
       else if 0xC0000000 \<le> unat va \<and> unat va < 0xC0400000 then Some (V2P_ADDR va) else None)" for va
    by (rule boot_translate [OF al(1,2)]) (simp_all add: rdt al assms(2) ne cr)
  moreover have "bit (cr0 t) 31" by (simp add: t(2) bit_or_iff)
  moreover have "P2V_ADDR (r_esp (cpu t)) = stack_top A - 8" by (simp add: t(2,3) P2V_ADDR_def V2P_ADDR_def)
  ultimately show ?thesis using t(1) args mt cr by blast
qed

section \<open>From the entry point to the console\<close>

text \<open>
  Memory in which the boot loader may leave something for \<^verbatim>\<open>pmm_init\<close>: inside the 4 MiB that the temporary tables
  map to themselves (theorem \<open>start_maps_kernel\<close>), and not in the image, which lies from 1 MiB to the first frame of the
  pool.
\<close>

definition loader_area :: "symbols \<Rightarrow> u32 \<Rightarrow> nat \<Rightarrow> bool" where
  "loader_area L a n \<longleftrightarrow> unat a + n \<le> 0x400000 \<and> (unat a + n \<le> 0x100000 \<or> first_frame L \<le> unat a)"

text \<open>
  What the boot loader leaves: the image at its place with the temporary directory zero, the magic number in \<^verbatim>\<open>eax\<close>, and in
  \<^verbatim>\<open>ebx\<close> the address of its information, which is with the map and the module entry where the kernel can read
  them. The tables, the stack and the array of the initial heap are different pages of the image, and the array of the
  console is on the stack.
\<close>

definition loaded :: "symbols \<Rightarrow> boot_labels \<Rightarrow> u32 \<Rightarrow> 'a task_state_scheme \<Rightarrow> bool" where
  "loaded L A cmd s \<longleftrightarrow> boot_layout A \<and> (\<forall>p\<in>set (boot_pages A). unat p < 0xC0000000 + first_frame L) \<and>
     sym_kmalloc_init_block L \<notin> set (boot_pages A) \<and> 0xC0100000 \<le> unat (sym_kmalloc_init_block L) \<and> boot_image L cmd s \<and>
     unat (stack_page A) \<le> unat cmd \<and> unat cmd + 1024 \<le> unat (stack_page A) + 4096 \<and>
     (\<forall>i<1024. rd (slot (temp_page_directory A) i) s = 0) \<and> r_eax (cpu s) = MULTIBOOT_BOOTLOADER_MAGIC \<and>
     loader_area L (r_ebx (cpu s)) 52 \<and>
     (let mbt = multiboot_info_at (mem s) (r_ebx (cpu s)) in
        usable_map L mbt s \<and> loader_area L (mmap_addr mbt) (24 * map_entries mbt) \<and> loader_area L (mods_addr mbt) 16)"

text \<open>A map stays usable while its entries and the first word of the module list stay.\<close>

lemma usable_map_kept:
  assumes "usable_map L mbt s" "pmm t = pmm s" "rd (mods_addr mbt) t = rd (mods_addr mbt) s"
    "\<And>k. k < map_entries mbt \<Longrightarrow>
      mmap_entry_at (mem t) (mmap_addr mbt + of_nat (24 * k)) = mmap_entry_at (mem s) (mmap_addr mbt + of_nat (24 * k))"
  shows "usable_map L mbt t"
proof -
  let ?n = "map_entries mbt"
  have r: "region_available (mem t) mbt k = region_available (mem s) mbt k" "region_base (mem t) mbt k = region_base (mem s) mbt k"
    "region_len (mem t) mbt k = region_len (mem s) mbt k" if "k < ?n" for k
    using assms(4) [OF that] by (simp_all only: region_available_def region_base_def region_len_def)
  have f: "List.find (region_available (mem t) mbt) (rev [0..<?n]) = List.find (region_available (mem s) mbt) (rev [0..<?n])"
    by (rule find_cong) (simp_all add: r)
  obtain k where k: "List.find (region_available (mem s) mbt) (rev [0..<?n]) = Some k"
    using assms(1) by (auto simp: usable_map_def split: option.splits)
  then have "k < ?n" by (auto simp: find_Some_iff rev_nth)
  then show ?thesis using assms(1) f k r by (simp add: usable_map_def assms(2,3))
qed

lemma load32_low:
  assumes "\<And>a. unat a < 0xC0000000 \<Longrightarrow> m' a = m a" "unat a + d + 4 \<le> 0xC0000000"
  shows "load32 m' (a + of_nat d) = load32 m (a + of_nat d)"
proof (rule load32_cong)
  fix i :: nat assume i: "i < 4"
  have "unat (a + of_nat d + of_nat i) = unat a + d + i"
    using assms(2) i by (simp add: unat_word_ariths unat_of_nat)
  then show "m' (a + of_nat d + of_nat i) = m (a + of_nat d + of_nat i)" using assms(2) i by (intro assms(1)) simp
qed

lemma boot_asm_enters:
  fixes s :: "'a kernel_state_scheme"
  assumes "loaded L A cmd s"
  obtains mbt u where "boot_asm L A cmd s = higher_half_kernel L mbt MULTIBOOT_BOOTLOADER_MAGIC cmd u"
    "usable_map L mbt u" "boot_image L cmd u"
proof -
  have lay: "boot_layout A" using assms by (simp add: loaded_def)
  define mbt where "mbt = multiboot_info_at (mem s) (r_ebx (cpu s))"
  have al: "page_aligned (stack_page A)" and ne: "temp_page_table A \<noteq> stack_page A" "temp_page_directory A \<noteq> stack_page A"
    using lay by (auto simp: boot_layout_def boot_pages_def)
  obtain m c t where t: "start A s = Inr ((), t)"
    "t = s\<lparr>mem := m, cpu := c, cr3 := V2P_ADDR (temp_page_directory A), cr0 := cr0 s OR 0x80000000\<rparr>"
    "r_esp c = V2P_ADDR (stack_top A) - 8"
    and rdt: "\<And>q i. page_aligned q \<Longrightarrow> i < 1024 \<Longrightarrow> rd (slot q i) t =
       (if q = temp_page_table A then of_nat i * PAGE_SIZE OR 3
        else if q = temp_page_directory A \<and> i \<in> {0, 0x300} then V2P_ADDR (temp_page_table A) OR 3
        else if q = stack_page A \<and> i = 1023 then r_eax (cpu s)
        else if q = stack_page A \<and> i = 1022 then r_ebx (cpu s) else rd (slot q i) s)"
    and mt: "\<And>a. \<forall>p\<in>set (boot_pages A). outside_page p a \<Longrightarrow> mem t a = mem s a"
    by (rule start_result [OF lay, of s]) (rule that)
  let ?u = "t\<lparr>cpu := c\<lparr>r_esp := r_esp c + KERNEL_VIRT_BASE\<rparr>\<rparr>"
  have low: "mem t a = mem s a" if "unat a < 0xC0000000" for a
  proof (intro mt ballI)
    fix p assume "p \<in> set (boot_pages A)"
    then have p: "page_aligned p" "0xC0100000 \<le> unat p" using lay by (auto simp: boot_layout_def)
    then have "unat (a - p) = unat a + 2 ^ 32 - unat p" using that by (simp add: unat_sub_if')
    then show "outside_page p a" using page_aligned_le [OF p(1)] by (simp add: outside_page_def word_le_nat_alt)
  qed
  have st: "r_esp c + KERNEL_VIRT_BASE = slot (stack_page A) 1022" "slot (stack_page A) 1022 + 4 = slot (stack_page A) 1023"
    by (simp_all add: t(3) slot_def stack_page_def PAGE_SIZE_def V2P_ADDR_def)
  have "rd a ?u = rd a t" for a by (simp add: rd_def)
  then have args: "rd (r_esp c + KERNEL_VIRT_BASE) ?u = r_ebx (cpu s)" "rd (r_esp c + KERNEL_VIRT_BASE + 4) ?u = MULTIBOOT_BOOTLOADER_MAGIC"
    using rdt [OF al] ne assms unfolding st by (simp_all add: loaded_def)
  have b: "unat (r_ebx (cpu s)) + 52 \<le> 0xC0000000" "unat (mmap_addr mbt) + 24 * map_entries mbt \<le> 0xC0000000"
    "unat (mods_addr mbt) + 4 \<le> 0xC0000000" "usable_map L mbt s"
    using assms by (simp_all add: loaded_def mbt_def Let_def loader_area_def)
  have lw: "load32 (mem t) (a + of_nat d) = load32 (mem s) (a + of_nat d)" if "unat a + d + 4 \<le> 0xC0000000" for a d
    by (rule load32_low [OF low that])
  have info: "multiboot_info_at (mem t) (r_ebx (cpu s)) = mbt"
    using lw [of "r_ebx (cpu s)" 0] lw [of "r_ebx (cpu s)" 20] lw [of "r_ebx (cpu s)" 24]
      lw [of "r_ebx (cpu s)" 44] lw [of "r_ebx (cpu s)" 48] b(1)
    by (simp add: mbt_def multiboot_info_at_def)
  have "boot_asm L A cmd s = higher_half_kernel L mbt MULTIBOOT_BOOTLOADER_MAGIC cmd ?u"
  proof -
    have "cpu t = c" by (simp add: t(2))
    then show ?thesis using args info by (simp add: boot_asm_def t(1) Let_def)
  qed
  moreover have "usable_map L mbt ?u"
  proof (rule usable_map_kept [OF b(4)])
    show "rd (mods_addr mbt) ?u = rd (mods_addr mbt) s"
      using lw [of "mods_addr mbt" 0] b(3) by (simp add: rd_def)
    show "mmap_entry_at (mem ?u) (mmap_addr mbt + of_nat (24 * k)) = mmap_entry_at (mem s) (mmap_addr mbt + of_nat (24 * k))"
      if "k < map_entries mbt" for k
    proof -
      have "load32 (mem t) (mmap_addr mbt + of_nat (24 * k) + of_nat d) = load32 (mem s) (mmap_addr mbt + of_nat (24 * k) + of_nat d)"
        if "d \<le> 20" for d
        using lw [of "mmap_addr mbt" "24 * k + d"] b(2) \<open>k < _\<close> that by (simp add: add.assoc)
      from this [of 0] this [of 4] this [of 8] this [of 12] this [of 16] this [of 20] show ?thesis
        by (simp add: mmap_entry_at_def)
    qed
  qed (simp add: t(2))
  moreover have "boot_image L cmd ?u"
  proof -
    have "sym_kmalloc_init_block L \<notin> set (boot_pages A)" "page_aligned (sym_kmalloc_init_block L)"
      using assms by (simp_all add: loaded_def boot_image_def)
    then have "rd (slot (sym_kmalloc_init_block L) i) ?u = rd (slot (sym_kmalloc_init_block L) i) s" if "i < 1024" for i
      using rdt [of "sym_kmalloc_init_block L" i] that by (simp add: boot_pages_def rd_def)
    then show ?thesis using assms by (simp add: loaded_def boot_image_def)
  qed
  ultimately show ?thesis by (rule that)
qed

text \<open>
  C2: the kernel boots from its entry point. Loaded by a multiboot loader with a usable memory map and a module, the code
  from \<^verbatim>\<open>_start\<close> on reaches the loop of the console with an empty line. Three tasks, numbered 0 to 2, are in the ring
  with the first one current; the scheduler is on; the page fault, the timer and the keyboard have their handlers,
  interrupts are enabled and the task register is loaded; the heap is one block below the tasks, and the kernel's
  addresses are mapped for the kernel only.
\<close>

theorem start_boots:
  fixes s :: "'a kernel_state_scheme"
  assumes "loaded L A cmd s"
  shows "\<exists>t. boot_asm L A cmd s = Inr (0, t) \<and> line_at cmd 0 (mem t) \<and>
    (let B = sym_kmalloc_init_block L in
       task_heap B 948 [974, 962, 950] t \<and> current_task t = slot B 974 \<and> rd (task_pid (slot B 974)) t = 0 \<and>
       rd (task_pid (slot B 962)) t = 1 \<and> rd (task_pid (slot B 950)) t = 2) \<and>
    scheduler_initialized t \<and> idt_handlers t 14 = Paging_page_fault_handler \<and> idt_handlers t 32 = Pic_callback \<and>
    idt_handlers t 33 = Isr_key_press \<and> int_flag t \<and> task_register t = 0x18 \<and>
    (\<forall>va. 0xC0000000 \<le> unat va \<and> unat va < 0xC0400000 \<longrightarrow> mmu_translate t va = Some (V2P_ADDR va) \<and> \<not> mmu_user t va)"
proof -
  obtain mbt u where "boot_asm L A cmd s = higher_half_kernel L mbt MULTIBOOT_BOOTLOADER_MAGIC cmd u"
    "usable_map L mbt u" "boot_image L cmd u"
    by (rule boot_asm_enters [OF assms]) (rule that)
  with kernel_boots show ?thesis by metis
qed

text \<open>
  C1: from its entry point the machine becomes three processors. Loaded as above, it reaches the console. From there, with
  the console's code in kernel mode on the boot stack, take any run of the three tasks, the timer and the keyboard: the
  multitasking state stays well-formed, and the registers of the tasks are exactly those of a machine with three
  processors after the same events. At first these are the console's registers, the start of \<^verbatim>\<open>task_test\<close> in kernel mode with
  the stack pointer at the top of its page, and the start of \<^verbatim>\<open>task_userspace\<close> in user mode with the user stack; each
  timer interrupt moves on to the next one in this order.
\<close>

theorem start_runs_three_processors:
  fixes s :: "'a kernel_state_scheme"
  assumes "loaded L A cmd s"
  shows "\<exists>t q r. boot_asm L A cmd s = Inr (0, t) \<and> page_aligned q \<and> page_aligned r \<and> q \<noteq> r \<and>
    (let K = slot (stack_page A) ` {..<1024}; own = boot_stacks L K q r in
     \<forall>c es u. console_regs K c \<longrightarrow> multitask_run (boot_ring L) own (t\<lparr>cpu := c\<rparr>) es u \<longrightarrow>
       tasks_safe (boot_ring L) own u \<and>
       processors_of (boot_ring L) u = fold processor_event es (first_processors L q c))"
proof -
  let ?K = "slot (stack_page A) ` {..<1024}"
  obtain mbt u where u: "boot_asm L A cmd s = higher_half_kernel L mbt MULTIBOOT_BOOTLOADER_MAGIC cmd u"
    "usable_map L mbt u" "boot_image L cmd u"
    by (rule boot_asm_enters [OF assms]) (rule that)
  have al: "page_aligned (stack_page A)" "page_aligned (sym_kmalloc_init_block L)" "stack_page A \<noteq> sym_kmalloc_init_block L"
    and top: "unat (stack_page A) < 0xC0000000 + first_frame L"
    using assms by (auto simp: loaded_def boot_layout_def boot_image_def boot_pages_def)
  obtain a b where ab: "unat (stack_page A) = 4096 * a" "first_frame L = 4096 * b"
    using al(1) first_frame_bound(2) [OF u(2)] by (auto simp: page_aligned_def elim!: dvdE)
  with top have "a < 786432 + b" by linarith
  with ab have "unat (stack_page A) + 4096 \<le> 0xC0000000 + first_frame L" by linarith
  then have "boot_stack L ?K"
    using al by (auto simp: boot_stack_def aligned4_slot unat_slot slot_eq_iff)
  from kernel_runs_three_processors [OF u(2,3) this] show ?thesis unfolding u(1) Let_def .
qed

section \<open>The example machine\<close>

definition example_labels :: boot_labels where
  "example_labels = \<lparr>stack_top = 0xC0121000, temp_page_directory = 0xC0121000, temp_page_table = 0xC0122000,
     higher_half_label = 0xC0100100\<rparr>"

text \<open>The example machine as the loader leaves it, with the information structure at 0x7000.\<close>

definition example_loaded :: "'a kernel_state_scheme \<Rightarrow> 'a kernel_state_scheme" where
  "example_loaded s =
     (let s = example_kernel s
      in s\<lparr>mem := store32 (store32 (store32 (store32 (store32 (mem s) 0x7000 0x40) 0x7014 1) 0x7018 0x9000) 0x702C 48) 0x7030 0x8000,
           cpu := (cpu s)\<lparr>r_eax := 0x2BADB002, r_ebx := 0x7000\<rparr>\<rparr>)"

lemma example_loaded_mem:
  "0x7034 \<le> a \<Longrightarrow> mem (example_loaded s) a = mem (example_kernel s) a"
  by (auto simp: example_loaded_def Let_def store32_def)

lemma example_loaded_load:
  assumes "0x7034 \<le> unat a" "unat a \<le> 2 ^ 32 - 4"
  shows "load32 (mem (example_loaded s)) a = load32 (mem (example_kernel s)) a"
proof (rule load32_cong, rule example_loaded_mem)
  fix i :: nat assume "i < 4"
  then have "unat (a + of_nat i) = unat a + i" using assms(2) by (simp add: unat_word_ariths unat_of_nat)
  then show "0x7034 \<le> a + of_nat i" using assms(1) by (simp add: word_le_nat_alt)
qed

lemma example_loaded_info: "multiboot_info_at (mem (example_loaded s)) 0x7000 = example_map"
  by (simp add: multiboot_info_at_def example_map_def example_loaded_def Let_def load32_store32_apart apart32_def)

lemma example_is_loaded: "loaded example_symbols example_labels 0xC0120000 (example_loaded s)"
proof -
  have hi: "rd (slot p i) (example_loaded s) = 0" if "page_aligned p" "0xC0000000 \<le> unat p" "i < 1024" for p i
  proof -
    have u: "unat (slot p i) = unat p + 4 * i" "unat p \<le> 2 ^ 32 - 4096" using that unat_slot page_aligned_le by simp_all
    then have "load32 (mem (example_loaded s)) (slot p i) = load32 (mem (example_kernel s)) (slot p i)"
      using that by (intro example_loaded_load) simp_all
    also have "\<dots> = load32 (\<lambda>_. 0) (slot p i)"
    proof (rule load32_cong)
      fix j :: nat assume "j < 4"
      then have "unat (slot p i + of_nat j) = unat p + 4 * i + j" using u that by (simp add: unat_word_ariths unat_of_nat)
      then show "mem (example_kernel s) (slot p i + of_nat j) = 0"
        using that(2) by (simp add: example_kernel_def) (rule example_map_mem_high, simp add: word_le_nat_alt)
    qed
    finally show ?thesis by (simp add: rd_def load32_def)
  qed
  have k: "sym_kmalloc_init_block example_symbols = 0xC0112000" by (simp add: example_symbols_def)
  have n: "map_entries example_map = 2" by (simp add: map_entries_def example_map_def)
  have um: "usable_map example_symbols example_map (example_loaded s)"
  proof (rule usable_map_kept [OF example_kernel_map [of s]])
    show "pmm (example_loaded s) = pmm (example_kernel s)" by (simp add: example_loaded_def Let_def)
    show "rd (mods_addr example_map) (example_loaded s) = rd (mods_addr example_map) (example_kernel s)"
      unfolding rd_def by (rule example_loaded_load) (simp_all add: example_map_def)
    show "mmap_entry_at (mem (example_loaded s)) (mmap_addr example_map + of_nat (24 * k))
        = mmap_entry_at (mem (example_kernel s)) (mmap_addr example_map + of_nat (24 * k))" if "k < map_entries example_map" for k
    proof -
      consider "k = 0" | "k = 1" using \<open>k < _\<close> n by linarith
      then show ?thesis by cases (simp_all add: mmap_entry_at_def example_map_def example_loaded_load)
    qed
  qed
  have im: "boot_image example_symbols 0xC0120000 (example_loaded s)"
  proof -
    have "rd (slot 0xC0112000 i) (example_loaded s) = 0" if "i < 1024" for i
      by (rule hi) (simp_all add: page_aligned_def that)
    then show ?thesis using example_kernel_image [of s] by (simp add: boot_image_def k page_aligned_def)
  qed
  have pd: "rd (slot 0xC0121000 i) (example_loaded s) = 0" if "i < 1024" for i
    by (rule hi) (simp_all add: page_aligned_def that)
  have "r_ebx (cpu (example_loaded s)) = 0x7000" "r_eax (cpu (example_loaded s)) = MULTIBOOT_BOOTLOADER_MAGIC"
    by (simp_all add: example_loaded_def Let_def MULTIBOOT_BOOTLOADER_MAGIC_def)
  then show ?thesis
    using um im pd
    by (simp add: loaded_def example_loaded_info n Let_def example_first_frame k)
      (simp add: example_labels_def example_map_def loader_area_def example_first_frame boot_layout_def boot_pages_def stack_page_def PAGE_SIZE_def page_aligned_def)
qed

theorem start_maps_kernel_witness:
  "\<forall>s :: kernel_state. \<exists>t. start example_labels (example_loaded s) = Inr ((), t) \<and> mmu_translate t 0xC0101234 = Some 0x00101234 \<and>
     mmu_translate t 0x00101234 = Some 0x00101234 \<and> mmu_translate t 0x00400000 = None \<and> rd 0xC0120FF8 t = 0x7000"
proof
  fix s :: kernel_state
  have l: "boot_layout example_labels" "\<forall>i<1024. rd (slot (temp_page_directory example_labels) i) (example_loaded s) = 0"
    using example_is_loaded [of s] by (simp_all add: loaded_def)
  have "stack_top example_labels - 8 = 0xC0120FF8" "r_ebx (cpu (example_loaded s)) = 0x7000" "V2P_ADDR 0xC0101234 = 0x00101234"
    by (simp_all add: example_labels_def example_loaded_def Let_def V2P_ADDR_def KERNEL_VIRT_BASE_def)
  with start_maps_kernel [OF l] show "\<exists>t. start example_labels (example_loaded s) = Inr ((), t) \<and>
      mmu_translate t 0xC0101234 = Some 0x00101234 \<and> mmu_translate t 0x00101234 = Some 0x00101234 \<and>
      mmu_translate t 0x00400000 = None \<and> rd 0xC0120FF8 t = 0x7000"
    by fastforce
qed

theorem start_boots_witness:
  "\<forall>s :: kernel_state. \<exists>t. boot_asm example_symbols example_labels 0xC0120000 (example_loaded s) = Inr (0, t) \<and>
     task_heap 0xC0112000 948 [974, 962, 950] t \<and> rd (task_pid (slot 0xC0112000 950)) t = 2 \<and>
     mmu_translate t 0xC0101234 = Some 0x00101234"
proof
  fix s :: kernel_state
  have e: "sym_kmalloc_init_block example_symbols = 0xC0112000" "V2P_ADDR 0xC0101234 = 0x00101234"
    by (simp_all add: example_symbols_def V2P_ADDR_def KERNEL_VIRT_BASE_def)
  show "\<exists>t. boot_asm example_symbols example_labels 0xC0120000 (example_loaded s) = Inr (0, t) \<and>
     task_heap 0xC0112000 948 [974, 962, 950] t \<and> rd (task_pid (slot 0xC0112000 950)) t = 2 \<and>
     mmu_translate t 0xC0101234 = Some 0x00101234"
    using start_boots [OF example_is_loaded, of s] unfolding e Let_def by (force simp: e)
qed

text \<open>After the boot of the example the first tick starts \<^verbatim>\<open>task_test\<close>.\<close>

theorem start_runs_three_processors_witness:
  "\<forall>s :: kernel_state. \<exists>t u. boot_asm example_symbols example_labels 0xC0120000 (example_loaded s) = Inr (0, t) \<and>
     irq_stub 32 (t\<lparr>cpu := example_console_regs\<lparr>r_esp := 0xC0121000\<rparr>\<rparr>) = Inr (Resume, u) \<and>
     r_eip (cpu u) = 0xC0103000 \<and> r_cs (cpu u) = 8"
proof
  fix s :: kernel_state
  let ?L = example_symbols and ?K = "slot 0xC0120000 ` {..<1024}" and ?c = "example_console_regs\<lparr>r_esp := 0xC0121000\<rparr>"
  have k: "stack_page example_labels = 0xC0120000" by (simp add: stack_page_def example_labels_def PAGE_SIZE_def)
  have "r_esp ?c - 56 + 4 * of_nat i = slot 0xC0120000 (1010 + i)" for i by (simp add: slot_def)
  then have c: "console_regs ?K ?c"
    using example_console_regs_ok by (auto simp: console_regs_def user_mode_def)
  obtain t q r where t: "boot_asm ?L example_labels 0xC0120000 (example_loaded s) = Inr (0, t)"
    and run: "\<And>es u. multitask_run (boot_ring ?L) (boot_stacks ?L ?K q r) (t\<lparr>cpu := ?c\<rparr>) es u \<Longrightarrow>
       tasks_safe (boot_ring ?L) (boot_stacks ?L ?K q r) u \<and>
       processors_of (boot_ring ?L) u = fold processor_event es (first_processors ?L q ?c)"
    using start_runs_three_processors [OF example_is_loaded, of s, unfolded k Let_def] c by blast
  let ?t = "t\<lparr>cpu := ?c\<rparr>" and ?own = "boot_stacks ?L ?K q r" and ?ts = "boot_ring ?L"
  note t0 = run [OF Run_none]
  have fl: "bit (r_eflags (cpu ?t)) 9" by (simp add: example_console_regs_def bit_iff_odd)
  have ts: "length ?ts = 3" "distinct ?ts"
    using t0 by (simp_all add: boot_ring_def Let_def tasks_safe_def tasks_ready_def task_ring_def)
  have "current_task ?t \<in> set ?ts" using t0 by (simp add: tasks_safe_def tasks_ready_def)
  then obtain i where i: "i < length ?ts" "current_task ?t = ?ts ! i" by (metis in_set_conv_nth)
  have "index_of ?ts (current_task ?t) = 0" using t0 by (simp add: processors_of_def first_processors_def)
  then have i0: "i = 0" using index_of_nth [OF ts(2) i(1)] i(2) by simp
  obtain u where u: "irq_stub 32 ?t = Inr (Resume, u)" "current_task u = ?ts ! (Suc i mod length ?ts)"
    by (rule timer_step [OF conjunct1 [OF t0] fl i]) (rule that)
  have "multitask_run ?ts ?own ?t [Tick] u" by (rule Run_event [OF Timer_event [OF fl u(1)] Run_none])
  from run [OF this] have "snd (processors_of ?ts u) = snd (fold processor_event [Tick] (first_processors ?L q ?c))"
    by (metis snd_conv)
  then have "map (virtual_cpu u) ?ts = snd (processor_event Tick (first_processors ?L q ?c))" by (simp add: processors_of_def)
  then have "map (virtual_cpu u) ?ts ! 1 = snd (first_processors ?L q ?c) ! 1" by (simp add: first_processors_def)
  moreover have "map (virtual_cpu u) ?ts ! 1 = cpu u" using ts(1) u(2) i0 by (simp add: virtual_cpu_def)
  ultimately have "cpu u = snd (first_processors ?L q ?c) ! 1" by simp
  then have "r_eip (cpu u) = 0xC0103000 \<and> r_cs (cpu u) = 8"
    by (simp add: first_processors_def kernel_start_def example_symbols_def GDT_KERNEL_CODE_SEG_def)
  with t u(1) show "\<exists>t u. boot_asm ?L example_labels 0xC0120000 (example_loaded s) = Inr (0, t) \<and>
     irq_stub 32 (t\<lparr>cpu := ?c\<rparr>) = Inr (Resume, u) \<and> r_eip (cpu u) = 0xC0103000 \<and> r_cs (cpu u) = 8"
    by blast
qed

end
