(* ===== verification/Spec2Isabelle.thy ===== *)
theory Spec2Isabelle
  imports Ctype Stdio Start
begin

text \<open>
  AOSIS, a teaching kernel for 32-bit x86, modelled from its C sources (\<^verbatim>\<open>src/kernel\<close>, \<^verbatim>\<open>src/libc\<close>,
  \<^verbatim>\<open>src/include\<close>) and the assembly its C code relies on. All paths below are relative to \<^verbatim>\<open>src/\<close>.

  \<^bold>\<open>The program.\<close> The boot loader enters \<^verbatim>\<open>kernel/boot/boot.asm\<close>, which turns paging on, loads the segment
  descriptors (\<^verbatim>\<open>kernel/memory/gdt.c\<close>) and calls \<^verbatim>\<open>kmain\<close> of \<^verbatim>\<open>kernel/kernel.c\<close>. \<^verbatim>\<open>kmain\<close> sets up
  the terminal (\<^verbatim>\<open>kernel/terminal/tty.c\<close>, \<^verbatim>\<open>vga.c\<close>), the interrupts (\<^verbatim>\<open>kernel/interrupt\<close>), the frame
  allocator, the page tables, the heap and the page allocator (\<^verbatim>\<open>kernel/memory\<close>), the tasks and the scheduler
  (\<^verbatim>\<open>kernel/task\<close>), keyboard and timer, and then runs the console (\<^verbatim>\<open>kernel/terminal/kshell.c\<close>). From then on
  the kernel is driven by two interrupts: the timer switches tasks, the keyboard fills the buffer the console reads.

  \<^bold>\<open>Theories\<close>, in the order of their imports:

  \<^item> \<open>Prelude\<close>: words, byte memory with 32-bit loads and stores, bit macros, page arithmetic, the results of routines;
    the collection \<open>mem_simps\<close>.
  \<^item> \<open>Machine\<close>: the record of the machine (memory, ports, interrupt flag, control registers), \<^verbatim>\<open>ports.c\<close>, \<^verbatim>\<open>cpu.c\<close>.
  \<^item> \<open>Ctype\<close>, \<open>Cstring\<close>, \<open>Stdio\<close>: \<^verbatim>\<open>libc/ctype\<close>, \<^verbatim>\<open>libc/string\<close>, \<^verbatim>\<open>libc/stdio\<close>.
  \<^item> \<open>Tty\<close>: \<^verbatim>\<open>vga.c\<close>, \<^verbatim>\<open>tty.c\<close> with \<^verbatim>\<open>kprintf\<close>, and \<^verbatim>\<open>panic\<close>. The terminal refines an abstract screen of
    2000 cells; locale \<open>char_device\<close> carries an invariant of one character to every printing routine.
  \<^item> \<open>Idt\<close>: the descriptor table and the handler table of \<^verbatim>\<open>interrupt.c\<close>. \<open>Dispatch\<close>: the stubs of
    \<^verbatim>\<open>init_idt.asm\<close>, \<^verbatim>\<open>isr_handler\<close> and \<^verbatim>\<open>irq_handler\<close>; what an interrupt does to the code it interrupts.
  \<^item> \<open>Pmm\<close>: \<^verbatim>\<open>pmm.c\<close>, with the locale \<open>page_pool\<close> of page allocators. \<open>Mmap\<close>: the memory map it reads, and when
    \<^verbatim>\<open>pmm_init\<close> leaves a usable pool.
  \<^item> \<open>Paging\<close>: \<^verbatim>\<open>paging.c\<close>; the walk of the processor, \<open>mmu_translate\<close>, is the specification of the tables.
  \<^item> \<open>Kmalloc\<close>, \<open>Vmm\<close>: \<^verbatim>\<open>kmalloc.c\<close> and \<^verbatim>\<open>vmm.c\<close>, which call each other. The heap refines a sorted list of free
    blocks; the page allocator is a second \<open>page_pool\<close>.
  \<^item> \<open>Userspace\<close>: the address spaces for user code of \<^verbatim>\<open>paging.c\<close>, and \<^verbatim>\<open>user/main.c\<close>. \<open>Bootmem\<close>: the memory
    components together, as \<^verbatim>\<open>kmain\<close> starts them.
  \<^item> \<open>Gdt\<close>: \<^verbatim>\<open>gdt.c\<close>. \<open>Task\<close>, \<open>TaskCreate\<close>: \<^verbatim>\<open>task.c\<close>, \<^verbatim>\<open>scheduler.c\<close>, \<^verbatim>\<open>task_switch.asm\<close>; the tasks refine
    a ring. \<open>Pic\<close>: \<^verbatim>\<open>pic.c\<close> and the two test tasks.
  \<^item> \<open>Keyboard\<close>: \<^verbatim>\<open>keyboard.c\<close>, \<^verbatim>\<open>keyboard.h\<close>, \<^verbatim>\<open>keyboard_lut.h\<close>; the buffer is an instance of the locale \<open>fifo\<close>.
  \<^item> \<open>Kshell\<close>: \<^verbatim>\<open>kshell.c\<close>. \<open>Console\<close>: the step relation of console rounds and key interrupts, its invariant and
    what every reachable state satisfies (locale \<open>invariant_system\<close>).
  \<^item> \<open>Boot\<close>, \<open>Kmain\<close>: \<^verbatim>\<open>kmain\<close> and the path to it from \<^verbatim>\<open>higher_half_kernel\<close>, to the loop of the console.
  \<^item> \<open>Multitask\<close>: the step relation of the running system, in which the code of the current task, the timer interrupt and
    the keyboard interrupt follow each other in any order; its runs, labelled with the sequence of these events; and its
    specification, a machine with one processor per task, on which \<open>processor_event\<close> is a function of the event.
    \<open>System\<close>: the state after boot as the first state of that system, and the code of the kernel's own tasks in it.
  \<^item> \<open>Start\<close>: \<^verbatim>\<open>_start\<close> of \<^verbatim>\<open>boot.asm\<close>, which runs with paging off, and the whole path from the entry point of the
    image; the theorems of \<open>Kmain\<close> and \<open>System\<close> about the boot, taken back to it. The predicate \<open>loaded\<close> is what the boot
    loader provides; its data must lie in the first 4 MiB, all that the page tables of \<^verbatim>\<open>_start\<close> map, and off the image.

  \<^bold>\<open>State.\<close> Each component extends the record of the one before it with its own static variables: \<open>machine\<close>, \<open>tty\<close>,
  \<open>idt_state\<close>, \<open>pmm_state\<close>, \<open>paging_state\<close>, \<open>kmalloc_state\<close>, \<open>vmm_state\<close>, \<open>gdt_state\<close>, \<open>task_state\<close>, \<open>pic_state\<close>,
  \<open>kb_kernel_state\<close>, \<open>shell_state\<close>, \<open>kernel_state\<close>. An operation is a function on any extension of its record, so it
  applies to the whole kernel and visibly leaves the rest alone. What the C code reaches through pointers (heap
  blocks, page tables, block descriptors, task structures, trap frames, strings in the image, the line of the console) lies in
  the byte memory \<open>mem\<close> at its real offsets; the fields of these structures are functions from the address of the structure
  to that of the field. Static arrays and structures that nobody points into are fields of the records.

  \<^bold>\<open>Results.\<close> A routine that always returns is a function on states, any other has type \<open>('s, 'a) result\<close>: \<open>Inr\<close> with
  a value and the state, or \<open>Inl\<close> with the reason why it does not return: \<open>Panic msg\<close>, \<open>Spin\<close> (it loops for ever) or
  \<open>Undefined\<close> (it runs into behaviour that C leaves undefined: a null pointer, an index outside its array, an
  uninitialised variable). Loops whose end depends on memory (\<^verbatim>\<open>strlen\<close>, \<^verbatim>\<open>strcmp\<close>, the memory map, the lists) are
  partial functions with \<^verbatim>\<open>None\<close> for never ending, and theorems that they return are proved as such. No definition has fuel:
  counted loops are folds over their range, and the mutual recursion of \<^verbatim>\<open>kmalloc\<close> and \<^verbatim>\<open>vmm_alloc_page\<close> ends because of
  the flag \<^verbatim>\<open>allocating_new_block\<close>. Integers have the width of the C types, so overflow wraps as on the target.

  \<^bold>\<open>Conventions.\<close> Memory is addressed by the kernel's virtual addresses; loads and stores are not translated one by
  one, and the theorems about page tables say what the processor would translate. While
  \<^verbatim>\<open>_start\<close> runs, addresses are physical, and a store through one goes to the virtual address of the image; what the boot
  loader leaves in low memory is read at the addresses it gives, as the C code does, and \<open>loaded\<close> demands that the page
  tables in force map it (\<open>loader_area\<close>). The frame buffer is a
  memory of its own. Addresses that the linker chooses are the argument \<open>L\<close> of type \<open>symbols\<close>, the address of the
  console's array on the stack is the argument \<open>cmd\<close>. Ports are a trace of the bytes written, and a function for the bytes
  read. A string literal is passed as its list of bytes. The endless loop of the console is one round as a function, which
  the step relation \<open>console\<close> repeats, with key interrupts between rounds; interrupts inside a routine are modelled by \<open>Dispatch\<close>
  as one step from the interrupted registers to the next ones, and do not interleave with the routine's own memory accesses.
  The code of a task is a parameter of \<open>Multitask\<close>: the predicate \<open>task_work\<close> states what it may change, namely its registers within
  its privilege level, and no task structure and no stack of another task. The rounds of the console and of
  \<^verbatim>\<open>task_test\<close> are proved to be such work. Code in user mode satisfies it as long as it does not
  push: after boot its stack page has the same frame as the stack of \<^verbatim>\<open>task_test\<close> (\<open>user_stack_is_task_stack\<close> of
  \<open>Kmain\<close>), which the loop of \<^verbatim>\<open>task_userspace\<close> never writes. The C routines do not set the register record, so the state after boot
  is taken with any registers of kernel mode on the boot stack.

  \<^bold>\<open>What is shown.\<close> At the top stand two theorems of \<open>Start\<close>. \<open>start_boots\<close>: loaded with a usable memory map, the
  kernel gets from its entry point to its console with its heap, page tables, handlers and three tasks in place.
  \<open>start_runs_three_processors\<close>: from there, after any sequence of task
  computations, timer ticks and key presses, the registers of all tasks are those of three processors after the same
  events, where a tick only passes the turn to the next processor and a key press changes nothing; the three
  processors start at the console, at \<^verbatim>\<open>task_test\<close> in kernel mode and at \<^verbatim>\<open>task_userspace\<close> in user mode. It rests on the refinement of \<open>Multitask\<close>, whose invariant \<open>tasks_safe\<close> says that every
  waiting task has its frame on a stack of its own. \<open>typed_line_is_run\<close> of \<open>Console\<close> follows a typed line from the key
  buffer to its command. Below them stand, per component, the invariants (ring of tasks,
  kernel address space, buffer, terminal), the refinements (heap, keyboard, screen), the functional theorems on every branch, round trips, bounds and termination; and the theorems about what goes wrong:
  user stack and kernel stack in the same frame after boot, the same heap block handed out twice, NULL after growing the heap,
  the index past the key buffer, the return from an exception with a shifted frame, the bound that makes every
  \<^verbatim>\<open>pmm_free_page\<close> panic. Theorems with hypotheses have a witness on a concrete machine (\<open>example_symbols\<close>,
  \<open>example_pool\<close>, \<open>example_boot\<close>, \<open>example_kernel\<close>, \<open>example_loaded\<close>).

  \<^bold>\<open>Not modelled.\<close> The stack that C functions use below a trap frame; the segment registers other than cs, ds and
  ss; the arithmetic flags; the fields of the multiboot information that the kernel does not read; the two assembly routines that provoke exceptions and the Rust test, which nothing calls; build files, linker
  script and containers.
\<close>

text \<open>
  Three of the character classes are constant. The guard of \<^verbatim>\<open>isdigit\<close> asks for a value at most
  '0' and at least '9', which no value is, so \<^verbatim>\<open>isdigit\<close> and with it \<^verbatim>\<open>isalnum\<close> return 1 for every
  argument and \<^verbatim>\<open>isxdigit\<close> returns 0 for every argument.
\<close>

theorem ctype_digit_classes_constant: "isdigit c = 1 \<and> isalnum c = 1 \<and> isxdigit c = 0"
  by (simp add: isdigit_def isalnum_def isxdigit_def)

end
